(* ===== verification/Prelude.thy ===== *)
theory Prelude
  imports Main "HOL-Library.Word" "HOL-Library.AList" "HOL-Library.Char_ord"
    "HOL-Library.List_Lexorder" "HOL-Library.Sublist"
begin

text \<open>
  The prelude of the development: names for the machine integers of the source, the
  outcome type of code that may panic or not return, results as sums, the bytes of strings,
  and the dictionary interface that both the JSON objects and the connection cache provide.

  A Rust \<open>str\<close> is its UTF-8 bytes, so it is modelled by \<^typ>\<open>string\<close>, one
  \<^typ>\<open>char\<close> per byte; a \<open>[u8]\<close> on which the code does arithmetic is a list of
  8-bit words, and \<open>byte_of_char\<close> and \<open>char_of_byte\<close> go between the two.
\<close>

unbundle bit_operations_syntax

named_theorems std_simps \<open>equations of the standard-library helpers\<close>
named_theorems wf_intros \<open>introduction rules for the well-formedness predicates\<close>

section \<open>Machine integers\<close>

type_synonym u8 = "8 word"
type_synonym u16 = "16 word"
type_synonym u32 = "32 word"
type_synonym u64 = "64 word"
type_synonym u128 = "128 word"
type_synonym i32 = "32 word"
type_synonym i64 = "64 word"
type_synonym usize = "64 word"

text \<open>An IEEE double is its bit pattern (\<open>f64::to_bits\<close>).\<close>

type_synonym f64 = "64 word"

section \<open>Outcomes\<close>

text \<open>A call returns a value, panics, or never returns.\<close>

datatype 'a run = Returns 'a | Panics | Diverges

fun run_bind :: "'a run \<Rightarrow> ('a \<Rightarrow> 'b run) \<Rightarrow> 'b run" where
  "run_bind (Returns x) f = f x"
| "run_bind Panics f = Panics"
| "run_bind Diverges f = Diverges"

text \<open>A loop that never returns has the value \<open>None\<close> of its partial function.\<close>

definition run_of_option :: "'a option \<Rightarrow> 'a run" where
  "run_of_option r = (case r of None \<Rightarrow> Diverges | Some x \<Rightarrow> Returns x)"

lemma run_of_option_simps [simp]:
  "run_of_option None = Diverges" "run_of_option (Some x) = Returns x"
  by (simp_all add: run_of_option_def)

lemma run_bind_Returns_iff:
  "run_bind r f = Returns y \<longleftrightarrow> (\<exists>x. r = Returns x \<and> f x = Returns y)"
  by (cases r) auto

lemma run_bind_Panics_iff:
  "run_bind r f = Panics \<longleftrightarrow> r = Panics \<or> (\<exists>x. r = Returns x \<and> f x = Panics)"
  by (cases r) auto

lemma run_bind_Diverges_iff:
  "run_bind r f = Diverges \<longleftrightarrow> r = Diverges \<or> (\<exists>x. r = Returns x \<and> f x = Diverges)"
  by (cases r) auto

section \<open>Results\<close>

text \<open>\<open>Result<T, E>\<close> is \<open>'e + 'a\<close>, the error on the left.\<close>

fun map_err :: "('e \<Rightarrow> 'f) \<Rightarrow> 'e + 'a \<Rightarrow> 'f + 'a" where
  "map_err f (Inl e) = Inl (f e)"
| "map_err f (Inr x) = Inr x"

text \<open>The \<open>?\<close> operator: go on with the value, or return the error.\<close>

fun res_bind :: "'e + 'a \<Rightarrow> ('a \<Rightarrow> 'e + 'b) \<Rightarrow> 'e + 'b" where
  "res_bind (Inl e) f = Inl e"
| "res_bind (Inr x) f = f x"

lemma res_bind_Inr_iff: "res_bind r f = Inr y \<longleftrightarrow> (\<exists>x. r = Inr x \<and> f x = Inr y)"
  by (cases r) auto

definition ok_or :: "'e \<Rightarrow> 'a option \<Rightarrow> 'e + 'a" where
  "ok_or e r = (case r of None \<Rightarrow> Inl e | Some x \<Rightarrow> Inr x)"

lemma ok_or_simps [simp]: "ok_or e None = Inl e" "ok_or e (Some x) = Inr x"
  by (simp_all add: ok_or_def)

lemma ok_or_Inr_iff: "ok_or e r = Inr x \<longleftrightarrow> r = Some x"
  by (cases r) auto

lemma map_err_Inr_iff: "map_err f r = Inr x \<longleftrightarrow> r = Inr x"
  by (cases r) auto

text \<open>\<open>Iterator::collect\<close> into a \<open>Result\<close>: the first error wins.\<close>

fun collect_results :: "('e + 'a) list \<Rightarrow> 'e + 'a list" where
  "collect_results [] = Inr []"
| "collect_results (Inl e # rs) = Inl e"
| "collect_results (Inr x # rs) =
     (case collect_results rs of Inl e \<Rightarrow> Inl e | Inr xs \<Rightarrow> Inr (x # xs))"

lemma collect_results_map_Inr:
  "collect_results (map f xs) = Inr ys \<longleftrightarrow> list_all2 (\<lambda>x y. f x = Inr y) xs ys"
proof (induction xs arbitrary: ys)
  case (Cons x xs)
  show ?case
    by (cases "f x"; cases ys) (auto simp: Cons.IH [symmetric] split: sum.splits)
qed auto

lemma collect_results_set:
  assumes "collect_results (map f xs) = Inr ys" "y \<in> set ys"
  shows "\<exists>x \<in> set xs. f x = Inr y"
  using assms
proof (induction xs arbitrary: ys)
  case (Cons x xs)
  then show ?case by (cases "f x") (auto split: sum.splits)
qed simp

lemma collect_results_Inl_iff:
  "(\<exists>e. collect_results (map f xs) = Inl e) \<longleftrightarrow> (\<exists>x \<in> set xs. \<exists>e. f x = Inl e)"
proof (induction xs)
  case (Cons x xs)
  then show ?case by (cases "f x") (auto split: sum.splits)
qed simp

section \<open>Bytes and characters\<close>

definition byte_of_char :: "char \<Rightarrow> u8" where
  "byte_of_char c = of_char c"

definition char_of_byte :: "u8 \<Rightarrow> char" where
  "char_of_byte b = char_of (unat b)"

definition bytes_of_str :: "string \<Rightarrow> u8 list" where
  "bytes_of_str s = map byte_of_char s"

definition str_of_bytes :: "u8 list \<Rightarrow> string" where
  "str_of_bytes bs = map char_of_byte bs"

lemma of_char_word: "(of_char c :: u8) = word_of_nat (of_char c)"
  by (simp only: of_nat_of_char)

lemma char_of_byte_of_char [simp]: "char_of_byte (byte_of_char c) = c"
proof -
  have "(of_char c :: nat) < 256" by simp
  then have "unat (word_of_nat (of_char c) :: u8) = of_char c"
    by (simp add: unat_of_nat)
  then show ?thesis
    by (simp add: char_of_byte_def byte_of_char_def of_char_word)
qed

lemma byte_of_char_of_byte [simp]: "byte_of_char (char_of_byte b) = b"
proof -
  have "unat b < 256" using unsigned_less [of b, where ?'a = nat] by simp
  then show ?thesis
    by (simp add: char_of_byte_def byte_of_char_def of_char_word del: of_nat_of_char)
qed

lemma str_of_bytes_of_str [simp]: "str_of_bytes (bytes_of_str s) = s"
  by (simp add: str_of_bytes_def bytes_of_str_def o_def)

lemma bytes_of_str_of_bytes [simp]: "bytes_of_str (str_of_bytes bs) = bs"
  by (simp add: str_of_bytes_def bytes_of_str_def o_def)

lemma length_bytes_of_str [simp]: "length (bytes_of_str s) = length s"
  by (simp add: bytes_of_str_def)

lemma length_str_of_bytes [simp]: "length (str_of_bytes s) = length s"
  by (simp add: str_of_bytes_def)

section \<open>Dictionaries\<close>

text \<open>
  What a client of \<open>std\<close>'s maps relies on: a lookup after an insertion, and a validity
  predicate that every operation keeps. \<open>BTreeMap\<close> (the object representation of
  \<open>serde_json\<close>) and \<open>HashMap\<close> (the connection cache) both provide it; the cache also
  removes keys.
\<close>

locale dict =
  fixes lookup :: "'m \<Rightarrow> 'k \<Rightarrow> 'v option"
    and insert :: "'k \<Rightarrow> 'v \<Rightarrow> 'm \<Rightarrow> 'm"
    and empty :: "'m"
    and valid :: "'m \<Rightarrow> bool"
  assumes lookup_empty: "lookup empty k = None"
    and lookup_insert: "valid m \<Longrightarrow> lookup (insert k v m) k' = (if k' = k then Some v else lookup m k')"
    and valid_empty: "valid empty"
    and valid_insert: "valid m \<Longrightarrow> valid (insert k v m)"
begin

lemma valid_insert_all:
  "valid m \<Longrightarrow> valid (foldl (\<lambda>m (k, v). insert k v m) m kvs)"
  by (induction kvs arbitrary: m) (auto intro: valid_insert)

text \<open>Inserting a list of pairs: the last pair of a key wins.\<close>

lemma lookup_insert_all:
  "valid m \<Longrightarrow> lookup (foldl (\<lambda>m (k, v). insert k v m) m kvs) k =
     (case map_of (rev kvs) k of None \<Rightarrow> lookup m k | Some v \<Rightarrow> Some v)"
  by (induction kvs arbitrary: m)
    (auto simp: lookup_insert valid_insert map_add_def split: option.splits)

lemma lookup_of_list:
  "lookup (foldl (\<lambda>m (k, v). insert k v m) empty kvs) k = map_of (rev kvs) k"
  by (simp add: lookup_insert_all valid_empty lookup_empty split: option.split)

end

locale dict_remove = dict +
  fixes remove :: "'k \<Rightarrow> 'm \<Rightarrow> 'm"
  assumes lookup_remove: "valid m \<Longrightarrow> lookup (remove k m) k' = (if k' = k then None else lookup m k')"
    and valid_remove: "valid m \<Longrightarrow> valid (remove k m)"
begin

lemma remove_insert_lookup:
  "valid m \<Longrightarrow> lookup (remove k (insert k v m)) k' = (if k' = k then None else lookup m k')"
  by (simp add: lookup_remove lookup_insert valid_insert)

end

text \<open>Of pairs inserted in order, the last one of a key is found.\<close>

lemma map_of_rev_zip_last:
  assumes "i < length ks" "length vs = length ks" "\<And>j. i < j \<Longrightarrow> j < length ks \<Longrightarrow> ks ! j \<noteq> ks ! i"
  shows "map_of (rev (zip ks vs)) (ks ! i) = Some (vs ! i)"
proof -
  have "zip ks vs = take i (zip ks vs) @ (ks ! i, vs ! i) # drop (Suc i) (zip ks vs)"
    using id_take_nth_drop [of i "zip ks vs"] assms(1,2) by simp
  then have "rev (zip ks vs) = rev (drop (Suc i) (zip ks vs)) @ (ks ! i, vs ! i) # rev (take i (zip ks vs))"
    by (metis append_Cons append_Nil append_assoc rev.simps(2) rev_append)
  then have "map_of (rev (zip ks vs)) (ks ! i) =
      (case map_of (rev (drop (Suc i) (zip ks vs))) (ks ! i) of None \<Rightarrow> Some (vs ! i) | Some x \<Rightarrow> Some x)"
    by (simp add: map_add_def split: option.split)
  moreover have "ks ! i \<notin> fst ` set (drop (Suc i) (zip ks vs))"
    using assms(2,3) by (fastforce simp: in_set_conv_nth image_iff)
  then have "map_of (rev (drop (Suc i) (zip ks vs))) (ks ! i) = None"
    by (simp add: map_of_eq_None_iff)
  ultimately show ?thesis by simp
qed

text \<open>
  \<open>HashMap\<close>: an association list with distinct keys, whose order stands for the
  unspecified iteration order.
\<close>

definition hash_map_ok :: "('k \<times> 'v) list \<Rightarrow> bool" where
  "hash_map_ok m \<longleftrightarrow> distinct (map fst m)"

interpretation hm: dict_remove map_of AList.update "[]" hash_map_ok AList.delete
  by unfold_locales
    (auto simp: hash_map_ok_def update_conv' delete_conv' distinct_update distinct_delete)

end
