(* ===== verification/Net.thy ===== *)
theory Net
  imports Text
begin

text \<open>
  The part of \<open>std::net\<close> the source uses: IPv4 and IPv6 addresses with their octets,
  socket addresses, and the address parser and printer of the standard library
  (\<open>core::net::parser\<close> and the \<open>Display\<close> instances). An address is a 32-bit or a
  128-bit word, most significant octet first.
\<close>

section \<open>Addresses\<close>

datatype ip_addr = V4 u32 | V6 u128

datatype socket_addr = SocketAddr (sock_ip: ip_addr) (sock_port: u16)

fun is_ipv4 :: "ip_addr \<Rightarrow> bool" where
  "is_ipv4 (V4 a) = True"
| "is_ipv4 (V6 a) = False"

definition be_octets :: "nat \<Rightarrow> 'a::len word \<Rightarrow> u8 list" where
  "be_octets n w = map (\<lambda>i. ucast (drop_bit (8 * (n - 1 - i)) w)) [0 ..< n]"

definition of_be_octets :: "u8 list \<Rightarrow> 'a::len word" where
  "of_be_octets os = foldl (\<lambda>acc b. push_bit 8 acc OR ucast b) 0 os"

definition v4_octets :: "u32 \<Rightarrow> u8 list" where
  "v4_octets a = be_octets 4 a"

definition v6_octets :: "u128 \<Rightarrow> u8 list" where
  "v6_octets a = be_octets 16 a"

definition v6_segments :: "u128 \<Rightarrow> u16 list" where
  "v6_segments a = map (\<lambda>i. ucast (drop_bit (16 * (7 - i)) a)) [0 ..< 8]"

definition v6_of_segments :: "u16 list \<Rightarrow> u128" where
  "v6_of_segments gs = foldl (\<lambda>acc g. push_bit 16 acc OR ucast g) 0 gs"

section \<open>The address parser\<close>

text \<open>The accumulator is an integer below \<open>limit\<close>, the checked arithmetic of the target type.\<close>

fun read_digits :: "nat \<Rightarrow> nat \<Rightarrow> int \<Rightarrow> int \<Rightarrow> nat \<Rightarrow> string \<Rightarrow> (int \<times> nat \<times> string) option" where
  "read_digits radix max_digits limit acc count [] = Some (acc, count, [])"
| "read_digits radix max_digits limit acc count (c # cs) =
     (case to_digit radix c of
        None \<Rightarrow> Some (acc, count, c # cs)
      | Some d \<Rightarrow>
          if acc * int radix + int d < limit \<and> count + 1 \<le> max_digits
          then read_digits radix max_digits limit (acc * int radix + int d) (count + 1) cs
          else None)"

definition read_number :: "nat \<Rightarrow> nat \<Rightarrow> bool \<Rightarrow> int \<Rightarrow> string \<Rightarrow> (int \<times> string) option" where
  "read_number radix max_digits allow_zero_prefix limit s =
     (case read_digits radix max_digits limit 0 0 s of
        None \<Rightarrow> None
      | Some (n, count, rest) \<Rightarrow>
          if count = 0 then None
          else if \<not> allow_zero_prefix \<and> hd s = CHR ''0'' \<and> count > 1 then None
          else Some (n, rest))"

definition read_separator ::
  "char \<Rightarrow> nat \<Rightarrow> (string \<Rightarrow> ('a \<times> string) option) \<Rightarrow> string \<Rightarrow> ('a \<times> string) option" where
  "read_separator sep index inner s =
     (if index > 0 then (case s of [] \<Rightarrow> None | c # cs \<Rightarrow> if c = sep then inner cs else None)
      else inner s)"

fun read_octets :: "nat \<Rightarrow> nat \<Rightarrow> string \<Rightarrow> (u8 list \<times> string) option" where
  "read_octets 0 index s = Some ([], s)"
| "read_octets (Suc n) index s =
     (case read_separator CHR ''.'' index (read_number 10 3 False 256) s of
        None \<Rightarrow> None
      | Some (v, s') \<Rightarrow>
          map_option (\<lambda>(os, r). (word_of_int v # os, r)) (read_octets n (Suc index) s'))"

definition read_ipv4_addr :: "string \<Rightarrow> (u32 \<times> string) option" where
  "read_ipv4_addr s = map_option (\<lambda>(os, r). (of_be_octets os, r)) (read_octets 4 0 s)"

text \<open>
  \<open>read_groups\<close> from index \<open>i\<close> with \<open>left\<close> slots to go: the groups read, whether an embedded
  IPv4 address ended them, the rest. An IPv4 address needs two slots.
\<close>

fun read_groups :: "nat \<Rightarrow> nat \<Rightarrow> string \<Rightarrow> u16 list \<times> bool \<times> string" where
  "read_groups i 0 s = ([], False, s)"
| "read_groups i (Suc left) s =
     (case (if left > 0 then read_separator CHR '':'' i read_ipv4_addr s else None) of
        Some (v4, s') \<Rightarrow> ([ucast (drop_bit 16 v4), ucast v4], True, s')
      | None \<Rightarrow>
          (case read_separator CHR '':'' i (read_number 16 4 True 65536) s of
             None \<Rightarrow> ([], False, s)
           | Some (g, s') \<Rightarrow>
               (case read_groups (Suc i) left s' of
                  (gs, v4, r) \<Rightarrow> (word_of_int g # gs, v4, r))))"

definition read_ipv6_addr :: "string \<Rightarrow> (u128 \<times> string) option" where
  "read_ipv6_addr s =
     (case read_groups 0 8 s of
        (head, head_v4, s1) \<Rightarrow>
          if length head = 8 then Some (v6_of_segments head, s1)
          else if head_v4 then None
          else
            (case s1 of
               c1 # c2 # s2 \<Rightarrow>
                 if c1 = CHR '':'' \<and> c2 = CHR '':'' then
                   (case read_groups 0 (8 - (length head + 1)) s2 of
                      (tail, _, s3) \<Rightarrow>
                        Some (v6_of_segments
                          (head @ replicate (8 - length tail - length head) 0 @ tail), s3))
                 else None
             | _ \<Rightarrow> None))"

definition parse_all :: "(string \<Rightarrow> ('a \<times> string) option) \<Rightarrow> string \<Rightarrow> 'a option" where
  "parse_all p s = (case p s of Some (x, []) \<Rightarrow> Some x | _ \<Rightarrow> None)"

definition read_ip_addr :: "string \<Rightarrow> (ip_addr \<times> string) option" where
  "read_ip_addr s =
     (case read_ipv4_addr s of
        Some (a, r) \<Rightarrow> Some (V4 a, r)
      | None \<Rightarrow> map_option (\<lambda>(a, r). (V6 a, r)) (read_ipv6_addr s))"

text \<open>The \<open>FromStr\<close> instances.\<close>

definition parse_ipv4 :: "string \<Rightarrow> u32 option" where
  "parse_ipv4 s = parse_all read_ipv4_addr s"

definition parse_ipv6 :: "string \<Rightarrow> u128 option" where
  "parse_ipv6 s = parse_all read_ipv6_addr s"

definition parse_ip_addr :: "string \<Rightarrow> ip_addr option" where
  "parse_ip_addr s = parse_all read_ip_addr s"

section \<open>The address printer\<close>

definition hex_digit :: "nat \<Rightarrow> char" where
  "hex_digit d = (if d < 10 then char_of (48 + d) else char_of (87 + d))"

fun hex_of_nat :: "nat \<Rightarrow> string" where
  "hex_of_nat n =
     (if n < 16 then [hex_digit n] else hex_of_nat (n div 16) @ [hex_digit (n mod 16)])"

declare hex_of_nat.simps [simp del]

definition show_ipv4 :: "u32 \<Rightarrow> string" where
  "show_ipv4 a = join_with ''.'' (map (\<lambda>b. dec_of_nat (unat b)) (v4_octets a))"

text \<open>The longest run of zero segments, the first one of equal length.\<close>

fun zero_span :: "nat \<Rightarrow> nat \<times> nat \<Rightarrow> nat \<times> nat \<Rightarrow> u16 list \<Rightarrow> nat \<times> nat" where
  "zero_span i longest current [] = longest"
| "zero_span i longest (start, len) (g # gs) =
     (if g = 0 then
        let current = (if len = 0 then i else start, len + 1) in
        zero_span (Suc i) (if snd current > snd longest then current else longest) current gs
      else zero_span (Suc i) longest (0, 0) gs)"

definition show_segments :: "u16 list \<Rightarrow> string" where
  "show_segments gs = join_with '':'' (map (\<lambda>g. hex_of_nat (unat g)) gs)"

definition show_ipv6 :: "u128 \<Rightarrow> string" where
  "show_ipv6 a =
     (let gs = v6_segments a in
      if take 6 gs = [0, 0, 0, 0, 0, 0xFFFF]
      then ''::ffff:'' @ show_ipv4 (ucast a)
      else
        (case zero_span 0 (0, 0) (0, 0) gs of
           (start, len) \<Rightarrow>
             if len > 1
             then show_segments (take start gs) @ ''::'' @ show_segments (drop (start + len) gs)
             else show_segments gs))"

fun show_ip :: "ip_addr \<Rightarrow> string" where
  "show_ip (V4 a) = show_ipv4 a"
| "show_ip (V6 a) = show_ipv6 a"

section \<open>Octets and bits\<close>

text \<open>The bits of an octet string, most significant first.\<close>

definition octet_bits :: "u8 list \<Rightarrow> bool list" where
  "octet_bits os = concat (map (\<lambda>b. map (\<lambda>i. bit b (7 - i)) [0 ..< 8]) os)"

lemma octet_bits_Nil [simp]: "octet_bits [] = []"
  by (simp add: octet_bits_def)

lemma octet_bits_Cons: "octet_bits (b # os) = map (\<lambda>i. bit b (7 - i)) [0 ..< 8] @ octet_bits os"
  by (simp add: octet_bits_def)

lemma length_octet_bits [simp]: "length (octet_bits os) = 8 * length os"
  by (induction os) (simp_all add: octet_bits_Cons)

lemma nth_octet_bits:
  "i < 8 * length os \<Longrightarrow> octet_bits os ! i = bit (os ! (i div 8)) (7 - i mod 8)"
proof (induction os arbitrary: i)
  case (Cons b os)
  show ?case
  proof (cases "i < 8")
    case True
    then show ?thesis
      by (simp add: octet_bits_Cons nth_append del: upt.simps)
  next
    case False
    then obtain j where j: "i = 8 + j" using le_iff_add by (metis not_less)
    with Cons.prems have "j < 8 * length os" by simp
    moreover have "(8 + j) div 8 = Suc (j div 8)" "(8 + j) mod 8 = j mod 8" by simp_all
    ultimately show ?thesis
      using Cons.IH j by (simp add: octet_bits_Cons nth_append del: upt.simps)
  qed
qed simp

lemma length_be_octets [simp]: "length (be_octets n w) = n"
  by (simp add: be_octets_def)

lemma nth_be_octets:
  "i < n \<Longrightarrow> be_octets n w ! i = ucast (drop_bit (8 * (n - 1 - i)) w)"
  by (simp add: be_octets_def)

lemma octet_bits_be_octets:
  fixes w :: "'a::len word"
  assumes "i < 8 * n" "8 * n \<le> LENGTH('a)"
  shows "octet_bits (be_octets n w) ! i = bit w (8 * n - 1 - i)"
proof -
  have d: "i div 8 < n" using assms by (simp add: less_mult_imp_div_less mult.commute)
  have e: "8 * (n - Suc (i div 8)) + (7 - i mod 8) = 8 * n - Suc i"
  proof -
    have "i = 8 * (i div 8) + i mod 8" "i mod 8 < 8" by simp_all
    moreover obtain k where "n = i div 8 + 1 + k"
      using d by (metis Suc_eq_plus1 add_Suc_right less_iff_Suc_add add.assoc add.commute)
    ultimately show ?thesis by linarith
  qed
  have "8 * n - 1 - i < LENGTH('a)" using assms by linarith
  moreover have "7 - i mod 8 < 8" by simp
  ultimately show ?thesis
    using assms d by (simp add: nth_octet_bits nth_be_octets bit_ucast_iff bit_drop_bit_eq e)
qed

lemma of_be_octets_snoc:
  "(of_be_octets (os @ [b]) :: 'a::len word) = push_bit 8 (of_be_octets os) OR ucast b"
  by (simp add: of_be_octets_def)

lemma bit_of_be_octets:
  assumes "8 * length os \<le> LENGTH('a)"
  shows "bit (of_be_octets os :: 'a::len word) j \<longleftrightarrow>
    j < 8 * length os \<and> bit (os ! (length os - 1 - j div 8)) (j mod 8)"
  using assms
proof (induction os arbitrary: j rule: rev_induct)
  case (snoc b os)
  show ?case
  proof (cases "j < 8")
    case True
    with snoc.prems show ?thesis
      by (simp add: of_be_octets_snoc bit_or_iff bit_push_bit_iff bit_ucast_iff nth_append)
  next
    case False
    define k where "k = j - 8"
    have j: "j = 8 + k" using False by (simp add: k_def)
    have "\<not> bit b j" using False bit_imp_le_length [of b j] by auto
    then have "bit (of_be_octets (os @ [b]) :: 'a word) j \<longleftrightarrow>
        j < LENGTH('a) \<and> bit (of_be_octets os :: 'a word) k"
      by (simp add: of_be_octets_snoc bit_or_iff bit_push_bit_iff bit_ucast_iff j)
    also have "\<dots> \<longleftrightarrow> k < 8 * length os \<and> bit (os ! (length os - 1 - k div 8)) (k mod 8)"
    proof -
      have "8 * length os \<le> LENGTH('a)" using snoc.prems by simp
      then have "bit (of_be_octets os :: 'a word) k \<longleftrightarrow>
          k < 8 * length os \<and> bit (os ! (length os - 1 - k div 8)) (k mod 8)"
        by (rule snoc.IH)
      moreover have "j < LENGTH('a)" if "k < 8 * length os" using that snoc.prems j by simp
      ultimately show ?thesis by blast
    qed
    also have "\<dots> \<longleftrightarrow> j < 8 * length (os @ [b]) \<and>
        bit ((os @ [b]) ! (length (os @ [b]) - 1 - j div 8)) (j mod 8)"
    proof (cases "k < 8 * length os")
      case True
      then have "k div 8 < length os" by (simp add: less_mult_imp_div_less mult.commute)
      moreover have "j div 8 = Suc (k div 8)" "j mod 8 = k mod 8" by (simp_all add: j)
      moreover have "length os - Suc (k div 8) < length os" using True by (cases os) auto
      moreover have "j < 8 * length (os @ [b])" using True j by simp
      ultimately show ?thesis using True by (simp add: nth_append)
    next
      case False
      then show ?thesis using j by simp
    qed
    finally show ?thesis .
  qed
qed (simp add: of_be_octets_def)

lemma of_be_octets_be_octets:
  fixes w :: "'a::len word"
  assumes "LENGTH('a) = 8 * n"
  shows "of_be_octets (be_octets n w) = w"
proof (rule bit_eqI)
  fix j assume "possible_bit TYPE('a word) j"
  then have j: "j < 8 * n" using assms by simp
  then have "j div 8 < n" by (simp add: less_mult_imp_div_less mult.commute)
  moreover from this have "8 * (n - 1 - (n - 1 - j div 8)) + j mod 8 = j" by simp
  ultimately show "bit (of_be_octets (be_octets n w) :: 'a word) j = bit w j"
    using j assms by (simp add: bit_of_be_octets nth_be_octets bit_simps)
qed

lemma be_octets_of_be_octets:
  assumes "LENGTH('a) = 8 * length os"
  shows "be_octets (length os) (of_be_octets os :: 'a::len word) = os"
proof (rule nth_equalityI; simp)
  fix i assume i: "i < length os"
  show "be_octets (length os) (of_be_octets os :: 'a word) ! i = os ! i"
  proof (rule bit_eqI)
    fix j assume "possible_bit TYPE(8 word) j"
    then have j: "j < 8" by simp
    let ?k = "8 * (length os - 1 - i) + j"
    have "?k div 8 = length os - 1 - i" "?k mod 8 = j" using j by simp_all
    moreover have "?k < 8 * length os" using i j by simp
    moreover have "length os - 1 - (length os - 1 - i) = i" using i by simp
    ultimately show "bit (be_octets (length os) (of_be_octets os :: 'a word) ! i) j = bit (os ! i) j"
      using i j assms by (simp add: nth_be_octets bit_simps bit_of_be_octets)
  qed
qed

end
