(* ===== verification/Utf8.thy ===== *)
theory Utf8
  imports Text
begin

text \<open>
  UTF-8 in the Rust standard library: the decoder step of \<open>core::str::lossy\<close> (a valid
  character, or a maximal invalid chunk), validity as \<open>str::from_utf8\<close> checks it,
  \<open>String::from_utf8_lossy\<close>, and \<open>str::trim\<close> over the Unicode White_Space characters.
  The server decodes every request body with \<open>from_utf8_lossy\<close>, so what it hands to the
  JSON parser is valid UTF-8 whatever the client sent.
\<close>

section \<open>The decoder\<close>

definition is_cont :: "u8 \<Rightarrow> bool" where
  "is_cont b \<longleftrightarrow> 0x80 \<le> b \<and> b \<le> 0xBF"

text \<open>The second byte a three-byte and a four-byte lead admit.\<close>

definition second3_ok :: "u8 \<Rightarrow> u8 \<Rightarrow> bool" where
  "second3_ok b c \<longleftrightarrow>
     b = 0xE0 \<and> 0xA0 \<le> c \<and> c \<le> 0xBF \<or>
     0xE1 \<le> b \<and> b \<le> 0xEC \<and> is_cont c \<or>
     b = 0xED \<and> 0x80 \<le> c \<and> c \<le> 0x9F \<or>
     0xEE \<le> b \<and> b \<le> 0xEF \<and> is_cont c"

definition second4_ok :: "u8 \<Rightarrow> u8 \<Rightarrow> bool" where
  "second4_ok b c \<longleftrightarrow>
     b = 0xF0 \<and> 0x90 \<le> c \<and> c \<le> 0xBF \<or>
     0xF1 \<le> b \<and> b \<le> 0xF3 \<and> is_cont c \<or>
     b = 0xF4 \<and> 0x80 \<le> c \<and> c \<le> 0x8F"

text \<open>
  One step on a non-empty input: \<open>(True, n)\<close> if it starts with a valid character of
  \<open>n\<close> bytes, \<open>(False, n)\<close> if its first \<open>n\<close> bytes are one invalid chunk.
\<close>

fun utf8_step :: "u8 list \<Rightarrow> bool \<times> nat" where
  "utf8_step [] = (True, 0)"
| "utf8_step (b # r) =
     (if b < 0x80 then (True, 1)
      else if 0xC2 \<le> b \<and> b \<le> 0xDF then
        (case r of c # _ \<Rightarrow> if is_cont c then (True, 2) else (False, 1) | [] \<Rightarrow> (False, 1))
      else if 0xE0 \<le> b \<and> b \<le> 0xEF then
        (case r of
           c # r2 \<Rightarrow>
             if second3_ok b c then
               (case r2 of d # _ \<Rightarrow> if is_cont d then (True, 3) else (False, 2)
                | [] \<Rightarrow> (False, 2))
             else (False, 1)
         | [] \<Rightarrow> (False, 1))
      else if 0xF0 \<le> b \<and> b \<le> 0xF4 then
        (case r of
           c # r2 \<Rightarrow>
             if second4_ok b c then
               (case r2 of
                  d # r3 \<Rightarrow>
                    if is_cont d then
                      (case r3 of e # _ \<Rightarrow> if is_cont e then (True, 4) else (False, 3)
                       | [] \<Rightarrow> (False, 3))
                    else (False, 2)
                | [] \<Rightarrow> (False, 2))
             else (False, 1)
         | [] \<Rightarrow> (False, 1))
      else (False, 1))"

declare utf8_step.simps(2) [simp del]

lemma utf8_step_pos: "utf8_step (b # r) = (ok, n) \<Longrightarrow> 1 \<le> n"
  by (auto simp: utf8_step.simps split: if_splits list.splits)

lemma utf8_step_bound: "utf8_step bs = (ok, n) \<Longrightarrow> n \<le> length bs"
  by (cases bs) (auto simp: utf8_step.simps split: if_splits list.splits)

text \<open>A valid character is recognised whatever follows it.\<close>

lemma utf8_step_prefix:
  "utf8_step (b # r) = (True, n) \<Longrightarrow> utf8_step (take n (b # r) @ ys) = (True, n)"
  by (auto simp: utf8_step.simps split: if_splits list.splits)

function utf8_lossy :: "u8 list \<Rightarrow> u8 list" where
  "utf8_lossy [] = []"
| "utf8_lossy (b # r) =
     (case utf8_step (b # r) of (ok, n) \<Rightarrow>
        (if ok then take n (b # r) else [0xEF, 0xBF, 0xBD]) @ utf8_lossy (drop n (b # r)))"
  by pat_completeness auto
termination
  by (relation "measure length") (auto dest: utf8_step_pos [OF sym])

function valid_utf8 :: "u8 list \<Rightarrow> bool" where
  "valid_utf8 [] = True"
| "valid_utf8 (b # r) =
     (case utf8_step (b # r) of (ok, n) \<Rightarrow> ok \<and> valid_utf8 (drop n (b # r)))"
  by pat_completeness auto
termination
  by (relation "measure length") (auto dest: utf8_step_pos [OF sym])

declare utf8_lossy.simps(2) [simp del] valid_utf8.simps(2) [simp del]

lemma valid_utf8_cons_char:
  assumes "utf8_step (b # r) = (True, n)"
  shows "valid_utf8 (take n (b # r) @ ys) = valid_utf8 ys"
proof -
  have n: "1 \<le> n" "n \<le> length (b # r)"
    using assms utf8_step_pos utf8_step_bound by blast+
  obtain k where k: "n = Suc k" using n by (cases n) auto
  have "utf8_step (b # (take k r @ ys)) = (True, Suc k)"
    using utf8_step_prefix [OF assms, of ys] by (simp add: k)
  then have "valid_utf8 (b # (take k r @ ys)) = valid_utf8 (drop k (take k r @ ys))"
    by (simp add: valid_utf8.simps)
  also have "drop k (take k r @ ys) = ys" using n k by simp
  finally show ?thesis by (simp add: k)
qed

lemma valid_utf8_replacement: "valid_utf8 ([0xEF, 0xBF, 0xBD] @ ys) = valid_utf8 ys"
  using valid_utf8_cons_char [of "0xEF" "[0xBF, 0xBD]" 3 ys]
  by (simp add: utf8_step.simps second3_ok_def is_cont_def)

lemma valid_utf8_lossy: "valid_utf8 (utf8_lossy bs)"
proof (induction bs rule: utf8_lossy.induct)
  case (2 b r)
  obtain ok n where s: "utf8_step (b # r) = (ok, n)" by (cases "utf8_step (b # r)")
  from 2 s have IH: "valid_utf8 (utf8_lossy (drop n (b # r)))" by simp
  show ?case
  proof (cases ok)
    case True
    with s IH valid_utf8_cons_char [of b r n] show ?thesis
      by (simp add: utf8_lossy.simps(2) [of b r])
  next
    case False
    with s IH valid_utf8_replacement show ?thesis
      by (simp add: utf8_lossy.simps(2) [of b r])
  qed
qed simp

lemma utf8_lossy_valid: "valid_utf8 bs \<Longrightarrow> utf8_lossy bs = bs"
proof (induction bs rule: utf8_lossy.induct)
  case (2 b r)
  obtain ok n where s: "utf8_step (b # r) = (ok, n)" by (cases "utf8_step (b # r)")
  with 2 show ?case
    by (auto simp: utf8_lossy.simps(2) [of b r] valid_utf8.simps(2) [of b r])
qed simp

lemma utf8_lossy_length: "length (utf8_lossy bs) \<le> 3 * length bs"
proof (induction bs rule: utf8_lossy.induct)
  case (2 b r)
  obtain ok n where s: "utf8_step (b # r) = (ok, n)" by (cases "utf8_step (b # r)")
  have "1 \<le> n" "n \<le> length (b # r)"
    using s utf8_step_pos utf8_step_bound by blast+
  moreover have "length (utf8_lossy (drop n (b # r))) \<le> 3 * (length (b # r) - n)"
    using 2 s by simp
  ultimately show ?case using s by (simp add: utf8_lossy.simps(2) [of b r]; linarith)
qed simp

lemma valid_utf8_append: "valid_utf8 xs \<Longrightarrow> valid_utf8 (xs @ ys) = valid_utf8 ys"
proof (induction xs rule: valid_utf8.induct)
  case (2 b r)
  obtain ok n where s: "utf8_step (b # r) = (ok, n)" by (cases "utf8_step (b # r)")
  with 2 have ok: "ok" "valid_utf8 (drop n (b # r))" by (auto simp: valid_utf8.simps(2))
  have "(b # r) @ ys = take n (b # r) @ (drop n (b # r) @ ys)" by simp
  then have "valid_utf8 ((b # r) @ ys) = valid_utf8 (drop n (b # r) @ ys)"
    using valid_utf8_cons_char [of b r n] s ok by metis
  with 2 s ok show ?case by simp
qed simp

text \<open>\<open>String::from_utf8_lossy\<close> and the check of \<open>read_to_string\<close>.\<close>

definition from_utf8_lossy :: "u8 list \<Rightarrow> string" where
  "from_utf8_lossy bs = str_of_bytes (utf8_lossy bs)"

definition from_utf8 :: "u8 list \<Rightarrow> string option" where
  "from_utf8 bs = (if valid_utf8 bs then Some (str_of_bytes bs) else None)"

text \<open>A value of type \<open>str\<close>: a string whose bytes are valid UTF-8.\<close>

definition is_str :: "string \<Rightarrow> bool" where
  "is_str s \<longleftrightarrow> valid_utf8 (bytes_of_str s)"

lemma is_str_from_utf8_lossy: "is_str (from_utf8_lossy bs)"
  by (simp add: is_str_def from_utf8_lossy_def valid_utf8_lossy)

lemma from_utf8_lossy_str: "is_str s \<Longrightarrow> from_utf8_lossy (bytes_of_str s) = s"
  by (simp add: is_str_def from_utf8_lossy_def utf8_lossy_valid)

section \<open>Trimming\<close>

text \<open>The UTF-8 encodings of the characters with the Unicode White_Space property.\<close>

definition white_space :: "string list" where
  "white_space =
     [[CHR 0x09], [CHR 0x0A], [CHR 0x0B], [CHR 0x0C], [CHR 0x0D], [CHR 0x20],
      [CHR 0xC2, CHR 0x85], [CHR 0xC2, CHR 0xA0], [CHR 0xE1, CHR 0x9A, CHR 0x80]] @
     map (\<lambda>n. [CHR 0xE2, CHR 0x80, char_of n]) [0x80 ..< 0x8B :: nat] @
     [[CHR 0xE2, CHR 0x80, CHR 0xA8], [CHR 0xE2, CHR 0x80, CHR 0xA9],
      [CHR 0xE2, CHR 0x80, CHR 0xAF], [CHR 0xE2, CHR 0x81, CHR 0x9F],
      [CHR 0xE3, CHR 0x80, CHR 0x80]]"

text \<open>For evaluation: the list written out.\<close>

lemma white_space_code [code]:
  "white_space =
     [[CHR 0x09], [CHR 0x0A], [CHR 0x0B], [CHR 0x0C], [CHR 0x0D], [CHR 0x20],
      [CHR 0xC2, CHR 0x85], [CHR 0xC2, CHR 0xA0], [CHR 0xE1, CHR 0x9A, CHR 0x80],
      [CHR 0xE2, CHR 0x80, CHR 0x80], [CHR 0xE2, CHR 0x80, CHR 0x81], [CHR 0xE2, CHR 0x80, CHR 0x82],
      [CHR 0xE2, CHR 0x80, CHR 0x83], [CHR 0xE2, CHR 0x80, CHR 0x84], [CHR 0xE2, CHR 0x80, CHR 0x85],
      [CHR 0xE2, CHR 0x80, CHR 0x86], [CHR 0xE2, CHR 0x80, CHR 0x87], [CHR 0xE2, CHR 0x80, CHR 0x88],
      [CHR 0xE2, CHR 0x80, CHR 0x89], [CHR 0xE2, CHR 0x80, CHR 0x8A], [CHR 0xE2, CHR 0x80, CHR 0xA8],
      [CHR 0xE2, CHR 0x80, CHR 0xA9], [CHR 0xE2, CHR 0x80, CHR 0xAF], [CHR 0xE2, CHR 0x81, CHR 0x9F],
      [CHR 0xE3, CHR 0x80, CHR 0x80]]"
  by code_simp

text \<open>Remove leading occurrences of the given (non-empty) pieces.\<close>

function strip_pieces :: "string list \<Rightarrow> string \<Rightarrow> string" where
  "strip_pieces ps s =
     (case find (\<lambda>p. p \<noteq> [] \<and> prefix p s) ps of
        None \<Rightarrow> s
      | Some p \<Rightarrow> strip_pieces ps (drop (length p) s))"
  by pat_completeness auto
termination
proof (relation "measure (length \<circ> snd)"; simp)
  fix ps s p
  assume "find (\<lambda>p. p \<noteq> [] \<and> prefix p s) ps = Some p"
  then have "p \<noteq> []" "prefix p s" by (auto simp: find_Some_iff)
  then show "length s - length p < length s"
    by (metis diff_less length_greater_0_conv prefix_bot.extremum_uniqueI)
qed

declare strip_pieces.simps [simp del]

definition trim_start :: "string \<Rightarrow> string" where
  "trim_start s = strip_pieces white_space s"

definition trim_end :: "string \<Rightarrow> string" where
  "trim_end s = rev (strip_pieces (map rev white_space) (rev s))"

definition trim :: "string \<Rightarrow> string" where
  "trim s = trim_end (trim_start s)"

lemma strip_pieces_suffix: "suffix (strip_pieces ps s) s"
proof (induction ps s rule: strip_pieces.induct)
  case (1 ps s)
  show ?case
  proof (cases "find (\<lambda>p. p \<noteq> [] \<and> prefix p s) ps")
    case None
    then show ?thesis by (simp add: strip_pieces.simps [of ps s])
  next
    case (Some p)
    with 1 have "suffix (strip_pieces ps (drop (length p) s)) (drop (length p) s)" by simp
    with Some show ?thesis
      by (simp add: strip_pieces.simps [of ps s]) (meson suffix_drop suffix_order.trans)
  qed
qed

lemma strip_pieces_none:
  assumes "\<And>p. p \<in> set ps \<Longrightarrow> p = [] \<or> \<not> prefix p s"
  shows "strip_pieces ps s = s"
proof -
  have "find (\<lambda>p. p \<noteq> [] \<and> prefix p s) ps = None"
    using assms by (auto simp: find_None_iff)
  then show ?thesis by (simp add: strip_pieces.simps [of ps s])
qed

lemma strip_pieces_done:
  "p \<in> set ps \<Longrightarrow> p \<noteq> [] \<Longrightarrow> \<not> prefix p (strip_pieces ps s)"
proof (induction ps s rule: strip_pieces.induct)
  case (1 ps s)
  show ?case
  proof (cases "find (\<lambda>p. p \<noteq> [] \<and> prefix p s) ps")
    case None
    then have "strip_pieces ps s = s" by (simp add: strip_pieces.simps [of ps s])
    with None 1 show ?thesis by (auto simp: find_None_iff)
  next
    case (Some q)
    with 1 show ?thesis by (simp add: strip_pieces.simps [of ps s])
  qed
qed

lemma strip_pieces_concat:
  "set qs \<subseteq> set ps \<Longrightarrow> (\<And>p q s. p \<in> set ps \<Longrightarrow> q \<in> set ps \<Longrightarrow> prefix p (q @ s) \<Longrightarrow> p \<noteq> [] \<Longrightarrow> p = q) \<Longrightarrow>
     [] \<notin> set ps \<Longrightarrow> strip_pieces ps (concat qs @ s) = strip_pieces ps s"
proof (induction qs)
  case (Cons q qs)
  have q: "q \<in> set ps" "q \<noteq> []" using Cons.prems by auto
  have "find (\<lambda>p. p \<noteq> [] \<and> prefix p (concat (q # qs) @ s)) ps = Some q"
  proof -
    have "\<exists>x. x \<in> set ps \<and> x \<noteq> [] \<and> prefix x (concat (q # qs) @ s)"
      using q by (intro exI [of _ q]) simp
    then obtain p where p: "find (\<lambda>p. p \<noteq> [] \<and> prefix p (concat (q # qs) @ s)) ps = Some p"
      by (cases "find (\<lambda>p. p \<noteq> [] \<and> prefix p (concat (q # qs) @ s)) ps")
        (auto simp: find_None_iff)
    then have "p \<in> set ps" "p \<noteq> []" "prefix p (q @ (concat qs @ s))"
      by (auto simp: find_Some_iff)
    then have "p = q" using Cons.prems(2) q by blast
    with p show ?thesis by simp
  qed
  then show ?case
    using Cons by (simp add: strip_pieces.simps [of ps "q @ concat qs @ s"])
qed simp

text \<open>Text with no white space at either end is left alone.\<close>

lemma trim_id:
  assumes "\<And>p. p \<in> set white_space \<Longrightarrow> \<not> prefix p s \<and> \<not> suffix p s"
  shows "trim s = s"
proof -
  have "trim_start s = s"
    unfolding trim_start_def by (rule strip_pieces_none) (use assms in blast)
  moreover have "trim_end s = s"
    unfolding trim_end_def
    by (subst strip_pieces_none) (use assms in \<open>auto simp: suffix_to_prefix\<close>)
  ultimately show ?thesis by (simp add: trim_def)
qed

end
