(* ===== verification/Cidr.thy ===== *)
theory Cidr
  imports Net Utf8
begin

text \<open>
  The CIDR networks of the IP whitelist (\<open>Cidr\<close> in \<open>src/src/config.rs\<close>): \<open>parse\<close>,
  \<open>contains\<close>, \<open>masked_eq\<close>, \<open>canonicalize\<close> and the \<open>Display\<close> instance. The slices and
  indexing of \<open>masked_eq\<close> can panic, so it returns a \<open>run\<close>. The two address families share
  one interface, the locale \<open>octet_family\<close>, in which the octet loops are compared with the
  first \<open>prefix\<close> bits of an address.
\<close>

section \<open>Definitions\<close>

record cidr =
  network :: ip_addr
  prefix_len :: u8

definition masked_eq :: "u8 list \<Rightarrow> u8 list \<Rightarrow> u8 \<Rightarrow> bool run" where
  "masked_eq a b p =
     (let full_bytes = unat (p div 8) in
      if full_bytes > length a \<or> full_bytes > length b then Panics
      else if take full_bytes a \<noteq> take full_bytes b then Returns False
      else
        let remaining_bits = p mod 8 in
        if remaining_bits > 0 then
          if full_bytes \<ge> length a \<or> full_bytes \<ge> length b then Panics
          else
            let mask = push_bit (unat (8 - remaining_bits)) 0xFF in
            Returns ((a ! full_bytes) AND mask = (b ! full_bytes) AND mask)
        else Returns True)"

definition mask_octet :: "nat \<Rightarrow> nat \<Rightarrow> u8 \<Rightarrow> u8" where
  "mask_octet p i byte =
     (let bits = i * 8 in
      if bits \<ge> p then 0
      else if bits + 8 > p then byte AND push_bit (bits + 8 - p) 0xFF
      else byte)"

definition mask_octets :: "u8 list \<Rightarrow> u8 \<Rightarrow> u8 list" where
  "mask_octets os p = map (\<lambda>i. mask_octet (unat p) i (os ! i)) [0 ..< length os]"

fun canonicalize :: "ip_addr \<Rightarrow> u8 \<Rightarrow> ip_addr" where
  "canonicalize (V4 a) p = V4 (of_be_octets (mask_octets (v4_octets a) p))"
| "canonicalize (V6 a) p = V6 (of_be_octets (mask_octets (v6_octets a) p))"

definition max_prefix :: "ip_addr \<Rightarrow> u8" where
  "max_prefix addr = (if is_ipv4 addr then 32 else 128)"

definition invalid_entry :: "string \<Rightarrow> string" where
  "invalid_entry entry = ''Invalid ip_whitelist entry: '' @ entry"

definition cidr_parse :: "string \<Rightarrow> string + cidr" where
  "cidr_parse entry =
     (case (case split_once CHR ''/'' entry of
              Some (addr, prefix_str) \<Rightarrow>
                (case parse_u8 prefix_str of
                   None \<Rightarrow> Inl (invalid_entry entry)
                 | Some p \<Rightarrow> Inr (addr, Some p))
            | None \<Rightarrow> Inr (entry, None)) of
        Inl e \<Rightarrow> Inl e
      | Inr (addr_str, p) \<Rightarrow>
          (case parse_ip_addr addr_str of
             None \<Rightarrow> Inl (invalid_entry entry)
           | Some addr \<Rightarrow>
               let pr = (case p of None \<Rightarrow> max_prefix addr | Some q \<Rightarrow> q) in
               if pr > max_prefix addr then Inl (invalid_entry entry)
               else Inr \<lparr>network = canonicalize addr pr, prefix_len = pr\<rparr>))"

definition cidr_contains :: "cidr \<Rightarrow> ip_addr \<Rightarrow> bool run" where
  "cidr_contains c ip =
     (case (network c, ip) of
        (V4 net, V4 a) \<Rightarrow> masked_eq (v4_octets net) (v4_octets a) (prefix_len c)
      | (V6 net, V6 a) \<Rightarrow> masked_eq (v6_octets net) (v6_octets a) (prefix_len c)
      | _ \<Rightarrow> Returns False)"

definition cidr_to_string :: "cidr \<Rightarrow> string" where
  "cidr_to_string c = show_ip (network c) @ ''/'' @ dec_of_nat (unat (prefix_len c))"

section \<open>The octet loops and the bits they compare\<close>

lemma bit_mask_byte: "m \<le> 8 \<Longrightarrow> bit (push_bit m 0xFF :: u8) j \<longleftrightarrow> m \<le> j \<and> j < 8"
proof -
  assume m: "m \<le> 8"
  have eq: "(0xFF :: u8) = mask 8" by (simp add: mask_eq_exp_minus_1)
  show ?thesis unfolding eq using m by (simp only: bit_push_bit_iff bit_mask_iff) auto
qed

lemma masked_byte_eq:
  assumes "0 < r" "r < 8"
  shows "((x :: u8) AND push_bit (8 - r) 0xFF = y AND push_bit (8 - r) 0xFF) \<longleftrightarrow>
    (\<forall>i < r. bit x (7 - i) = bit y (7 - i))"
proof
  assume eq: "x AND push_bit (8 - r) 0xFF = y AND push_bit (8 - r) 0xFF"
  show "\<forall>i < r. bit x (7 - i) = bit y (7 - i)"
  proof (intro allI impI)
    fix i assume "i < r"
    then have "bit (x AND push_bit (8 - r) 0xFF) (7 - i) = bit x (7 - i)"
      "bit (y AND push_bit (8 - r) 0xFF) (7 - i) = bit y (7 - i)"
      using assms by (auto simp: bit_and_iff bit_mask_byte)
    with eq show "bit x (7 - i) = bit y (7 - i)" by simp
  qed
next
  assume eq: "\<forall>i < r. bit x (7 - i) = bit y (7 - i)"
  show "x AND push_bit (8 - r) 0xFF = y AND push_bit (8 - r) 0xFF"
  proof (rule bit_eqI)
    fix j assume "possible_bit TYPE(8 word) j"
    then have "j < 8" by simp
    then show "bit (x AND push_bit (8 - r) 0xFF) j = bit (y AND push_bit (8 - r) 0xFF) j"
      using eq [rule_format, of "7 - j"] assms by (auto simp: bit_and_iff bit_mask_byte)
  qed
qed

lemma bit_mask_octet:
  "bit (mask_octet p i b) (7 - j) \<longleftrightarrow> bit b (7 - j) \<and> i * 8 + j < p" if "j < 8"
proof -
  consider "i * 8 \<ge> p" | "i * 8 < p" "i * 8 + 8 > p" | "i * 8 + 8 \<le> p" by linarith
  then show ?thesis
  proof cases
    case 2
    then have "i * 8 + 8 - p \<le> 7 - j \<longleftrightarrow> i * 8 + j < p" using that by linarith
    with 2 that show ?thesis
      by (auto simp: mask_octet_def Let_def bit_and_iff bit_mask_byte)
  qed (use that in \<open>auto simp: mask_octet_def Let_def\<close>)
qed

lemma length_mask_octets [simp]: "length (mask_octets os p) = length os"
  by (simp add: mask_octets_def)

lemma nth_octet_bits_mask:
  assumes "i < 8 * length os"
  shows "octet_bits (mask_octets os p) ! i \<longleftrightarrow> octet_bits os ! i \<and> i < unat p"
proof -
  have d: "i div 8 < length os" using assms by (simp add: less_mult_imp_div_less mult.commute)
  have "bit (mask_octet (unat p) (i div 8) (os ! (i div 8))) (7 - i mod 8) \<longleftrightarrow>
      bit (os ! (i div 8)) (7 - i mod 8) \<and> i < unat p"
    using bit_mask_octet [of "i mod 8" "unat p" "i div 8"] by simp
  with assms d show ?thesis by (simp add: nth_octet_bits mask_octets_def)
qed

lemma octet_bits_eq_iff: "length a = length b \<Longrightarrow> octet_bits a = octet_bits b \<longleftrightarrow> a = b"
proof
  assume len: "length a = length b" and eq: "octet_bits a = octet_bits b"
  show "a = b"
  proof (rule nth_equalityI [OF len])
    fix i assume i: "i < length a"
    show "a ! i = b ! i"
    proof (rule bit_eqI)
      fix j assume "possible_bit TYPE(8 word) j"
      then have j: "j < 8" by simp
      define k where "k = 8 * i + (7 - j)"
      have "(8 * i + (7 - j)) mod 8 = (7 - j) mod 8" by (rule mod_mult_self4)
      then have "k mod 8 = 7 - j" using j by (simp add: k_def)
      moreover have "(8 * i + (7 - j)) div 8 = i" by (subst div_mult_self4) simp_all
      moreover have "8 * i + (7 - j) < 8 * length a" using i by linarith
      moreover have "7 - (7 - j) = j" using j by simp
      ultimately have "octet_bits a ! k = bit (a ! i) j" "octet_bits b ! k = bit (b ! i) j"
        using len nth_octet_bits [of k a] nth_octet_bits [of k b] by (simp_all add: k_def [symmetric])
      with eq show "bit (a ! i) j = bit (b ! i) j" by simp
    qed
  qed
qed simp

text \<open>The first \<open>n\<close> bits of two octet strings agree.\<close>

definition same_prefix :: "nat \<Rightarrow> u8 list \<Rightarrow> u8 list \<Rightarrow> bool" where
  "same_prefix n a b \<longleftrightarrow> take n (octet_bits a) = take n (octet_bits b)"

lemma same_prefix_nth:
  "length a = length b \<Longrightarrow> n \<le> 8 * length a \<Longrightarrow>
     same_prefix n a b \<longleftrightarrow> (\<forall>i < n. octet_bits a ! i = octet_bits b ! i)"
  by (auto simp: same_prefix_def list_eq_iff_nth_eq)

lemma octet_bits_take: "octet_bits (take k os) = take (8 * k) (octet_bits os)"
proof (induction os arbitrary: k)
  case (Cons b os)
  then show ?case by (cases k) (simp_all add: octet_bits_Cons del: upt.simps)
qed simp

lemma same_prefix_full:
  assumes "length a = length b" "k \<le> length a"
  shows "same_prefix (8 * k) a b \<longleftrightarrow> take k a = take k b"
  using octet_bits_eq_iff [of "take k a" "take k b"] assms
  by (simp add: same_prefix_def octet_bits_take)

lemma same_prefix_split:
  assumes "length a = length b" "m + r \<le> 8 * length a"
  shows "same_prefix (m + r) a b \<longleftrightarrow>
    same_prefix m a b \<and> (\<forall>i < r. octet_bits a ! (m + i) = octet_bits b ! (m + i))"
proof -
  have "(\<forall>i < m + r. P i) \<longleftrightarrow> (\<forall>i < m. P i) \<and> (\<forall>i < r. P (m + i))" for P :: "nat \<Rightarrow> bool"
    by (metis add_less_cancel_left le_add_diff_inverse less_add_eq_less linorder_not_less
        trans_less_add1)
  with assms show ?thesis by (simp add: same_prefix_nth)
qed

lemma unat_div_mod_8: "unat (p div 8 :: u8) = unat p div 8" "unat (p mod 8 :: u8) = unat p mod 8"
  by (simp_all add: unat_div_distrib unat_mod_distrib)

text \<open>
  On octet strings of the same length with enough bits, \<open>masked_eq\<close> does not panic and
  compares exactly the first \<open>p\<close> bits.
\<close>

lemma masked_eq_same_prefix:
  assumes len: "length a = length b" and p: "unat p \<le> 8 * length a"
  shows "masked_eq a b p = Returns (same_prefix (unat p) a b)"
proof -
  define k where "k = unat p div 8"
  define r where "r = unat p mod 8"
  have pk: "unat p = 8 * k + r" "r < 8" by (simp_all add: k_def r_def)
  have k: "k \<le> length a" using p pk by linarith
  have full: "unat (p div 8) = k" by (simp add: unat_div_mod_8 k_def)
  have rem: "unat (p mod 8) = r" by (simp add: unat_div_mod_8 r_def)
  have pos: "p mod 8 > 0 \<longleftrightarrow> r > 0" using rem by (simp add: word_less_nat_alt)
  show ?thesis
  proof (cases "r = 0")
    case True
    then have "unat p = 8 * k" using pk by simp
    with True k len show ?thesis
      by (simp add: masked_eq_def Let_def full pos same_prefix_full)
  next
    case False
    have k2: "k < length a" using p pk False by linarith
    have "unat (8 - p mod 8) = 8 - r"
      using rem pk(2) by (simp add: unat_sub word_le_nat_alt)
    then have "masked_eq a b p =
        (if take k a = take k b
         then Returns ((a ! k) AND push_bit (8 - r) 0xFF = (b ! k) AND push_bit (8 - r) 0xFF)
         else Returns False)"
      using False k2 len by (simp add: masked_eq_def Let_def full pos)
    also have "(a ! k) AND push_bit (8 - r) 0xFF = (b ! k) AND push_bit (8 - r) 0xFF \<longleftrightarrow>
        (\<forall>i < r. octet_bits a ! (8 * k + i) = octet_bits b ! (8 * k + i))"
    proof -
      have "octet_bits c ! (8 * k + i) = bit (c ! k) (7 - i)"
        if "i < r" "length c = length a" for c i
        using that k2 pk(2) by (subst nth_octet_bits) auto
      then show ?thesis using masked_byte_eq [of r] False pk(2) len by simp
    qed
    also have "(if take k a = take k b then Returns (\<forall>i < r. octet_bits a ! (8 * k + i) =
        octet_bits b ! (8 * k + i)) else Returns False) = Returns (same_prefix (unat p) a b)"
      using same_prefix_split [OF len, of "8 * k" r] same_prefix_full [OF len k] p pk by simp
    finally show ?thesis .
  qed
qed

section \<open>Address families\<close>

text \<open>
  What \<open>masked_eq\<close> and \<open>canonicalize\<close> need of a family: its octets have a fixed length and
  determine the address.
\<close>

locale octet_family =
  fixes octets :: "'a \<Rightarrow> u8 list"
    and of_octets :: "u8 list \<Rightarrow> 'a"
    and width :: nat
  assumes length_octets: "length (octets a) = width"
    and of_octets_octets: "of_octets (octets a) = a"
    and octets_of_octets: "length os = width \<Longrightarrow> octets (of_octets os) = os"
begin

lemma masked_eq_returns:
  "unat p \<le> 8 * width \<Longrightarrow>
     masked_eq (octets a) (octets b) p = Returns (same_prefix (unat p) (octets a) (octets b))"
  by (rule masked_eq_same_prefix) (simp_all add: length_octets)

lemma octets_canon: "octets (of_octets (mask_octets (octets a) p)) = mask_octets (octets a) p"
  by (rule octets_of_octets) (simp add: length_octets)

text \<open>Masking keeps the prefix, so the stored network matches what the written one matches.\<close>

lemma same_prefix_canon:
  assumes "unat p \<le> 8 * width"
  shows "same_prefix (unat p) (octets (of_octets (mask_octets (octets a) p))) (octets b) \<longleftrightarrow>
    same_prefix (unat p) (octets a) (octets b)"
  unfolding octets_canon using assms
  by (simp add: same_prefix_nth length_octets nth_octet_bits_mask)

text \<open>Two addresses have the same network address iff their first bits agree.\<close>

lemma canon_eq_iff:
  assumes p: "unat p \<le> 8 * width"
  shows "of_octets (mask_octets (octets a) p) = of_octets (mask_octets (octets b) p) \<longleftrightarrow>
    same_prefix (unat p) (octets a) (octets b)"
proof -
  let ?m = "\<lambda>a. mask_octets (octets a) p"
  have "of_octets (?m a) = of_octets (?m b) \<longleftrightarrow> ?m a = ?m b"
    by (metis octets_canon)
  also have "\<dots> \<longleftrightarrow> octet_bits (?m a) = octet_bits (?m b)"
    by (simp add: octet_bits_eq_iff length_octets)
  also have "\<dots> \<longleftrightarrow> (\<forall>i < 8 * width. octet_bits (?m a) ! i = octet_bits (?m b) ! i)"
    by (simp add: list_eq_iff_nth_eq length_octets)
  also have "\<dots> \<longleftrightarrow> (\<forall>i < unat p. octet_bits (octets a) ! i = octet_bits (octets b) ! i)"
    using p by (simp add: nth_octet_bits_mask length_octets) (meson order_less_le_trans)
  finally show ?thesis using p by (simp add: same_prefix_nth length_octets)
qed

lemma canon_idem:
  "of_octets (mask_octets (octets (of_octets (mask_octets (octets a) p))) p) =
     of_octets (mask_octets (octets a) p)"
proof -
  have "octet_bits (mask_octets (mask_octets (octets a) p) p) = octet_bits (mask_octets (octets a) p)"
    by (simp add: list_eq_iff_nth_eq nth_octet_bits_mask)
  then have "mask_octets (mask_octets (octets a) p) p = mask_octets (octets a) p"
    by (simp add: octet_bits_eq_iff)
  then show ?thesis by (simp add: octets_canon)
qed

end

interpretation v4: octet_family v4_octets of_be_octets 4
proof
  fix os :: "u8 list" assume "length os = 4"
  then show "v4_octets (of_be_octets os) = os"
    using be_octets_of_be_octets [of os, where ?'a = 32] by (simp add: v4_octets_def)
qed (simp_all add: v4_octets_def of_be_octets_be_octets)

interpretation v6: octet_family v6_octets of_be_octets 16
proof
  fix os :: "u8 list" assume "length os = 16"
  then show "v6_octets (of_be_octets os) = os"
    using be_octets_of_be_octets [of os, where ?'a = 128] by (simp add: v6_octets_def)
qed (simp_all add: v6_octets_def of_be_octets_be_octets)

text \<open>On whole words, agreeing prefixes are equal right shifts.\<close>

lemma same_prefix_drop_bit:
  fixes a b :: "'a::len word"
  assumes w: "LENGTH('a) = 8 * m" and n: "n \<le> 8 * m"
  shows "same_prefix n (be_octets m a) (be_octets m b) \<longleftrightarrow>
    drop_bit (8 * m - n) a = drop_bit (8 * m - n) b"
proof
  assume "same_prefix n (be_octets m a) (be_octets m b)"
  then have eq: "bit a (8 * m - 1 - i) = bit b (8 * m - 1 - i)" if "i < n" for i
    using that n w octet_bits_be_octets [of i m a] octet_bits_be_octets [of i m b]
    by (simp add: same_prefix_nth)
  show "drop_bit (8 * m - n) a = drop_bit (8 * m - n) b"
  proof (rule bit_eqI)
    fix j assume "possible_bit TYPE('a word) j"
    show "bit (drop_bit (8 * m - n) a) j = bit (drop_bit (8 * m - n) b) j"
    proof (cases "j < n")
      case True
      then have "8 * m - 1 - (n - 1 - j) = 8 * m - n + j" "n - 1 - j < n" using n by linarith+
      then have "bit a (8 * m - n + j) = bit b (8 * m - n + j)"
        using eq [of "n - 1 - j"] by (simp only:)
      then show ?thesis by (simp only: bit_drop_bit_eq o_def)
    next
      case False
      then have "8 * m \<le> 8 * m - n + j" by linarith
      then show ?thesis
        using bit_imp_le_length [of a] bit_imp_le_length [of b] w
        by (auto simp: bit_drop_bit_eq) (meson linorder_not_less)+
    qed
  qed
next
  assume eq: "drop_bit (8 * m - n) a = drop_bit (8 * m - n) b"
  have "bit a (8 * m - 1 - i) = bit b (8 * m - 1 - i)" if "i < n" for i
  proof -
    have "bit (drop_bit (8 * m - n) a) (n - 1 - i) = bit (drop_bit (8 * m - n) b) (n - 1 - i)"
      using eq by simp
    moreover have "8 * m - n + (n - 1 - i) = 8 * m - 1 - i" using that n by linarith
    ultimately show ?thesis by (simp add: bit_drop_bit_eq)
  qed
  then show "same_prefix n (be_octets m a) (be_octets m b)"
    using n w by (simp add: same_prefix_nth octet_bits_be_octets)
qed

section \<open>Networks\<close>

text \<open>The specification: same family, and the prefix bits agree.\<close>

definition in_network :: "ip_addr \<Rightarrow> nat \<Rightarrow> ip_addr \<Rightarrow> bool" where
  "in_network net p ip =
     (case (net, ip) of
        (V4 n, V4 a) \<Rightarrow> drop_bit (32 - p) n = drop_bit (32 - p) a
      | (V6 n, V6 a) \<Rightarrow> drop_bit (128 - p) n = drop_bit (128 - p) a
      | _ \<Rightarrow> False)"

definition cidr_ok :: "cidr \<Rightarrow> bool" where
  "cidr_ok c \<longleftrightarrow> prefix_len c \<le> max_prefix (network c) \<and>
     canonicalize (network c) (prefix_len c) = network c"

lemma same_prefix_v4: "n \<le> 32 \<Longrightarrow>
    same_prefix n (v4_octets a) (v4_octets b) \<longleftrightarrow> drop_bit (32 - n) a = drop_bit (32 - n) b"
  using same_prefix_drop_bit [of 4 n a b] by (simp add: v4_octets_def)

lemma same_prefix_v6: "n \<le> 128 \<Longrightarrow>
    same_prefix n (v6_octets a) (v6_octets b) \<longleftrightarrow> drop_bit (128 - n) a = drop_bit (128 - n) b"
  using same_prefix_drop_bit [of 16 n a b] by (simp add: v6_octets_def)

lemma max_prefix_unat: "p \<le> max_prefix addr \<longleftrightarrow> unat p \<le> (if is_ipv4 addr then 32 else 128)"
  by (simp add: max_prefix_def word_le_nat_alt)

lemma is_ipv4_canonicalize [simp]: "is_ipv4 (canonicalize addr p) = is_ipv4 addr"
  by (cases addr) simp_all

lemma max_prefix_canonicalize [simp]: "max_prefix (canonicalize addr p) = max_prefix addr"
  by (simp add: max_prefix_def)

lemma canonicalize_idem: "canonicalize (canonicalize addr p) p = canonicalize addr p"
  by (cases addr) (simp_all add: v4.canon_idem v6.canon_idem)

lemma canonicalize_eq_iff:
  "unat p \<le> (if is_ipv4 a then 32 else 128) \<Longrightarrow>
     canonicalize a p = canonicalize b p \<longleftrightarrow> in_network a (unat p) b"
  by (cases a; cases b)
    (simp_all add: in_network_def v4.canon_eq_iff v6.canon_eq_iff same_prefix_v4 same_prefix_v6)

lemma in_network_canonicalize:
  "unat p \<le> (if is_ipv4 a then 32 else 128) \<Longrightarrow>
     in_network (canonicalize a p) (unat p) b \<longleftrightarrow> in_network a (unat p) b"
  using canonicalize_eq_iff [of p "canonicalize a p" b] canonicalize_eq_iff [of p a b]
  by (simp add: canonicalize_idem)

lemma cidr_contains_in_network:
  assumes "prefix_len c \<le> max_prefix (network c)"
  shows "cidr_contains c ip = Returns (in_network (network c) (unat (prefix_len c)) ip)"
  using assms
  by (cases "network c"; cases ip)
    (simp_all add: cidr_contains_def in_network_def max_prefix_unat v4.masked_eq_returns
      v6.masked_eq_returns same_prefix_v4 same_prefix_v6)

lemma cidr_parse_Inr:
  "cidr_parse e = Inr c \<longleftrightarrow>
     (\<exists>a s p. split_once CHR ''/'' e = Some (s, p) \<and> parse_ip_addr s = Some a \<and>
        parse_u8 p = Some (prefix_len c) \<and> prefix_len c \<le> max_prefix a \<and>
        network c = canonicalize a (prefix_len c)) \<or>
     (\<exists>a. split_once CHR ''/'' e = None \<and> parse_ip_addr e = Some a \<and>
        prefix_len c = max_prefix a \<and> network c = canonicalize a (max_prefix a))"
  by (cases c) (auto simp: cidr_parse_def Let_def split: option.splits)

lemma cidr_parse_ok [wf_intros]: "cidr_parse e = Inr c \<Longrightarrow> cidr_ok c"
  by (auto simp: cidr_parse_Inr cidr_ok_def canonicalize_idem)

section \<open>Printing and reading back\<close>

lemma read_number_octet:
  assumes "n < 256" "\<And>c cs. rest = c # cs \<Longrightarrow> to_digit 10 c = None"
  shows "read_number 10 3 False 256 (dec_of_nat n @ rest) = Some (int n, rest)"
proof -
  have stop: "read_digits 10 3 256 acc count rest = Some (acc, count, rest)" for acc count
    using assms(2) by (cases rest) auto
  have "digit_char 0 = CHR ''0''" by code_simp
  then have zero: "digit_char d = CHR ''0'' \<longleftrightarrow> d = 0" if "d < 10" for d
    using that of_char_digit_char [of d] of_char_digit_char [of 0] by (metis add_right_cancel
        add.commute zero_less_numeral)
  consider "n < 10" | "10 \<le> n" "n < 100" | "100 \<le> n" by linarith
  then show ?thesis
  proof cases
    case 1
    then show ?thesis by (simp add: dec_of_nat.simps [of n] read_number_def stop)
  next
    case 2
    then have "n div 10 < 10" "0 < n div 10" "n mod 10 < 10" "n div 10 * 10 + n mod 10 = n"
      by auto
    moreover from this have "int (n div 10) * 10 + int (n mod 10) = int n" by linarith
    ultimately show ?thesis
      using 2 by (simp add: dec_of_nat.simps [of n] dec_of_nat.simps [of "n div 10"] read_number_def
          stop zero)
  next
    case 3
    define a where "a = n div 100"
    define b where "b = n div 10 mod 10"
    define d where "d = n mod 10"
    have digits: "n div 10 div 10 = a" "n div 10 mod 10 = b" "n mod 10 = d"
      by (simp_all add: a_def b_def d_def div_mult2_eq [symmetric])
    have n10: "n div 10 = a * 10 + b"
      unfolding digits(1) [symmetric] b_def by simp
    have val: "(a * 10 + b) * 10 + d = n" unfolding n10 [symmetric] d_def by simp
    have "n div 100 \<le> 255 div 100" using assms(1) by (intro div_le_mono) simp
    moreover have "100 div 100 \<le> n div 100" using 3 by (intro div_le_mono) simp
    ultimately have "a < 10" "0 < a" "b < 10" "d < 10" by (simp_all add: a_def b_def d_def)
    moreover have "10 \<le> n div 10" using 3 by (simp add: n10 flip: val)
    moreover have "a * 10 + b < 256" using val assms(1) by (simp add: algebra_simps)
    ultimately show ?thesis
      using 3 assms(1) val
      by (simp add: dec_of_nat.simps [of n] dec_of_nat.simps [of "n div 10"]
          dec_of_nat.simps [of a] digits read_number_def stop zero)
  qed
qed

lemma to_digit_sep [simp]: "to_digit 10 CHR ''.'' = None" "to_digit 10 CHR ''/'' = None"
  by (simp_all add: to_digit_def)

lemma read_ipv4_addr_show:
  assumes "\<And>c cs. rest = c # cs \<Longrightarrow> to_digit 10 c = None"
  shows "read_ipv4_addr (show_ipv4 a @ rest) = Some (a, rest)"
proof -
  obtain w x y z where os: "v4_octets a = [w, x, y, z]"
    by (simp add: v4_octets_def be_octets_def upt_rec)
  have lt: "unat b < 256" for b :: u8 using unsigned_less [of b, where ?'a = nat] by simp
  have num: "read_number 10 3 False 256 (dec_of_nat (unat b) @ CHR ''.'' # r) =
      Some (int (unat b), CHR ''.'' # r)" for b :: u8 and r
    by (rule read_number_octet) (auto simp: lt)
  have last: "read_number 10 3 False 256 (dec_of_nat (unat z) @ rest) = Some (int (unat z), rest)"
    by (rule read_number_octet) (use assms lt in auto)
  have "read_octets 4 0 (show_ipv4 a @ rest) = Some (v4_octets a, rest)"
  proof -
    have four: "(4 :: nat) = Suc (Suc (Suc (Suc 0)))" by simp
    show ?thesis
      unfolding four by (simp add: show_ipv4_def os read_separator_def num last)
  qed
  then show ?thesis by (simp add: read_ipv4_addr_def v4.of_octets_octets)
qed

lemma show_ipv4_no_slash: "CHR ''/'' \<notin> set (show_ipv4 a)"
proof -
  have "CHR ''/'' \<notin> set (dec_of_nat n)" for n using dec_of_nat_digits [of "CHR ''/''" n] by auto
  then show ?thesis by (simp add: show_ipv4_def v4_octets_def be_octets_def upt_rec)
qed

lemma parse_ip_addr_show_ipv4: "parse_ip_addr (show_ipv4 a) = Some (V4 a)"
  using read_ipv4_addr_show [of "[]" a] by (simp add: parse_ip_addr_def parse_all_def read_ip_addr_def)

lemma parse_u8_show: "parse_u8 (dec_of_nat (unat p)) = Some (p :: u8)"
  using unsigned_less [of p, where ?'a = nat] by (simp add: parse_u8_def parse_unsigned_dec_of_nat)

section \<open>Properties\<close>

text \<open>C25: A parsed whitelist entry is a canonical network whose prefix fits its address
  family, and its membership test never panics and holds exactly of the addresses of the same
  family whose first \<open>prefix\<close> bits are those of the network.\<close>

theorem cidr_parse_contains:
  assumes "cidr_parse entry = Inr c"
  shows "cidr_ok c \<and>
    (\<forall>ip. cidr_contains c ip = Returns (in_network (network c) (unat (prefix_len c)) ip))"
  using cidr_parse_ok [OF assms] cidr_contains_in_network by (simp add: cidr_ok_def)

theorem cidr_parse_contains_witness:
  "cidr_ok \<lparr>network = V4 0x0A000000, prefix_len = 8\<rparr> \<and>
   cidr_contains \<lparr>network = V4 0x0A000000, prefix_len = 8\<rparr> (V4 0x0A010203) = Returns True \<and>
   cidr_contains \<lparr>network = V4 0x0A000000, prefix_len = 8\<rparr> (V4 0x0B000001) = Returns False"
proof -
  have "cidr_parse ''10.1.2.3/8'' = Inr \<lparr>network = V4 0x0A000000, prefix_len = 8\<rparr>" by code_simp
  from cidr_parse_contains [OF this] show ?thesis by (simp add: in_network_def)
qed

text \<open>Zeroing the host bits loses nothing: two addresses have the same canonical network
  for a prefix iff their prefix bits agree, and canonicalising twice is canonicalising once.\<close>

theorem canonicalize_spec:
  assumes "p \<le> max_prefix a"
  shows "(canonicalize a p = canonicalize b p \<longleftrightarrow> in_network a (unat p) b) \<and>
    canonicalize (canonicalize a p) p = canonicalize a p"
  using assms canonicalize_eq_iff [of p a b] by (simp add: canonicalize_idem max_prefix_unat)

theorem canonicalize_spec_witness:
  "canonicalize (V4 0x0A010203) 8 = canonicalize (V4 0x0AFFFFFF) 8 \<and>
   canonicalize (V4 0x0A010203) 8 \<noteq> canonicalize (V4 0x0B010203) 8"
proof -
  have "(8 :: u8) \<le> max_prefix (V4 0x0A010203)" by (simp add: max_prefix_def)
  note spec = canonicalize_spec [OF this]
  show ?thesis
    using spec [of "V4 0x0AFFFFFF"] spec [of "V4 0x0B010203"] by (simp add: in_network_def)
qed

text \<open>The printed form of an IPv4 network, as it appears in the startup log, parses back to
  that network.\<close>

theorem cidr_display_roundtrip_v4:
  assumes "cidr_ok c" "is_ipv4 (network c)"
  shows "cidr_parse (cidr_to_string c) = Inr c"
proof -
  obtain a where a: "network c = V4 a" using assms(2) by (cases "network c") auto
  have "split_once CHR ''/'' (cidr_to_string c) =
      Some (show_ipv4 a, dec_of_nat (unat (prefix_len c)))"
    by (simp add: split_once_Some cidr_to_string_def a show_ipv4_no_slash)
  moreover have "prefix_len c \<le> max_prefix (V4 a)" "canonicalize (V4 a) (prefix_len c) = V4 a"
    using assms(1) by (simp_all add: cidr_ok_def a)
  ultimately show ?thesis
    unfolding cidr_parse_Inr using a parse_ip_addr_show_ipv4 [of a] parse_u8_show
    by (intro disjI1 exI [of _ "V4 a"] exI [of _ "show_ipv4 a"]
        exI [of _ "dec_of_nat (unat (prefix_len c))"]) simp
qed

theorem cidr_display_roundtrip_v4_witness:
  "cidr_to_string \<lparr>network = V4 0x0A000000, prefix_len = 8\<rparr> = ''10.0.0.0/8'' \<and>
   cidr_parse ''10.0.0.0/8'' = Inr \<lparr>network = V4 0x0A000000, prefix_len = 8\<rparr>"
proof -
  let ?c = "\<lparr>network = V4 0x0A000000, prefix_len = 8\<rparr>"
  have show_c: "cidr_to_string ?c = ''10.0.0.0/8''" by code_simp
  have "cidr_ok ?c" by code_simp
  from cidr_display_roundtrip_v4 [OF this] show ?thesis by (simp add: show_c)
qed

end
