(* ===== verification/Net_V6.thy ===== *)
theory Net_V6
  imports Cidr
begin

text \<open>
  The printer of IPv6 addresses against their parser: what \<open>Display\<close> writes, with the longest run of
  zeros as \<open>::\<close> or an IPv4 tail, is read back as the same address.
\<close>

section \<open>Hexadecimal groups\<close>

lemma of_char_hex_digit: "d < 16 \<Longrightarrow> (of_char (hex_digit d) :: nat) = (if d < 10 then 48 + d else 87 + d)"
  by (simp add: hex_digit_def)

lemma to_digit_hex_digit: "d < 16 \<Longrightarrow> to_digit 16 (hex_digit d) = Some d"
  by (simp add: to_digit_def of_char_hex_digit Let_def)

lemma hex_of_nat_chars: "c \<in> set (hex_of_nat n) \<Longrightarrow> \<exists>d < 16. c = hex_digit d"
proof (induction n rule: hex_of_nat.induct)
  case (1 n)
  show ?case
  proof (cases "n < 16")
    case True
    with 1 show ?thesis by (auto simp: hex_of_nat.simps [of n])
  next
    case False
    have "n mod 16 < 16" by simp
    with 1 False show ?thesis by (auto simp: hex_of_nat.simps [of n] intro: exI [of _ "n mod 16"])
  qed
qed

lemma hex_of_nat_not:
  assumes "(of_char c :: nat) < 48 \<or> (of_char c :: nat) = 58"
  shows "c \<notin> set (hex_of_nat n)"
  using assms by (auto dest!: hex_of_nat_chars simp: of_char_hex_digit split: if_splits)

lemma length_hex_of_nat: "n < 16 ^ Suc k \<Longrightarrow> length (hex_of_nat n) \<le> Suc k"
proof (induction k arbitrary: n)
  case 0
  then show ?case by (simp add: hex_of_nat.simps [of n])
next
  case (Suc k)
  have "n div 16 < 16 ^ Suc k" using Suc.prems by (simp add: less_mult_imp_div_less)
  from Suc.IH [OF this] show ?case by (simp add: hex_of_nat.simps [of n])
qed

definition not_hex :: "string \<Rightarrow> bool" where
  "not_hex s \<longleftrightarrow> (\<forall>c cs. s = c # cs \<longrightarrow> to_digit 16 c = None)"

lemma read_digits_hex:
  "n < 65536 \<Longrightarrow> read_digits 16 4 65536 0 0 (hex_of_nat n @ rest) =
     read_digits 16 4 65536 (int n) (length (hex_of_nat n)) rest"
proof (induction n arbitrary: rest rule: hex_of_nat.induct)
  case (1 n)
  have len: "length (hex_of_nat n) \<le> 4" using length_hex_of_nat [of n 3] 1(2) by simp
  show ?case
  proof (cases "n < 16")
    case True
    then show ?thesis using 1(2) by (simp add: hex_of_nat.simps [of n] to_digit_hex_digit)
  next
    case False
    have h: "hex_of_nat n = hex_of_nat (n div 16) @ [hex_digit (n mod 16)]"
      using False by (simp add: hex_of_nat.simps [of n])
    have "n div 16 < 65536" using 1(2) by simp
    then have "read_digits 16 4 65536 0 0 (hex_of_nat n @ rest) =
        read_digits 16 4 65536 (int (n div 16)) (length (hex_of_nat (n div 16))) (hex_digit (n mod 16) # rest)"
      using 1(1) [OF False, of "hex_digit (n mod 16) # rest"] by (simp add: h)
    moreover have "int (n div 16) * 16 + int (n mod 16) = int n" by (simp add: zdiv_int zmod_int)
    ultimately show ?thesis using len 1(2) by (simp add: h to_digit_hex_digit)
  qed
qed

lemma hex_of_nat_nonempty [simp]: "hex_of_nat n \<noteq> []"
  by (subst hex_of_nat.simps) simp

lemma read_number_hex:
  assumes "n < 65536" "not_hex rest"
  shows "read_number 16 4 True 65536 (hex_of_nat n @ rest) = Some (int n, rest)"
proof -
  have "read_digits 16 4 65536 acc count rest = Some (acc, count, rest)" for acc count
    using assms(2) by (cases rest) (auto simp: not_hex_def)
  then show ?thesis by (simp add: read_number_def read_digits_hex [OF assms(1)])
qed

section \<open>No IPv4 address\<close>

definition dec_char :: "char \<Rightarrow> bool" where
  "dec_char c \<longleftrightarrow> to_digit 10 c \<noteq> None"

lemma read_digits_run:
  "read_digits 10 m l acc count s = None \<or>
     (\<exists>v k. read_digits 10 m l acc count s = Some (v, k, dropWhile dec_char s))"
  by (induction s arbitrary: acc count) (auto simp: dec_char_def split: option.split)

lemma read_ipv4_none:
  assumes "\<And>cs. dropWhile dec_char s \<noteq> CHR ''.'' # cs"
  shows "read_ipv4_addr s = None"
proof -
  have "read_number 10 3 False 256 s = None \<or>
      (\<exists>v. read_number 10 3 False 256 s = Some (v, dropWhile dec_char s))"
    using read_digits_run [of 3 256 0 0 s] by (auto simp: read_number_def split: if_splits)
  moreover have "read_separator CHR ''.'' (Suc 0) f (dropWhile dec_char s) = None" for f :: "string \<Rightarrow> (int \<times> string) option"
    using assms by (auto simp: read_separator_def split: list.split)
  ultimately have "read_octets (Suc (Suc n)) 0 s = None" for n
    by (auto simp: read_separator_def [of _ 0])
  from this [of 2] show ?thesis by (simp add: read_ipv4_addr_def)
qed

text \<open>What follows a group: nothing, or a colon.\<close>

definition group_end :: "string \<Rightarrow> bool" where
  "group_end s \<longleftrightarrow> s = [] \<or> (\<exists>cs. s = CHR '':'' # cs)"

lemma group_end_not_hex: "group_end s \<Longrightarrow> not_hex s"
  by (auto simp: group_end_def not_hex_def to_digit_def)

lemma dropWhile_append_end:
  assumes "CHR ''.'' \<notin> set h" "group_end rest"
  shows "dropWhile dec_char (h @ rest) \<noteq> CHR ''.'' # cs"
  using assms
  by (induction h) (auto simp: group_end_def dec_char_def to_digit_def)

lemma read_ipv4_hex: "group_end rest \<Longrightarrow> read_ipv4_addr (hex_of_nat n @ rest) = None"
  by (intro read_ipv4_none dropWhile_append_end hex_of_nat_not) simp_all

lemma read_ipv4_end: "group_end rest \<Longrightarrow> read_ipv4_addr rest = None"
  using read_ipv4_none [of rest] dropWhile_append_end [of "[]" rest] by auto

section \<open>Groups\<close>

text \<open>The groups from the \<open>i\<close>-th on, each after the first behind a colon.\<close>

definition groups_text :: "nat \<Rightarrow> u16 list \<Rightarrow> string" where
  "groups_text i gs =
     (if i = 0 then show_segments gs else concat (map (\<lambda>g. CHR '':'' # hex_of_nat (unat g)) gs))"

lemma show_segments_Cons: "show_segments (g # gs) = hex_of_nat (unat g) @ groups_text 1 gs"
  by (induction gs arbitrary: g) (simp_all add: show_segments_def groups_text_def)

lemma group_end_groups: "0 < i \<Longrightarrow> group_end rest \<Longrightarrow> group_end (groups_text i gs @ rest)"
  by (cases gs) (auto simp: groups_text_def group_end_def)

lemma groups_text_Suc: "0 < i \<Longrightarrow> groups_text (Suc i) gs = groups_text i gs"
  by (simp add: groups_text_def)

lemma unat_u16 [simp]: "unat (g :: u16) < 65536"
  using unsigned_less [of g, where ?'a = nat] by simp

text \<open>Where the groups end: nothing, or the double colon.\<close>

definition groups_end :: "string \<Rightarrow> bool" where
  "groups_end s \<longleftrightarrow> s = [] \<or> (\<exists>cs. s = CHR '':'' # CHR '':'' # cs)"

lemma groups_end_group: "groups_end s \<Longrightarrow> group_end s"
  by (auto simp: groups_end_def group_end_def)

lemma read_number_colon: "read_number 16 4 True 65536 (CHR '':'' # cs) = None"
  "read_number 16 4 True 65536 [] = None"
  by (simp_all add: read_number_def to_digit_def)

lemma read_groups_end:
  assumes "groups_end rest"
  shows "read_groups i left rest = ([], False, rest)"
proof (cases left)
  case (Suc n)
  have "read_separator CHR '':'' i read_ipv4_addr rest = None"
    using assms read_ipv4_end [of rest] read_ipv4_end [of "tl rest"]
    by (auto simp: read_separator_def groups_end_def group_end_def)
  moreover have "read_separator CHR '':'' i (read_number 16 4 True 65536) rest = None"
    using assms by (auto simp: read_separator_def groups_end_def read_number_colon)
  ultimately show ?thesis using Suc by simp
qed simp

lemma read_groups_step:
  assumes "group_end rest"
  shows "read_groups i (Suc left) ((if i = 0 then [] else [CHR '':'']) @ hex_of_nat (unat g) @ rest) =
    (case read_groups (Suc i) left rest of (gs, v4, r) \<Rightarrow> (g # gs, v4, r))"
proof -
  let ?s = "(if i = 0 then [] else [CHR '':'']) @ hex_of_nat (unat g) @ rest"
  have "read_separator CHR '':'' i read_ipv4_addr ?s = None"
    using read_ipv4_hex [OF assms] by (simp add: read_separator_def)
  moreover have "read_separator CHR '':'' i (read_number 16 4 True 65536) ?s = Some (int (unat g), rest)"
    using read_number_hex [of "unat g" rest] group_end_not_hex [OF assms] by (simp add: read_separator_def)
  ultimately show ?thesis by simp
qed

lemma read_groups_text:
  "length gs \<le> left \<Longrightarrow> groups_end rest \<Longrightarrow>
     read_groups i left (groups_text i gs @ rest) = (gs, False, rest)"
proof (induction gs arbitrary: i left)
  case Nil
  then show ?case by (simp add: groups_text_def show_segments_def read_groups_end)
next
  case (Cons g gs)
  obtain n where n: "left = Suc n" "length gs \<le> n" using Cons.prems(1) by (cases left) auto
  let ?rest = "groups_text (Suc i) gs @ rest"
  have "groups_text i (g # gs) @ rest = (if i = 0 then [] else [CHR '':'']) @ hex_of_nat (unat g) @ ?rest"
    by (cases "i = 0") (simp_all add: show_segments_Cons groups_text_Suc, simp_all add: groups_text_def show_segments_Cons)
  moreover have "group_end ?rest"
    using group_end_groups [of "Suc i"] groups_end_group [OF Cons.prems(2)] by simp
  ultimately show ?case
    using read_groups_step [of ?rest i n g] Cons.IH [OF n(2) Cons.prems(2), of "Suc i"] n(1) by simp
qed

section \<open>The zero run\<close>

text \<open>A run of zeros that ends by position \<open>i\<close>.\<close>

definition zero_run :: "u16 list \<Rightarrow> nat \<Rightarrow> nat \<times> nat \<Rightarrow> bool" where
  "zero_run gs i sl \<longleftrightarrow>
     (case sl of (s, l) \<Rightarrow> s + l \<le> i \<and> (\<forall>j. s \<le> j \<longrightarrow> j < s + l \<longrightarrow> gs ! j = 0))"

lemma zero_span_run:
  "zero_run (pre @ gs) (length pre) longest \<Longrightarrow> zero_run (pre @ gs) (length pre) (s, l) \<Longrightarrow>
     l = 0 \<or> s + l = length pre \<Longrightarrow>
     zero_run (pre @ gs) (length (pre @ gs)) (zero_span (length pre) longest (s, l) gs)"
proof (induction gs arbitrary: pre longest s l)
  case Nil
  then show ?case by simp
next
  case (Cons g gs)
  have pre: "pre @ g # gs = (pre @ [g]) @ gs" by simp
  have mono: "zero_run (pre @ g # gs) (length (pre @ [g])) sl" if "zero_run (pre @ g # gs) (length pre) sl" for sl
    using that by (auto simp: zero_run_def)
  show ?case
  proof (cases "g = 0")
    case True
    define cur where "cur = (if l = 0 then length pre else s, l + 1)"
    have cur: "zero_run (pre @ g # gs) (length (pre @ [g])) cur"
      using Cons.prems(2,3) True
      by (auto simp: zero_run_def cur_def nth_append less_Suc_eq split: if_splits)
    moreover have "snd cur = 0 \<or> fst cur + snd cur = length (pre @ [g])"
      using Cons.prems(3) by (auto simp: cur_def)
    ultimately have "zero_run ((pre @ [g]) @ gs) (length ((pre @ [g]) @ gs))
        (zero_span (length (pre @ [g])) (if snd cur > snd longest then cur else longest) cur gs)"
      using Cons.IH [of "pre @ [g]" _ "fst cur" "snd cur"] mono [OF Cons.prems(1)]
      unfolding pre by (cases cur) simp
    then show ?thesis using True by (cases "l = 0") (auto simp: cur_def Let_def split: if_splits)
  next
    case False
    have "zero_run ((pre @ [g]) @ gs) (length (pre @ [g])) (0, 0)" by (simp add: zero_run_def)
    then have "zero_run ((pre @ [g]) @ gs) (length ((pre @ [g]) @ gs))
        (zero_span (length (pre @ [g])) longest (0, 0) gs)"
      using Cons.IH [of "pre @ [g]" longest 0 0] mono [OF Cons.prems(1)] unfolding pre by simp
    then show ?thesis using False by simp
  qed
qed

lemma zero_span_split:
  assumes "zero_span 0 (0, 0) (0, 0) gs = (s, l)"
  shows "gs = take s gs @ replicate l 0 @ drop (s + l) gs" "s + l \<le> length gs"
proof -
  have r: "zero_run gs (length gs) (s, l)"
    using zero_span_run [of "[]" gs "(0, 0)" 0 0] assms by (simp add: zero_run_def)
  then show "s + l \<le> length gs" by (simp add: zero_run_def)
  have "take l (drop s gs) = replicate l 0"
    using r by (intro nth_equalityI) (auto simp: zero_run_def)
  moreover have "gs = take s gs @ take l (drop s gs) @ drop l (drop s gs)"
    by (simp only: append_take_drop_id)
  ultimately show "gs = take s gs @ replicate l 0 @ drop (s + l) gs" by (simp add: add.commute)
qed

section \<open>Reading back\<close>

lemma v6_of_segments_v6_segments: "v6_of_segments (v6_segments a) = a"
proof (rule bit_word_eqI)
  fix i
  assume i: "i < LENGTH(128)"
  have u: "[0..<8] = [0, 1, 2, 3, 4, 5, 6, 7 :: nat]" by (simp add: upt_rec)
  define k where "k = i div 16"
  define r where "r = i mod 16"
  have ik: "i = 16 * k + r" "r < 16" by (simp_all add: k_def r_def)
  have "k < 8" using i by (simp add: k_def)
  then consider "k = 0" | "k = 1" | "k = 2" | "k = 3" | "k = 4" | "k = 5" | "k = 6" | "k = 7" by linarith
  then show "bit (v6_of_segments (v6_segments a)) i = bit a i"
    by cases (use ik in \<open>simp_all add: v6_of_segments_def v6_segments_def u bit_simps\<close>)
qed

lemma length_v6_segments [simp]: "length (v6_segments a) = 8"
  by (simp add: v6_segments_def)

lemma read_ipv6_compressed:
  assumes "length h + length t < 7"
  shows "read_ipv6_addr (show_segments h @ ''::'' @ show_segments t) =
    Some (v6_of_segments (h @ replicate (8 - length t - length h) 0 @ t), [])"
proof -
  have "read_groups 0 8 (show_segments h @ ''::'' @ show_segments t) = (h, False, ''::'' @ show_segments t)"
    using read_groups_text [of h 8 "''::'' @ show_segments t" 0] assms
    by (simp add: groups_text_def groups_end_def)
  moreover have "read_groups 0 (8 - (length h + 1)) (show_segments t) = (t, False, [])"
    using read_groups_text [of t "8 - (length h + 1)" "[]" 0] assms
    by (simp add: groups_text_def groups_end_def)
  ultimately show ?thesis using assms by (simp add: read_ipv6_addr_def)
qed

lemma read_ipv6_full:
  assumes "length gs = 8"
  shows "read_ipv6_addr (show_segments gs) = Some (v6_of_segments gs, [])"
  using read_groups_text [of gs 8 "[]" 0] assms
  by (simp add: groups_text_def groups_end_def read_ipv6_addr_def)

lemma read_ipv6_mapped:
  "read_ipv6_addr (''::ffff:'' @ show_ipv4 x) =
     Some (v6_of_segments [0, 0, 0, 0, 0, 0xFFFF, ucast (drop_bit 16 x), ucast x], [])"
proof -
  have head: "read_groups 0 8 (''::ffff:'' @ show_ipv4 x) = ([], False, ''::ffff:'' @ show_ipv4 x)"
    by (rule read_groups_end) (simp add: groups_end_def)
  have "hex_digit 15 = CHR ''f''" by code_simp
  then have f: "hex_of_nat (unat (0xFFFF :: u16)) = ''ffff''"
    by (simp add: hex_of_nat.simps [of 65535] hex_of_nat.simps [of 4095] hex_of_nat.simps [of 255]
        hex_of_nat.simps [of 15])
  have "read_groups (Suc 0) 6 (CHR '':'' # show_ipv4 x) = ([ucast (drop_bit 16 x), ucast x], True, [])"
    using read_ipv4_addr_show [of "[]" x] read_groups.simps(2) [of "Suc 0" 5 "CHR '':'' # show_ipv4 x"]
    by (simp add: read_separator_def)
  then have "read_groups 0 7 (''ffff'' @ CHR '':'' # show_ipv4 x) =
      ([0xFFFF, ucast (drop_bit 16 x), ucast x], True, [])"
    using read_groups_step [of "CHR '':'' # show_ipv4 x" 0 6 "0xFFFF"] unfolding f
    by (simp add: group_end_def)
  moreover have "replicate 5 (0 :: u16) = [0, 0, 0, 0, 0]" by (simp add: numeral_eq_Suc)
  ultimately show ?thesis using head by (simp add: read_ipv6_addr_def)
qed

lemma v6_segments_tail:
  "take 6 (v6_segments a) @ [ucast (drop_bit 16 (ucast a :: u32)), ucast (ucast a :: u32)] = v6_segments a"
proof -
  have u: "[0..<8] = [0, 1, 2, 3, 4, 5, 6, 7 :: nat]" by (simp add: upt_rec)
  have "(ucast (drop_bit 16 (ucast a :: u32)) :: u16) = ucast (drop_bit 16 a)"
    "(ucast (ucast a :: u32) :: u16) = ucast a"
    by (rule bit_word_eqI, auto simp: bit_simps)+
  then show ?thesis by (simp add: v6_segments_def u)
qed

lemma read_ipv6_addr_show: "read_ipv6_addr (show_ipv6 a) = Some (a, [])"
proof (cases "take 6 (v6_segments a) = [0, 0, 0, 0, 0, 0xFFFF]")
  case True
  have "[0, 0, 0, 0, 0, 0xFFFF, ucast (drop_bit 16 (ucast a :: u32)), ucast (ucast a :: u32)] = v6_segments a"
    using v6_segments_tail [of a] True by simp
  then show ?thesis
    using True read_ipv6_mapped [of "ucast a"] v6_of_segments_v6_segments [of a]
    by (simp add: show_ipv6_def Let_def)
next
  case False
  let ?gs = "v6_segments a"
  obtain s l where sl: "zero_span 0 (0, 0) (0, 0) ?gs = (s, l)"
    by (cases "zero_span 0 (0, 0) (0, 0) ?gs")
  note split = zero_span_split [OF sl]
  show ?thesis
  proof (cases "l > 1")
    case True
    let ?h = "take s ?gs" and ?t = "drop (s + l) ?gs"
    have "length ?h + length ?t < 7" "8 - length ?t - length ?h = l"
      using True split(2) by auto
    then have "read_ipv6_addr (show_segments ?h @ ''::'' @ show_segments ?t) =
        Some (v6_of_segments (?h @ replicate l 0 @ ?t), [])"
      using read_ipv6_compressed [of ?h ?t] by simp
    then show ?thesis
      using False True sl split(1) v6_of_segments_v6_segments [of a]
      by (simp add: show_ipv6_def Let_def)
  next
    case False
    then show ?thesis
      using \<open>take 6 ?gs \<noteq> _\<close> sl read_ipv6_full [of ?gs] v6_of_segments_v6_segments [of a]
      by (simp add: show_ipv6_def Let_def)
  qed
qed

lemma read_ipv4_segments: "group_end rest \<Longrightarrow> read_ipv4_addr (show_segments gs @ rest) = None"
  using group_end_groups [of 1 rest "tl gs"]
  by (cases gs) (simp_all add: show_segments_Cons read_ipv4_hex read_ipv4_end, simp add: show_segments_def read_ipv4_end)

lemma read_ipv4_show_ipv6: "read_ipv4_addr (show_ipv6 a) = None"
  using read_ipv4_end [of "''::ffff:'' @ show_ipv4 (ucast a)"] read_ipv4_segments [of "[]" "v6_segments a"]
    read_ipv4_segments [of "''::'' @ r" gs for gs r]
  by (auto simp: show_ipv6_def Let_def group_end_def split: prod.split)

lemma parse_ip_addr_show_ip: "parse_ip_addr (show_ip ip) = Some ip"
  using parse_ip_addr_show_ipv4 read_ipv4_show_ipv6 read_ipv6_addr_show
  by (cases ip) (simp_all add: parse_ip_addr_def parse_all_def read_ip_addr_def)

lemma show_ip_no_slash: "CHR ''/'' \<notin> set (show_ip ip)"
proof -
  have h: "CHR ''/'' \<notin> set (hex_of_nat n)" for n by (rule hex_of_nat_not) simp
  have j: "CHR ''/'' \<notin> set (join_with '':'' ss)" if "\<forall>s \<in> set ss. CHR ''/'' \<notin> set s" for ss
    using that by (induction ss rule: induct_list012) auto
  have "CHR ''/'' \<notin> set (show_segments gs)" for gs
    unfolding show_segments_def using h by (intro j) auto
  then show ?thesis
    using show_ipv4_no_slash by (cases ip) (auto simp: show_ipv6_def Let_def split: prod.split)
qed

section \<open>Properties\<close>

text \<open>C39: The text the server prints for a whitelist entry means that entry: it is parsed back as the
  same network, for addresses of both families.\<close>

theorem cidr_display_roundtrip:
  assumes "cidr_ok c"
  shows "cidr_parse (cidr_to_string c) = Inr c"
proof -
  have "split_once CHR ''/'' (cidr_to_string c) =
      Some (show_ip (network c), dec_of_nat (unat (prefix_len c)))"
    by (simp add: split_once_Some cidr_to_string_def show_ip_no_slash)
  moreover have "prefix_len c \<le> max_prefix (network c)"
    "canonicalize (network c) (prefix_len c) = network c"
    using assms by (simp_all add: cidr_ok_def)
  ultimately show ?thesis
    unfolding cidr_parse_Inr using parse_ip_addr_show_ip parse_u8_show
    by (intro disjI1 exI [of _ "network c"] exI [of _ "show_ip (network c)"]
        exI [of _ "dec_of_nat (unat (prefix_len c))"]) simp
qed

theorem cidr_display_roundtrip_witness:
  "cidr_parse (cidr_to_string \<lparr>network = V6 0x20010DB8000000000000000000000000, prefix_len = 32\<rparr>) =
     Inr \<lparr>network = V6 0x20010DB8000000000000000000000000, prefix_len = 32\<rparr>"
proof -
  have "cidr_ok \<lparr>network = V6 0x20010DB8000000000000000000000000, prefix_len = 32\<rparr>" by code_simp
  from cidr_display_roundtrip [OF this] show ?thesis .
qed

end
