(* ===== verification/Json.thy ===== *)
theory Json
  imports Utf8
begin

text \<open>
  The JSON values of \<open>serde_json\<close> as the source uses them: the \<open>Value\<close> enum, its
  \<open>Number\<close>, its object type \<open>Map\<close> (a \<open>BTreeMap\<close>, since \<open>Cargo.toml\<close> leaves the
  \<open>preserve_order\<close> feature off, so keys are kept in byte order), the accessors
  \<open>get\<close>, \<open>as_str\<close>, \<open>as_u64\<close>, \<open>as_i64\<close>, \<open>as_array\<close>, \<open>as_object\<close>, and the
  \<open>json!\<close> object literal. The parser and the printer of the crate are not modelled: they
  are parameters of the components that call them.
\<close>

section \<open>Values\<close>

datatype number = PosInt u64 | NegInt i64 | Float f64

datatype json =
    Null
  | Bool bool
  | Number number
  | String string
  | Array "json list"
  | Object "(string \<times> json) list"

text \<open>The exponent field of a double is all ones exactly for infinities and NaNs.\<close>

definition f64_exponent :: f64 where
  "f64_exponent = 0x7FF0000000000000"

definition f64_is_finite :: "f64 \<Rightarrow> bool" where
  "f64_is_finite f \<longleftrightarrow> f AND f64_exponent \<noteq> f64_exponent"

definition f64_is_nan :: "f64 \<Rightarrow> bool" where
  "f64_is_nan f \<longleftrightarrow> f AND f64_exponent = f64_exponent \<and> f AND 0x000FFFFFFFFFFFFF \<noteq> 0"

definition f64_is_infinite :: "f64 \<Rightarrow> bool" where
  "f64_is_infinite f \<longleftrightarrow> f AND 0x7FFFFFFFFFFFFFFF = f64_exponent"

definition f64_is_negative :: "f64 \<Rightarrow> bool" where
  "f64_is_negative f \<longleftrightarrow> bit f 63"

text \<open>\<open>Number::from_f64\<close> and the conversion of an \<open>i64\<close> by \<open>json!\<close>.\<close>

definition number_from_f64 :: "f64 \<Rightarrow> number option" where
  "number_from_f64 f = (if f64_is_finite f then Some (Float f) else None)"

definition json_of_i64 :: "i64 \<Rightarrow> json" where
  "json_of_i64 n = Number (if sint n < 0 then NegInt n else PosInt n)"

section \<open>Objects\<close>

fun obj_insert :: "string \<Rightarrow> 'v \<Rightarrow> (string \<times> 'v) list \<Rightarrow> (string \<times> 'v) list" where
  "obj_insert k v [] = [(k, v)]"
| "obj_insert k v ((k', v') # m) =
     (if k < k' then (k, v) # (k', v') # m
      else if k = k' then (k, v) # m
      else (k', v') # obj_insert k v m)"

definition obj_ok :: "(string \<times> 'v) list \<Rightarrow> bool" where
  "obj_ok m \<longleftrightarrow> sorted_wrt (<) (map fst m)"

lemma map_of_obj_insert: "map_of (obj_insert k v m) = (map_of m)(k \<mapsto> v)"
  by (induction m) (auto simp: fun_eq_iff)

lemma keys_obj_insert: "fst ` set (obj_insert k v m) = insert k (fst ` set m)"
  by (simp add: map_of_obj_insert flip: dom_map_of_conv_image_fst)

lemma set_obj_insert: "set (obj_insert k v m) \<subseteq> insert (k, v) (set m)"
  by (induction m) (auto split: if_splits)

lemma obj_ok_insert: "obj_ok m \<Longrightarrow> obj_ok (obj_insert k v m)"
proof (induction m)
  case (Cons p m)
  obtain k' v' where p: "p = (k', v')" by (cases p)
  have "\<forall>x \<in> set (obj_insert k v m). fst x \<in> insert k (fst ` set m)"
    using keys_obj_insert [of k v m] by blast
  with Cons show ?case
    unfolding obj_ok_def p by (fastforce simp: sorted_wrt_map)
qed (simp add: obj_ok_def)

interpretation om: dict map_of obj_insert "[]" obj_ok
  by unfold_locales (auto simp: map_of_obj_insert obj_ok_insert obj_ok_def [of "[]"])

definition obj_of_list :: "(string \<times> 'v) list \<Rightarrow> (string \<times> 'v) list" where
  "obj_of_list kvs = foldl (\<lambda>m (k, v). obj_insert k v m) [] kvs"

text \<open>\<open>json!({ k: v, ... })\<close>\<close>

definition json_object :: "(string \<times> json) list \<Rightarrow> json" where
  "json_object kvs = Object (obj_of_list kvs)"

lemma map_of_obj_of_list: "map_of (obj_of_list kvs) k = map_of (rev kvs) k"
  unfolding obj_of_list_def by (rule om.lookup_of_list)

lemma obj_ok_obj_of_list: "obj_ok (obj_of_list kvs)"
  unfolding obj_of_list_def by (rule om.valid_insert_all [OF om.valid_empty])

lemma keys_foldl_obj_insert:
  "fst ` set (foldl (\<lambda>m (k, v). obj_insert k v m) m kvs) = fst ` set m \<union> fst ` set kvs"
proof (induction kvs arbitrary: m)
  case (Cons p kvs)
  then show ?case by (cases p) (auto simp: keys_obj_insert)
qed simp

lemma keys_obj_of_list: "fst ` set (obj_of_list kvs) = fst ` set kvs"
  by (simp add: obj_of_list_def keys_foldl_obj_insert)

lemma obj_ok_distinct: "obj_ok m \<Longrightarrow> distinct (map fst m)"
  unfolding obj_ok_def by (induction m) auto

lemma map_of_obj_mem: "obj_ok m \<Longrightarrow> (k, v) \<in> set m \<longleftrightarrow> map_of m k = Some v"
  using obj_ok_distinct map_of_eq_Some_iff by metis

section \<open>Accessors\<close>

fun value_get :: "json \<Rightarrow> string \<Rightarrow> json option" where
  "value_get (Object m) k = map_of m k"
| "value_get v k = None"

fun as_str :: "json \<Rightarrow> string option" where
  "as_str (String s) = Some s"
| "as_str v = None"

fun as_u64 :: "json \<Rightarrow> u64 option" where
  "as_u64 (Number (PosInt n)) = Some n"
| "as_u64 v = None"

fun as_i64 :: "json \<Rightarrow> i64 option" where
  "as_i64 (Number (PosInt n)) = (if unat n < 2 ^ 63 then Some n else None)"
| "as_i64 (Number (NegInt n)) = Some n"
| "as_i64 v = None"

text \<open>For evaluation: the bound is compared as a binary number.\<close>

lemma as_i64_code [code]:
  "as_i64 v =
     (case v of
        Number (PosInt n) \<Rightarrow> if uint n < 2 ^ 63 then Some n else None
      | Number (NegInt n) \<Rightarrow> Some n
      | _ \<Rightarrow> None)"
proof -
  have "unat n < k \<longleftrightarrow> uint n < int k" for n :: u64 and k
    by (metis of_nat_less_iff uint_nat)
  from this [of _ "2 ^ 63"] have "unat n < 2 ^ 63 \<longleftrightarrow> uint n < 2 ^ 63" for n :: u64
    unfolding of_nat_power of_nat_numeral .
  then show ?thesis by (cases v rule: as_i64.cases) (simp_all only: as_i64.simps json.case number.case)
qed

fun as_array :: "json \<Rightarrow> json list option" where
  "as_array (Array xs) = Some xs"
| "as_array v = None"

fun as_object :: "json \<Rightarrow> (string \<times> json) list option" where
  "as_object (Object m) = Some m"
| "as_object v = None"

text \<open>\<open>json.get(key).and_then(Value::as_str)\<close>\<close>

definition get_str :: "json \<Rightarrow> string \<Rightarrow> string option" where
  "get_str v k = Option.bind (value_get v k) as_str"

lemma value_get_json_object [simp]: "value_get (json_object kvs) k = map_of (rev kvs) k"
  by (simp add: json_object_def map_of_obj_of_list)

lemma get_str_Some: "get_str v k = Some s \<longleftrightarrow> (\<exists>m. v = Object m \<and> map_of m k = Some (String s))"
proof -
  have "as_str w = Some s \<longleftrightarrow> w = String s" for w by (cases w) auto
  then show ?thesis by (cases v) (auto simp: get_str_def bind_eq_Some_conv)
qed

lemma unat_less_if_sint_nonneg: "0 \<le> sint (n :: i64) \<Longrightarrow> unat n < 2 ^ 63"
proof -
  assume "0 \<le> sint n"
  then have nb: "\<not> bit (uint n) 63" by (simp add: sint_uint)
  have "uint n = take_bit (Suc 63) (uint n)"
    using take_bit_int_eq_self [of "uint n" 64] uint_range_size [of n] by (simp add: word_size)
  also have "\<dots> = take_bit 63 (uint n)"
    using nb take_bit_Suc_from_most [of 63 "uint n"] by simp
  also have "\<dots> < 2 ^ 63" by (rule take_bit_int_less_exp)
  finally have "int (unat n) < int (2 ^ 63)" by simp
  then show ?thesis by (simp only: of_nat_less_iff)
qed

lemma as_i64_of_i64: "as_i64 (json_of_i64 n) = Some n"
  using unat_less_if_sint_nonneg [of n] by (simp add: json_of_i64_def)

section \<open>Well-formed values\<close>

text \<open>
  What every \<open>Value\<close> satisfies: objects have strictly ascending keys, a \<open>NegInt\<close> is
  negative, a \<open>Float\<close> is finite.
\<close>

fun wf_number :: "number \<Rightarrow> bool" where
  "wf_number (PosInt n) = True"
| "wf_number (NegInt n) = (sint n < 0)"
| "wf_number (Float f) = f64_is_finite f"

fun wf_json :: "json \<Rightarrow> bool" where
  "wf_json Null = True"
| "wf_json (Bool b) = True"
| "wf_json (Number n) = wf_number n"
| "wf_json (String s) = True"
| "wf_json (Array xs) = (\<forall>x \<in> set xs. wf_json x)"
| "wf_json (Object m) = (obj_ok m \<and> (\<forall>p \<in> set m. wf_json (snd p)))"

lemma wf_json_of_i64 [wf_intros]: "wf_json (json_of_i64 n)"
  by (simp add: json_of_i64_def)

lemma set_foldl_obj_insert:
  "set (foldl (\<lambda>m (k, v). obj_insert k v m) m kvs) \<subseteq> set m \<union> set kvs"
proof (induction kvs arbitrary: m)
  case (Cons p kvs)
  then show ?case by (cases p) (use set_obj_insert in fastforce)
qed simp

lemma wf_json_object [wf_intros]:
  assumes "\<And>k v. (k, v) \<in> set kvs \<Longrightarrow> wf_json v"
  shows "wf_json (json_object kvs)"
proof -
  have "set (obj_of_list kvs) \<subseteq> set kvs"
    using set_foldl_obj_insert [of "[]" kvs] by (simp add: obj_of_list_def)
  with assms show ?thesis
    by (fastforce simp: json_object_def obj_ok_obj_of_list)
qed

lemma wf_json_get: "wf_json v \<Longrightarrow> value_get v k = Some w \<Longrightarrow> wf_json w"
  by (cases v) (auto dest!: map_of_SomeD bspec)

end
