(* ===== verification/Filesystem.thy ===== *)
theory Filesystem
  imports Utf8
begin

text \<open>
  Paths and files as the source uses them through \<open>std::path\<close> and \<open>std::fs\<close> on Unix: the
  lexical operations on paths (\<open>is_absolute\<close>, \<open>join\<close>, \<open>components\<close>,
  \<open>strip_prefix\<close>), and a tree of files, directories and symbolic links with POSIX path
  resolution behind \<open>exists\<close>, \<open>metadata\<close>, \<open>canonicalize\<close>, \<open>read_dir\<close>,
  \<open>remove_file\<close> and \<open>read_to_string\<close>. A location is the list of names from the root;
  a \<open>rights\<close> field says what the operating system lets the server process do there.
\<close>

section \<open>Paths\<close>

datatype component = RootDir | CurDir | ParentDir | Normal string

definition is_absolute :: "string \<Rightarrow> bool" where
  "is_absolute p = (case p of [] \<Rightarrow> False | c # _ \<Rightarrow> c = CHR ''/'')"

definition path_join :: "string \<Rightarrow> string \<Rightarrow> string" where
  "path_join base p =
     (if is_absolute p then p
      else if base = [] \<or> last base = CHR ''/'' then base @ p
      else base @ ''/'' @ p)"

definition segment_components :: "string \<Rightarrow> component list" where
  "segment_components s =
     (if s = '''' \<or> s = ''.'' then [] else if s = ''..'' then [ParentDir] else [Normal s])"

text \<open>
  \<open>Path::components\<close>: repeated and trailing separators and inner \<open>.\<close> segments vanish; a
  leading \<open>.\<close> of a relative path stays.
\<close>

definition path_components :: "string \<Rightarrow> component list" where
  "path_components p =
     (if is_absolute p then [RootDir]
      else if hd (split_on CHR ''/'' p) = ''.'' then [CurDir] else []) @
     concat (map segment_components (split_on CHR ''/'' p))"

definition strip_prefix :: "string \<Rightarrow> string \<Rightarrow> component list option" where
  "strip_prefix p base =
     (if prefix (path_components base) (path_components p)
      then Some (drop (length (path_components base)) (path_components p)) else None)"

section \<open>The tree\<close>

datatype node = File "u8 list" | Dir | Symlink string | Special

datatype fs_right = Search | ReadDir | ReadFile | Unlink

type_synonym location = "string list"

record fs =
  entries :: "(location \<times> node) list"
  cwd :: location
  rights :: "fs_right \<Rightarrow> location \<Rightarrow> bool"

definition node_at :: "fs \<Rightarrow> location \<Rightarrow> node option" where
  "node_at t loc = (if loc = [] then Some Dir else map_of (entries t) loc)"

text \<open>The kernel gives up after this many links (\<open>ELOOP\<close>).\<close>

definition max_symlinks :: nat where
  "max_symlinks = 40"

function walk :: "fs \<Rightarrow> nat \<Rightarrow> location \<Rightarrow> string list \<Rightarrow> location option" where
  "walk t links cur [] = Some cur"
| "walk t links cur (s # rest) =
     (if node_at t cur \<noteq> Some Dir \<or> \<not> rights t Search cur then None
      else if s = '''' \<or> s = ''.'' then walk t links cur rest
      else if s = ''..'' then walk t links (butlast cur) rest
      else case node_at t (cur @ [s]) of
             None \<Rightarrow> None
           | Some (Symlink target) \<Rightarrow>
               if links = 0 then None
               else walk t (links - 1) (if is_absolute target then [] else cur)
                      (split_on CHR ''/'' target @ rest)
           | Some _ \<Rightarrow> walk t links (cur @ [s]) rest)"
  by pat_completeness auto
termination
  by (relation "measures [\<lambda>(t, links, cur, segs). links, \<lambda>(t, links, cur, segs). length segs]") auto

declare walk.simps(2) [simp del]

definition resolve :: "fs \<Rightarrow> string \<Rightarrow> location option" where
  "resolve t p =
     (if p = [] \<or> CHR 0x00 \<in> set p then None
      else walk t max_symlinks (if is_absolute p then [] else cwd t) (split_on CHR ''/'' p))"

definition fs_metadata :: "fs \<Rightarrow> string \<Rightarrow> node option" where
  "fs_metadata t p = Option.bind (resolve t p) (node_at t)"

definition fs_exists :: "fs \<Rightarrow> string \<Rightarrow> bool" where
  "fs_exists t p \<longleftrightarrow> fs_metadata t p \<noteq> None"

definition is_file_node :: "node \<Rightarrow> bool" where
  "is_file_node nd = (case nd of File _ \<Rightarrow> True | _ \<Rightarrow> False)"

definition fs_is_file :: "fs \<Rightarrow> string \<Rightarrow> bool" where
  "fs_is_file t p = (case fs_metadata t p of None \<Rightarrow> False | Some nd \<Rightarrow> is_file_node nd)"

definition path_of_location :: "location \<Rightarrow> string" where
  "path_of_location loc =
     (if loc = [] then ''/'' else concat (map (\<lambda>s. CHR ''/'' # s) loc))"

definition canonicalize_path :: "fs \<Rightarrow> string \<Rightarrow> string option" where
  "canonicalize_path t p =
     (if fs_exists t p then map_option path_of_location (resolve t p) else None)"

text \<open>\<open>std::fs::read_dir\<close>: the names in a directory, in the order the system gives them.\<close>

definition read_dir :: "fs \<Rightarrow> string \<Rightarrow> string list option" where
  "read_dir t p =
     (case resolve t p of
        None \<Rightarrow> None
      | Some d \<Rightarrow>
          if node_at t d = Some Dir \<and> rights t ReadDir d
          then Some (map (last \<circ> fst) (filter (\<lambda>(loc, _). loc \<noteq> [] \<and> butlast loc = d) (entries t)))
          else None)"

text \<open>
  \<open>std::fs::remove_file\<close> (\<open>unlink\<close>): the parent is resolved, the last name is not followed,
  a directory or a name that is no proper entry name is refused.
\<close>

definition proper_name :: "string \<Rightarrow> bool" where
  "proper_name s \<longleftrightarrow> s \<noteq> '''' \<and> s \<noteq> ''.'' \<and> s \<noteq> ''..'' \<and> CHR ''/'' \<notin> set s \<and> CHR 0x00 \<notin> set s"

definition unlink_location :: "fs \<Rightarrow> string \<Rightarrow> location option" where
  "unlink_location t p =
     (if p = [] \<or> CHR 0x00 \<in> set p \<or> \<not> proper_name (last (split_on CHR ''/'' p)) then None
      else
        (case walk t max_symlinks (if is_absolute p then [] else cwd t)
                (butlast (split_on CHR ''/'' p)) of
           None \<Rightarrow> None
         | Some d \<Rightarrow>
             let loc = d @ [last (split_on CHR ''/'' p)] in
             if node_at t d = Some Dir \<and> rights t Search d \<and> rights t Unlink d \<and>
                node_at t loc \<noteq> None \<and> node_at t loc \<noteq> Some Dir
             then Some loc else None))"

definition remove_file :: "fs \<Rightarrow> string \<Rightarrow> fs option" where
  "remove_file t p =
     map_option (\<lambda>loc. t\<lparr>entries := AList.delete loc (entries t)\<rparr>) (unlink_location t p)"

text \<open>\<open>std::fs::read_to_string\<close>\<close>

definition read_to_string :: "fs \<Rightarrow> string \<Rightarrow> string option" where
  "read_to_string t p =
     (case resolve t p of
        None \<Rightarrow> None
      | Some loc \<Rightarrow>
          (case node_at t loc of
             Some (File bs) \<Rightarrow> if rights t ReadFile loc then from_utf8 bs else None
           | _ \<Rightarrow> None))"

text \<open>
  Where \<open>open\<close> with \<open>O_CREAT\<close> puts a file that does not exist yet: links are followed, the
  last one included, and only the final name may be missing.
\<close>

function create_walk :: "fs \<Rightarrow> nat \<Rightarrow> location \<Rightarrow> string list \<Rightarrow> location option" where
  "create_walk t links cur [] = Some cur"
| "create_walk t links cur (s # rest) =
     (if node_at t cur \<noteq> Some Dir \<or> \<not> rights t Search cur then None
      else if s = '''' \<or> s = ''.'' then create_walk t links cur rest
      else if s = ''..'' then create_walk t links (butlast cur) rest
      else case node_at t (cur @ [s]) of
             None \<Rightarrow> if rest = [] then Some (cur @ [s]) else None
           | Some (Symlink target) \<Rightarrow>
               if links = 0 then None
               else create_walk t (links - 1) (if is_absolute target then [] else cur)
                      (split_on CHR ''/'' target @ rest)
           | Some _ \<Rightarrow> create_walk t links (cur @ [s]) rest)"
  by pat_completeness auto
termination
  by (relation "measures [\<lambda>(t, links, cur, segs). links, \<lambda>(t, links, cur, segs). length segs]") auto

declare create_walk.simps(2) [simp del]

definition open_location :: "fs \<Rightarrow> string \<Rightarrow> location option" where
  "open_location t p =
     (if p = [] \<or> CHR 0x00 \<in> set p then None
      else create_walk t max_symlinks (if is_absolute p then [] else cwd t) (split_on CHR ''/'' p))"

section \<open>Lexical lemmas\<close>

lemma segment_components_proper [simp]:
  "proper_name s \<Longrightarrow> segment_components s = [Normal s]"
  by (auto simp: proper_name_def segment_components_def)

lemma split_on_slashed:
  "\<forall>s \<in> set loc. proper_name s \<Longrightarrow>
     split_on CHR ''/'' (concat (map (\<lambda>s. CHR ''/'' # s) loc)) = '''' # loc"
proof (induction loc)
  case (Cons s loc)
  then have "CHR ''/'' \<notin> set s" by (simp add: proper_name_def)
  with Cons show ?case by (simp add: split_on_prepend)
qed simp

lemma split_on_path_of_location:
  "\<forall>s \<in> set loc. proper_name s \<Longrightarrow> loc \<noteq> [] \<Longrightarrow>
     split_on CHR ''/'' (path_of_location loc) = '''' # loc"
  by (simp add: path_of_location_def split_on_slashed)

lemma path_components_location:
  assumes "\<forall>s \<in> set loc. proper_name s"
  shows "path_components (path_of_location loc) = RootDir # map Normal loc"
proof (cases "loc = []")
  case True
  then show ?thesis
    by (simp add: path_of_location_def path_components_def is_absolute_def segment_components_def)
next
  case False
  have "is_absolute (path_of_location loc)"
    using False by (cases loc) (auto simp: path_of_location_def is_absolute_def)
  moreover have "concat (map segment_components loc) = map Normal loc"
    using assms by (induction loc) auto
  ultimately show ?thesis
    using split_on_path_of_location [OF assms False]
    by (simp add: path_components_def) (simp add: segment_components_def)
qed

lemma strip_prefix_location:
  assumes "\<forall>s \<in> set a. proper_name s" "\<forall>s \<in> set b. proper_name s"
  shows "strip_prefix (path_of_location a) (path_of_location b) =
    (if prefix b a then Some (map Normal (drop (length b) a)) else None)"
proof -
  have "prefix (map Normal b) (map Normal a) \<longleftrightarrow> prefix b a"
    by (auto simp: prefix_def map_eq_append_conv inj_map_eq_map inj_on_def inj_def)
  with assms show ?thesis by (simp add: strip_prefix_def path_components_location drop_map)
qed

section \<open>Well-formed trees\<close>

text \<open>
  Every tree the operating system presents: distinct locations with proper names, each inside
  a directory.
\<close>

definition fs_ok :: "fs \<Rightarrow> bool" where
  "fs_ok t \<longleftrightarrow> distinct (map fst (entries t)) \<and>
     (\<forall>(loc, nd) \<in> set (entries t).
        loc \<noteq> [] \<and> (\<forall>s \<in> set loc. proper_name s) \<and> node_at t (butlast loc) = Some Dir) \<and>
     node_at t (cwd t) = Some Dir"

lemma node_at_root [simp]: "node_at t [] = Some Dir"
  by (simp add: node_at_def)

lemma node_at_cwd: "fs_ok t \<Longrightarrow> node_at t (cwd t) = Some Dir"
  by (simp add: fs_ok_def)

lemma fs_ok_entry:
  "fs_ok t \<Longrightarrow> (loc, nd) \<in> set (entries t) \<Longrightarrow>
     loc \<noteq> [] \<and> (\<forall>s \<in> set loc. proper_name s) \<and> node_at t (butlast loc) = Some Dir"
  by (auto simp: fs_ok_def)

lemma node_at_entry: "loc \<noteq> [] \<Longrightarrow> node_at t loc = Some nd \<Longrightarrow> (loc, nd) \<in> set (entries t)"
  by (simp add: node_at_def map_of_SomeD)

lemma entry_node_at: "fs_ok t \<Longrightarrow> (loc, nd) \<in> set (entries t) \<Longrightarrow> node_at t loc = Some nd"
  using fs_ok_entry [of t loc nd] by (simp add: fs_ok_def node_at_def)

lemma node_at_parent:
  "fs_ok t \<Longrightarrow> node_at t loc \<noteq> None \<Longrightarrow> node_at t (butlast loc) = Some Dir"
  by (cases "loc = []") (auto dest: node_at_entry fs_ok_entry)

lemma node_at_proper:
  "fs_ok t \<Longrightarrow> node_at t loc \<noteq> None \<Longrightarrow> \<forall>s \<in> set loc. proper_name s"
  by (cases "loc = []") (auto dest: node_at_entry fs_ok_entry)

text \<open>Resolution ends at something that exists.\<close>

lemma walk_node_at:
  "fs_ok t \<Longrightarrow> node_at t cur \<noteq> None \<Longrightarrow> walk t links cur segs = Some loc \<Longrightarrow> node_at t loc \<noteq> None"
proof (induction t links cur segs rule: walk.induct)
  case (2 t links cur s rest)
  note unfold = walk.simps(2) [of t links cur s rest]
  from "2.prems" have dir: "node_at t cur = Some Dir" "rights t Search cur"
    by (auto simp: unfold split: if_splits)
  consider "s = '''' \<or> s = ''.''" | "s = ''..''"
    | "s \<noteq> ''''" "s \<noteq> ''.''" "s \<noteq> ''..''" by blast
  then show ?case
  proof cases
    case 1
    with "2.prems" "2.IH"(1) dir unfold show ?thesis by auto
  next
    case 2
    moreover have "node_at t (butlast cur) \<noteq> None"
      using node_at_parent [OF "2.prems"(1,2)] by simp
    moreover from 2 have "walk t links (butlast cur) rest = Some loc"
      using "2.prems" dir unfold by simp
    ultimately show ?thesis
      using "2.prems" dir "2.IH"(2) by simp
  next
    case 3
    then obtain nd where nd: "node_at t (cur @ [s]) = Some nd"
      using "2.prems" dir by (auto simp: unfold split: option.splits)
    show ?thesis
      using 3 nd dir "2.prems" "2.IH"(3-6) [OF _ _ _ nd]
      by (cases nd) (auto simp: unfold split: if_splits)
  qed
qed simp

lemma resolve_node_at: "fs_ok t \<Longrightarrow> resolve t p = Some loc \<Longrightarrow> node_at t loc \<noteq> None"
proof -
  assume ok: "fs_ok t" and r: "resolve t p = Some loc"
  let ?start = "if is_absolute p then [] else cwd t"
  have "walk t max_symlinks ?start (split_on CHR ''/'' p) = Some loc"
    using r by (simp add: resolve_def split: if_splits)
  moreover have "node_at t ?start \<noteq> None" using ok by (simp add: node_at_cwd)
  ultimately show ?thesis using walk_node_at [OF ok] by blast
qed

lemma fs_exists_iff: "fs_ok t \<Longrightarrow> fs_exists t p \<longleftrightarrow> resolve t p \<noteq> None"
  using resolve_node_at [of t p]
  by (cases "resolve t p") (auto simp: fs_exists_def fs_metadata_def)

lemma canonicalize_path_eq:
  "fs_ok t \<Longrightarrow> canonicalize_path t p = map_option path_of_location (resolve t p)"
  by (cases "resolve t p") (auto simp: canonicalize_path_def fs_exists_iff)

section \<open>Composing walks\<close>

text \<open>A walk over a concatenation goes through the end of the first part.\<close>

lemma walk_append:
  "walk t links cur xs = Some d \<Longrightarrow>
     \<exists>links'. \<forall>ys. walk t links cur (xs @ ys) = walk t links' d ys \<and>
       create_walk t links cur (xs @ ys) = create_walk t links' d ys"
proof (induction t links cur xs rule: walk.induct)
  case (1 t links cur)
  then show ?case by auto
next
  case (2 t links cur s rest)
  note unfold = walk.simps(2) [of t links cur s rest]
    walk.simps(2) [of t links cur s "rest @ ys" for ys]
    create_walk.simps(2) [of t links cur s "rest @ ys" for ys]
  from "2.prems" have dir: "\<not> (node_at t cur \<noteq> Some Dir \<or> \<not> rights t Search cur)"
    by (auto simp: unfold split: if_splits)
  consider "s = '''' \<or> s = ''.''" | "s = ''..''" | "s \<notin> {'''', ''.'', ''..''}" by blast
  then show ?case
  proof cases
    case 1
    moreover from this have "walk t links cur rest = Some d"
      using "2.prems" dir by (simp add: unfold)
    ultimately show ?thesis using "2.IH"(1) [OF dir] dir by (simp add: unfold)
  next
    case 2
    then have "walk t links (butlast cur) rest = Some d"
      using "2.prems" dir unfold(1) by simp
    from 2 "2.IH"(2) [OF dir _ 2 this] show ?thesis using dir unfold by simp
  next
    case 3
    then obtain nd where nd: "node_at t (cur @ [s]) = Some nd"
      using "2.prems" dir by (auto simp: unfold split: option.splits)
    show ?thesis
      using 3 nd dir "2.prems" "2.IH"(3-6) [OF dir _ _ nd]
      by (cases nd) (auto simp: unfold split: if_splits)
  qed
qed

lemma walk_append_None: "walk t links cur xs = None \<Longrightarrow> walk t links cur (xs @ ys) = None"
proof (induction t links cur xs rule: walk.induct)
  case (2 t links cur s rest)
  note unfold = walk.simps(2) [of t links cur s rest] walk.simps(2) [of t links cur s "rest @ ys"]
  show ?case
  proof (cases "node_at t cur \<noteq> Some Dir \<or> \<not> rights t Search cur")
    case True
    then show ?thesis by (simp add: unfold)
  next
    case dir: False
    consider "s = '''' \<or> s = ''.''" | "s = ''..''" | "s \<notin> {'''', ''.'', ''..''}" by blast
    then show ?thesis
    proof cases
      case 1
      moreover from this have "walk t links cur rest = None"
        using "2.prems" dir by (simp add: unfold)
      ultimately show ?thesis using "2.IH"(1) [OF dir] dir by (simp add: unfold)
    next
      case 2
      then have "walk t links (butlast cur) rest = None"
        using "2.prems" dir unfold(1) by simp
      from 2 "2.IH"(2) [OF dir _ 2 this] show ?thesis using dir unfold by simp
    next
      case 3
      show ?thesis
        using 3 dir "2.prems" "2.IH"(3-6) [OF dir]
        by (auto simp: unfold split: option.splits node.splits)
    qed
  qed
qed simp

text \<open>The current directory segments at the end of a path change nothing.\<close>

lemma walk_dots:
  "walk t links d rest = Some loc \<Longrightarrow> set rest \<subseteq> {'''', ''.''} \<Longrightarrow> loc = d"
  by (induction rest) (auto simp: walk.simps(2) split: if_splits)

lemma create_walk_dots:
  "create_walk t links d rest = Some loc \<Longrightarrow> set rest \<subseteq> {'''', ''.''} \<Longrightarrow> loc = d"
  by (induction rest) (auto simp: create_walk.simps(2) split: if_splits)

lemma create_walk_walk: "walk t links cur xs = Some d \<Longrightarrow> create_walk t links cur xs = Some d"
  using walk_append [of t links cur xs d] by (metis append_Nil2 create_walk.simps(1))

text \<open>
  The segments of \<open>folder/name\<close>, and what it means for resolution: it continues from the
  folder.
\<close>

lemma split_on_path_join:
  assumes "folder \<noteq> []" "\<not> is_absolute name"
  obtains pre where "split_on CHR ''/'' (path_join folder name) = pre @ split_on CHR ''/'' name"
    "split_on CHR ''/'' folder = pre \<or> split_on CHR ''/'' folder = pre @ ['''']" "pre \<noteq> []"
proof (cases "last folder = CHR ''/''")
  case True
  then obtain f where f: "folder = f @ [CHR ''/'']"
    using assms(1) by (metis append_butlast_last_id)
  have "path_join folder name = f @ CHR ''/'' # name"
    using assms True f by (simp add: path_join_def)
  moreover have "split_on CHR ''/'' folder = split_on CHR ''/'' f @ ['''']"
    using split_on_app_sep [of "CHR ''/''" f "[]"] f by simp
  ultimately show thesis using that [of "split_on CHR ''/'' f"] by (simp add: split_on_app_sep)
next
  case False
  then have "path_join folder name = folder @ CHR ''/'' # name"
    using assms by (simp add: path_join_def)
  then show thesis using that [of "split_on CHR ''/'' folder"] by (simp add: split_on_app_sep)
qed

lemma is_absolute_path_join:
  "folder \<noteq> [] \<Longrightarrow> \<not> is_absolute name \<Longrightarrow> is_absolute (path_join folder name) = is_absolute folder"
  by (cases folder) (auto simp: path_join_def is_absolute_def)

lemma walk_from_folder:
  assumes r: "resolve t folder = Some base" and name: "\<not> is_absolute name"
  obtains links pre where
    "split_on CHR ''/'' (path_join folder name) = pre @ split_on CHR ''/'' name"
    "walk t max_symlinks (if is_absolute folder then [] else cwd t) pre = Some base"
    "\<And>ys. walk t max_symlinks (if is_absolute folder then [] else cwd t) (pre @ ys) =
       walk t links base ys"
    "\<And>ys. create_walk t max_symlinks (if is_absolute folder then [] else cwd t) (pre @ ys) =
       create_walk t links base ys"
proof -
  let ?start = "if is_absolute folder then [] else cwd t"
  have folder: "folder \<noteq> []" using r by (auto simp: resolve_def)
  have w: "walk t max_symlinks ?start (split_on CHR ''/'' folder) = Some base"
    using r by (simp add: resolve_def split: if_splits)
  obtain pre where pre:
    "split_on CHR ''/'' (path_join folder name) = pre @ split_on CHR ''/'' name"
    "split_on CHR ''/'' folder = pre \<or> split_on CHR ''/'' folder = pre @ ['''']"
    by (rule split_on_path_join [OF folder name])
  have "walk t max_symlinks ?start pre = Some base"
  proof (cases "split_on CHR ''/'' folder = pre")
    case True
    with w show ?thesis by simp
  next
    case False
    with pre(2) w have w2: "walk t max_symlinks ?start (pre @ ['''']) = Some base" by simp
    then obtain d where d: "walk t max_symlinks ?start pre = Some d"
      using walk_append_None by (metis not_Some_eq)
    then obtain l where "walk t max_symlinks ?start (pre @ ['''']) = walk t l d ['''']"
      using walk_append by blast
    then have "walk t l d [''''] = Some base" using w2 by simp
    from walk_dots [OF this] have "d = base" by simp
    with d show ?thesis by simp
  qed
  moreover from this obtain links where
    "\<forall>ys. walk t max_symlinks ?start (pre @ ys) = walk t links base ys \<and>
      create_walk t max_symlinks ?start (pre @ ys) = create_walk t links base ys"
    using walk_append by blast
  ultimately show thesis using that pre(1) by blast
qed

lemma resolve_trailing_separator:
  assumes "p \<noteq> []" "resolve t (p @ ''/'') = Some loc"
  shows "resolve t p = Some loc"
proof -
  let ?start = "if is_absolute p then [] else cwd t"
  have abs: "is_absolute (p @ ''/'') = is_absolute p"
    using assms(1) by (cases p) (auto simp: is_absolute_def)
  have "split_on CHR ''/'' (p @ ''/'') = split_on CHR ''/'' p @ ['''']"
    using split_on_app_sep [of "CHR ''/''" p "[]"] by simp
  then have w: "walk t max_symlinks ?start (split_on CHR ''/'' p @ ['''']) = Some loc"
    using assms(2) unfolding resolve_def abs by (simp split: if_splits)
  then obtain d where d: "walk t max_symlinks ?start (split_on CHR ''/'' p) = Some d"
    using walk_append_None by (metis not_Some_eq)
  then obtain l where
    "walk t max_symlinks ?start (split_on CHR ''/'' p @ ['''']) = walk t l d ['''']"
    using walk_append by blast
  with w have "walk t l d [''''] = Some loc" by simp
  from walk_dots [OF this] have "loc = d" by simp
  then show ?thesis using d assms unfolding resolve_def by (simp split: if_splits)
qed

section \<open>Removal\<close>

lemma node_at_remove_file:
  assumes "remove_file t p = Some t'" "unlink_location t p = Some loc"
  shows "node_at t' l = (if l = loc then None else node_at t l)"
proof -
  have "loc \<noteq> []" using assms(2) by (auto simp: unlink_location_def Let_def split: if_splits option.splits)
  with assms show ?thesis by (auto simp: remove_file_def node_at_def delete_conv')
qed

lemma fs_ok_remove_file:
  assumes "remove_file t p = Some t'" "fs_ok t"
  shows "fs_ok t'"
proof -
  obtain loc where u: "unlink_location t p = Some loc" and
    t': "t' = t\<lparr>entries := AList.delete loc (entries t)\<rparr>"
    using assms(1) by (auto simp: remove_file_def)
  have "node_at t loc \<noteq> Some Dir"
    using u by (auto simp: unlink_location_def Let_def split: if_splits option.splits)
  then have dir: "node_at t' l = Some Dir" if "node_at t l = Some Dir" for l
    using that node_at_remove_file [OF assms(1) u] by auto
  have "set (entries t') \<subseteq> set (entries t)"
    by (auto simp: t' AList.delete_eq)
  then have "\<forall>(l, nd) \<in> set (entries t'). l \<noteq> [] \<and> (\<forall>s \<in> set l. proper_name s) \<and>
      node_at t' (butlast l) = Some Dir"
    using fs_ok_entry [OF assms(2)] dir by blast
  moreover have "distinct (map fst (entries t'))" "node_at t' (cwd t) = Some Dir"
    using assms(2) dir by (simp_all add: t' fs_ok_def distinct_delete)
  ultimately show ?thesis by (simp add: fs_ok_def t')
qed

end
