(* ===== verification/Config.thy ===== *)
theory Config
  imports Json Filesystem Cidr
begin

text \<open>
  The configuration (\<open>src/src/config.rs\<close>): the \<open>Config\<close> struct with its whitelist test, the
  two whitelist syntaxes, the config file and the command line, endpoint and folder
  resolution. The operating system and \<open>serde_json\<close> enter as the fields of \<open>environment\<close>;
  the command line arrives as the \<open>Args\<close> struct that \<open>clap\<close> fills.
\<close>

section \<open>The configuration\<close>

record config =
  listen_addr :: socket_addr
  workers :: usize
  databases_folder :: string
  client_max_packet_size :: u32
  busy_timeout_ms :: u64
  auth :: string
  ip_whitelist :: "cidr list"

definition DEFAULT_BUSY_TIMEOUT_MS :: u64 where
  "DEFAULT_BUSY_TIMEOUT_MS = 5000"

fun any_contains :: "cidr list \<Rightarrow> ip_addr \<Rightarrow> bool run" where
  "any_contains [] ip = Returns False"
| "any_contains (net # nets) ip =
     run_bind (cidr_contains net ip) (\<lambda>b. if b then Returns True else any_contains nets ip)"

definition is_ip_allowed :: "config \<Rightarrow> ip_addr \<Rightarrow> bool run" where
  "is_ip_allowed c ip =
     (if ip_whitelist c = [] then Returns True else any_contains (ip_whitelist c) ip)"

definition ip_whitelist_repr :: "config \<Rightarrow> string" where
  "ip_whitelist_repr c =
     (if ip_whitelist c = [] then ''(any)''
      else join_with '', '' (map cidr_to_string (ip_whitelist c)))"

section \<open>Whitelist syntax\<close>

definition parse_whitelist_csv :: "string \<Rightarrow> string + cidr list" where
  "parse_whitelist_csv s =
     collect_results (map cidr_parse (filter (\<lambda>e. e \<noteq> []) (map trim (split_on CHR '','' s))))"

definition parse_whitelist_json :: "json \<Rightarrow> string + cidr list" where
  "parse_whitelist_json json =
     (case value_get json ''ip_whitelist'' of
        None \<Rightarrow> Inr []
      | Some (Array items) \<Rightarrow>
          collect_results
            (map (\<lambda>item. res_bind
                    (ok_or ''Config key ip_whitelist must contain only strings'' (as_str item))
                    cidr_parse)
               items)
      | Some _ \<Rightarrow> Inl ''Config key ip_whitelist must be an array of CIDR strings'')"

section \<open>The environment\<close>

text \<open>
  The file tree; \<open>std::env::current_dir\<close>; the system resolver behind \<open>to_socket_addrs\<close>;
  \<open>available_parallelism\<close>; the text of an I/O error on a path; \<open>serde_json::from_str\<close>.
\<close>

record environment =
  env_files :: fs
  env_current_dir :: "string + string"
  env_lookup_host :: "string \<Rightarrow> u16 \<Rightarrow> string + socket_addr list"
  env_parallelism :: "usize option"
  env_io_error :: "string \<Rightarrow> string"
  env_from_str :: "string \<Rightarrow> string + json"

definition require_str :: "json \<Rightarrow> string \<Rightarrow> string + string" where
  "require_str json key =
     res_bind (ok_or (''Missing key: '' @ key @ '' in config'') (value_get json key))
       (\<lambda>v. ok_or (''Key '' @ key @ '' must be a string'') (as_str v))"

definition require_u64 :: "json \<Rightarrow> string \<Rightarrow> string + u64" where
  "require_u64 json key =
     res_bind (ok_or (''Missing key: '' @ key @ '' in config'') (value_get json key))
       (\<lambda>v. ok_or (''Key '' @ key @ '' must be a non-negative number'') (as_u64 v))"

text \<open>\<open>ToSocketAddrs\<close> for a host and a port: an address literal needs no resolver.\<close>

definition to_socket_addrs :: "environment \<Rightarrow> string \<Rightarrow> u16 \<Rightarrow> string + socket_addr list" where
  "to_socket_addrs env host port =
     (case parse_ipv4 host of
        Some a \<Rightarrow> Inr [SocketAddr (V4 a) port]
      | None \<Rightarrow>
          (case parse_ipv6 host of
             Some a \<Rightarrow> Inr [SocketAddr (V6 a) port]
           | None \<Rightarrow> env_lookup_host env host port))"

definition fallback_endpoint :: socket_addr where
  "fallback_endpoint = SocketAddr (V4 (of_be_octets [127, 0, 0, 1])) 3333"

definition resolve_endpoint :: "environment \<Rightarrow> string \<Rightarrow> u16 \<Rightarrow> socket_addr" where
  "resolve_endpoint env ip port =
     (case to_socket_addrs env ip port of
        Inr addrs \<Rightarrow>
          (case find (\<lambda>a. is_ipv4 (sock_ip a)) addrs of
             Some a \<Rightarrow> a
           | None \<Rightarrow> (case addrs of [] \<Rightarrow> fallback_endpoint | a # _ \<Rightarrow> a))
      | Inl _ \<Rightarrow> fallback_endpoint)"

text \<open>\<open>Path::display\<close>\<close>

definition path_display :: "string \<Rightarrow> string" where
  "path_display p = from_utf8_lossy (bytes_of_str p)"

definition resolve_database_path :: "environment \<Rightarrow> string \<Rightarrow> string + string" where
  "resolve_database_path env path =
     res_bind
       (if is_absolute path then Inr path
        else
          map_err (\<lambda>e. ''Cannot resolve current directory: '' @ e)
            (case env_current_dir env of Inl e \<Rightarrow> Inl e | Inr d \<Rightarrow> Inr (path_join d path)))
       (\<lambda>absolute.
          if \<not> fs_exists (env_files env) absolute
          then Inl (''Databases folder does not exist in: '' @ path_display absolute)
          else Inr absolute)"

definition default_workers :: "environment \<Rightarrow> usize" where
  "default_workers env = (case env_parallelism env of Some n \<Rightarrow> n | None \<Rightarrow> 1)"

section \<open>The config file\<close>

definition optional_busy_timeout :: "json \<Rightarrow> string + u64" where
  "optional_busy_timeout json =
     (case value_get json ''busy_timeout_ms'' of
        Some v \<Rightarrow> ok_or ''Key busy_timeout_ms must be a non-negative number'' (as_u64 v)
      | None \<Rightarrow> Inr DEFAULT_BUSY_TIMEOUT_MS)"

definition optional_auth :: "json \<Rightarrow> string + string" where
  "optional_auth json =
     (case value_get json ''auth'' of
        Some v \<Rightarrow> ok_or ''Key auth must be a string'' (as_str v)
      | None \<Rightarrow> Inr '''')"

definition config_of_json :: "environment \<Rightarrow> json \<Rightarrow> string + config" where
  "config_of_json env json =
     res_bind (require_str json ''listen_ip'') (\<lambda>listen_ip.
     res_bind (require_u64 json ''listen_port'') (\<lambda>listen_port.
     res_bind (optional_busy_timeout json) (\<lambda>busy.
     res_bind (optional_auth json) (\<lambda>au.
     res_bind (parse_whitelist_json json) (\<lambda>whitelist.
     res_bind (require_u64 json ''workers'') (\<lambda>nworkers.
     res_bind (require_str json ''databases_folder'') (\<lambda>folder.
     res_bind (resolve_database_path env folder) (\<lambda>folder'.
     res_bind (require_u64 json ''client_max_packet_size'') (\<lambda>packet.
       Inr \<lparr>listen_addr = resolve_endpoint env listen_ip (ucast listen_port),
            workers = nworkers,
            databases_folder = folder',
            client_max_packet_size = ucast packet,
            busy_timeout_ms = busy,
            auth = au,
            ip_whitelist = whitelist\<rparr>)))))))))"

definition from_file :: "environment \<Rightarrow> string \<Rightarrow> string + config" where
  "from_file env path =
     (if \<not> fs_exists (env_files env) path
      then Inl (''Config file does not exist in: '' @ path)
      else
        res_bind (ok_or (''Config read error: '' @ env_io_error env path)
                    (read_to_string (env_files env) path)) (\<lambda>text.
        res_bind (map_err (\<lambda>e. ''Config parse error: '' @ e) (env_from_str env text)) (\<lambda>json.
          config_of_json env json)))"

section \<open>The command line\<close>

record args =
  arg_version :: bool
  arg_config :: "string option"
  arg_ip :: string
  arg_port :: u16
  arg_auth :: string
  arg_ip_whitelist :: string
  arg_databases_folder :: string
  arg_workers :: "usize option"
  arg_client_max_packet_size :: u32
  arg_busy_timeout_ms :: u64

definition default_args :: args where
  "default_args =
     \<lparr>arg_version = False, arg_config = None, arg_ip = ''localhost'', arg_port = 3333,
      arg_auth = '''', arg_ip_whitelist = '''', arg_databases_folder = ''sqlite'',
      arg_workers = None, arg_client_max_packet_size = 16 * 1024 * 1024,
      arg_busy_timeout_ms = DEFAULT_BUSY_TIMEOUT_MS\<rparr>"

text \<open>\<open>parse\<close>: \<open>None\<close> when only the version was printed.\<close>

definition parse_config :: "environment \<Rightarrow> args \<Rightarrow> string + config option" where
  "parse_config env a =
     (if arg_version a then Inr None
      else
        res_bind
          (case arg_config a of
             Some path \<Rightarrow> from_file env path
           | None \<Rightarrow>
               res_bind (resolve_database_path env (arg_databases_folder a)) (\<lambda>folder.
               res_bind (parse_whitelist_csv (arg_ip_whitelist a)) (\<lambda>whitelist.
                 Inr \<lparr>listen_addr = resolve_endpoint env (arg_ip a) (arg_port a),
                      workers = (case arg_workers a of Some n \<Rightarrow> n | None \<Rightarrow> default_workers env),
                      databases_folder = folder,
                      client_max_packet_size = arg_client_max_packet_size a,
                      busy_timeout_ms = arg_busy_timeout_ms a,
                      auth = arg_auth a,
                      ip_whitelist = whitelist\<rparr>)))
          (\<lambda>c. Inr (Some c)))"

section \<open>Lemmas\<close>

lemma collect_cidrs_ok:
  "collect_results (map f es) = Inr nets \<Longrightarrow> (\<And>e c. f e = Inr c \<Longrightarrow> cidr_ok c) \<Longrightarrow>
     \<forall>n \<in> set nets. cidr_ok n"
  by (meson collect_results_set)

lemma parse_whitelist_csv_ok [wf_intros]:
  "parse_whitelist_csv s = Inr nets \<Longrightarrow> \<forall>n \<in> set nets. cidr_ok n"
  unfolding parse_whitelist_csv_def by (erule collect_cidrs_ok) (rule cidr_parse_ok)

lemma parse_whitelist_json_ok [wf_intros]:
  "parse_whitelist_json json = Inr nets \<Longrightarrow> \<forall>n \<in> set nets. cidr_ok n"
  unfolding parse_whitelist_json_def
  by (fastforce split: option.splits json.splits simp: res_bind_Inr_iff
      dest: collect_results_set intro: cidr_parse_ok)

lemma any_contains_in_network:
  "\<forall>n \<in> set nets. cidr_ok n \<Longrightarrow>
     any_contains nets ip =
       Returns (\<exists>n \<in> set nets. in_network (network n) (unat (prefix_len n)) ip)"
  by (induction nets) (auto simp: cidr_ok_def cidr_contains_in_network)

lemma is_absolute_join: "is_absolute base \<Longrightarrow> is_absolute (path_join base p)"
  by (cases base) (auto simp: path_join_def is_absolute_def)

lemma require_str_Inr: "require_str json key = Inr s \<longleftrightarrow> get_str json key = Some s"
  by (cases "value_get json key")
    (auto simp: require_str_def get_str_def ok_or_Inr_iff)

lemma require_u64_Inr:
  "require_u64 json key = Inr n \<longleftrightarrow> Option.bind (value_get json key) as_u64 = Some n"
  by (cases "value_get json key") (auto simp: require_u64_def ok_or_Inr_iff)

text \<open>\<open>std::env::current_dir\<close> returns an absolute path.\<close>

definition env_ok :: "environment \<Rightarrow> bool" where
  "env_ok env \<longleftrightarrow> (\<forall>d. env_current_dir env = Inr d \<longrightarrow> is_absolute d)"

text \<open>What every component may assume of a loaded configuration.\<close>

definition config_ok :: "environment \<Rightarrow> config \<Rightarrow> bool" where
  "config_ok env c \<longleftrightarrow>
     (\<forall>n \<in> set (ip_whitelist c). cidr_ok n) \<and>
     is_absolute (databases_folder c) \<and>
     fs_exists (env_files env) (databases_folder c)"

lemma resolve_database_path_ok:
  "resolve_database_path env p = Inr f \<Longrightarrow> env_ok env \<Longrightarrow>
     is_absolute f \<and> fs_exists (env_files env) f"
  by (auto simp: resolve_database_path_def env_ok_def res_bind_Inr_iff map_err_Inr_iff
      is_absolute_join split: if_splits sum.splits)

lemma config_of_json_Inr:
  "config_of_json env json = Inr c \<longleftrightarrow>
     (\<exists>ip port folder packet.
        get_str json ''listen_ip'' = Some ip \<and>
        Option.bind (value_get json ''listen_port'') as_u64 = Some port \<and>
        listen_addr c = resolve_endpoint env ip (ucast port) \<and>
        optional_busy_timeout json = Inr (busy_timeout_ms c) \<and>
        optional_auth json = Inr (auth c) \<and>
        parse_whitelist_json json = Inr (ip_whitelist c) \<and>
        Option.bind (value_get json ''workers'') as_u64 = Some (workers c) \<and>
        get_str json ''databases_folder'' = Some folder \<and>
        resolve_database_path env folder = Inr (databases_folder c) \<and>
        Option.bind (value_get json ''client_max_packet_size'') as_u64 = Some packet \<and>
        client_max_packet_size c = ucast packet)"
  unfolding config_of_json_def res_bind_Inr_iff require_str_Inr require_u64_Inr
  by (cases c) auto

lemma from_file_Inr:
  "from_file env path = Inr c \<longleftrightarrow>
     (\<exists>text json. fs_exists (env_files env) path \<and>
        read_to_string (env_files env) path = Some text \<and>
        env_from_str env text = Inr json \<and> config_of_json env json = Inr c)"
  by (auto simp: from_file_def res_bind_Inr_iff map_err_Inr_iff ok_or_Inr_iff)

lemma from_file_ok [wf_intros]: "from_file env path = Inr c \<Longrightarrow> env_ok env \<Longrightarrow> config_ok env c"
  using resolve_database_path_ok parse_whitelist_json_ok
  by (auto simp: from_file_Inr config_of_json_Inr config_ok_def)

lemma parse_config_config_ok [wf_intros]:
  assumes "parse_config env a = Inr (Some c)" "env_ok env"
  shows "config_ok env c"
proof (cases "arg_config a")
  case None
  then obtain folder nets where
    "resolve_database_path env (arg_databases_folder a) = Inr folder"
    "parse_whitelist_csv (arg_ip_whitelist a) = Inr nets"
    "databases_folder c = folder" "ip_whitelist c = nets"
    using assms(1) by (auto simp: parse_config_def res_bind_Inr_iff split: if_splits)
  then show ?thesis
    using resolve_database_path_ok [OF _ assms(2)] parse_whitelist_csv_ok
    by (auto simp: config_ok_def)
next
  case (Some path)
  then have "from_file env path = Inr c"
    using assms(1) by (auto simp: parse_config_def res_bind_Inr_iff split: if_splits)
  then show ?thesis using assms(2) by (rule from_file_ok)
qed

lemma parse_whitelist_csv_join:
  assumes "\<forall>e \<in> set es. e \<noteq> [] \<and> CHR '','' \<notin> set e \<and> trim e = e"
  shows "parse_whitelist_csv (join_with '','' es) = collect_results (map cidr_parse es)"
proof (cases "es = []")
  case True
  have "trim [] = []"
    using strip_pieces_suffix [of _ "[]"] by (simp add: trim_def trim_start_def trim_end_def)
  with True show ?thesis by (simp add: parse_whitelist_csv_def)
next
  case False
  have "map trim es = es" using assms by (simp add: map_idI)
  moreover have "filter (\<lambda>e. e \<noteq> []) es = es" using assms by (simp add: filter_id_conv)
  ultimately show ?thesis
    using False assms split_on_join [of es "CHR '',''"] by (simp add: parse_whitelist_csv_def)
qed

section \<open>Properties\<close>

text \<open>C32: Whatever a configuration is loaded from, every whitelist entry is a canonical network
  and the databases folder is an absolute path that exists.\<close>

theorem parse_config_ok:
  assumes "env_ok env" "parse_config env a = Inr (Some c)"
  shows "config_ok env c"
  using parse_config_config_ok [OF assms(2,1)] .

text \<open>A small environment for the witnesses: a folder \<open>/data\<close>, seen from the root directory,
  and a config file.\<close>

definition demo_fs :: fs where
  "demo_fs =
     \<lparr>entries = [([''data''], Dir), ([''c.json''], File [0x7B, 0x7D])], cwd = [],
      rights = (\<lambda>_ _. True)\<rparr>"

definition demo_config_json :: json where
  "demo_config_json =
     json_object
       [(''listen_ip'', String ''127.0.0.1''), (''listen_port'', Number (PosInt 68869)),
        (''workers'', Number (PosInt 4)), (''databases_folder'', String ''/data''),
        (''client_max_packet_size'', Number (PosInt 1024)),
        (''ip_whitelist'', Array [String ''10.0.0.0/8''])]"

definition demo_env :: environment where
  "demo_env =
     \<lparr>env_files = demo_fs, env_current_dir = Inr ''/'',
      env_lookup_host = (\<lambda>_ _. Inl ''''), env_parallelism = Some 8,
      env_io_error = (\<lambda>_. ''''),
      env_from_str = (\<lambda>s. if s = ''{}'' then Inr demo_config_json else Inl ''bad'')\<rparr>"

definition demo_config :: config where
  "demo_config =
     \<lparr>listen_addr = SocketAddr (V4 0x7F000001) 3333, workers = 4, databases_folder = ''/data'',
      client_max_packet_size = 1024, busy_timeout_ms = 5000, auth = '''',
      ip_whitelist = [\<lparr>network = V4 0x0A000000, prefix_len = 8\<rparr>]\<rparr>"

lemma demo_env_ok: "env_ok demo_env"
  by (simp add: env_ok_def demo_env_def is_absolute_def)

lemma demo_from_file: "from_file demo_env ''c.json'' = Inr demo_config"
  by code_simp

theorem parse_config_ok_witness:
  "parse_config demo_env (default_args\<lparr>arg_config := Some ''c.json''\<rparr>) = Inr (Some demo_config) \<and>
   config_ok demo_env demo_config"
proof -
  have p: "parse_config demo_env (default_args\<lparr>arg_config := Some ''c.json''\<rparr>) =
      Inr (Some demo_config)"
    by (simp add: parse_config_def default_args_def demo_from_file)
  show ?thesis using p parse_config_ok [OF demo_env_ok p] by simp
qed

text \<open>C26: For a loaded configuration the accept-time test never panics; it lets a peer in
  exactly if the whitelist is empty, which admits everyone, or some entry's prefix bits match the peer's address.\<close>

theorem loaded_whitelist_decides:
  assumes "env_ok env" "parse_config env a = Inr (Some c)"
  shows "is_ip_allowed c ip =
    Returns (ip_whitelist c = [] \<or>
      (\<exists>n \<in> set (ip_whitelist c). in_network (network n) (unat (prefix_len n)) ip))"
  using parse_config_config_ok [OF assms(2,1)]
  by (simp add: is_ip_allowed_def any_contains_in_network config_ok_def)

theorem loaded_whitelist_decides_witness:
  "is_ip_allowed demo_config (V4 0x0A090909) = Returns True \<and>
   is_ip_allowed demo_config (V4 0xC0A80001) = Returns False"
proof -
  have p: "parse_config demo_env (default_args\<lparr>arg_config := Some ''c.json''\<rparr>) =
      Inr (Some demo_config)"
    by (simp add: parse_config_def default_args_def demo_from_file)
  note d = loaded_whitelist_decides [OF demo_env_ok p]
  show ?thesis
    using d [of "V4 0x0A090909"] d [of "V4 0xC0A80001"]
    by (simp add: demo_config_def in_network_def)
qed

text \<open>The two whitelist syntaxes mean the same: a comma-separated list and a JSON array of
  the same plain entries give the same networks, or the same error.\<close>

theorem whitelist_csv_json_agree:
  assumes "\<forall>e \<in> set es. e \<noteq> [] \<and> CHR '','' \<notin> set e \<and> trim e = e"
  shows "parse_whitelist_csv (join_with '','' es) =
    parse_whitelist_json (json_object [(''ip_whitelist'', Array (map String es))])"
  using parse_whitelist_csv_join [OF assms] by (simp add: parse_whitelist_json_def o_def)

theorem whitelist_csv_json_agree_witness:
  "parse_whitelist_csv ''127.0.0.1,nope/8'' =
   parse_whitelist_json (json_object [(''ip_whitelist'', Array [String ''127.0.0.1'', String ''nope/8''])])"
proof -
  have "trim ''127.0.0.1'' = ''127.0.0.1''" "trim ''nope/8'' = ''nope/8''" by code_simp+
  then have "\<forall>e \<in> set [''127.0.0.1'', ''nope/8'']. e \<noteq> [] \<and> CHR '','' \<notin> set e \<and> trim e = e" by simp
  from whitelist_csv_json_agree [OF this] show ?thesis by simp
qed

text \<open>C38: Every mandatory key of a config file is there when it loads, with the right type; the
  numeric ones are cut to the width of their field without a check, so the port and the packet
  limit of the running server are the written numbers modulo 2^16 and 2^32.\<close>

theorem from_file_fields:
  assumes "from_file env path = Inr c"
  shows "\<exists>contents json ip port folder packet.
    read_to_string (env_files env) path = Some contents \<and>
    env_from_str env contents = Inr json \<and>
    get_str json ''listen_ip'' = Some ip \<and>
    value_get json ''listen_port'' = Some (Number (PosInt port)) \<and>
    value_get json ''workers'' = Some (Number (PosInt (workers c))) \<and>
    get_str json ''databases_folder'' = Some folder \<and>
    value_get json ''client_max_packet_size'' = Some (Number (PosInt packet)) \<and>
    listen_addr c = resolve_endpoint env ip (word_of_nat (unat port mod 65536)) \<and>
    unat (client_max_packet_size c) = unat packet mod 4294967296"
proof -
  have u64: "as_u64 v = Some n \<longleftrightarrow> v = Number (PosInt n)" for v n
    by (cases v rule: as_u64.cases) auto
  have port: "(ucast p :: u16) = word_of_nat (unat p mod 65536)" for p :: u64
    by (rule word_unat_eq_iff [THEN iffD2])
      (simp add: unsigned_ucast_eq take_bit_eq_mod unat_of_nat)
  have packet: "unat (ucast p :: u32) = unat p mod 4294967296" for p :: u64
    by (simp add: unsigned_ucast_eq take_bit_eq_mod)
  from assms show ?thesis
    unfolding from_file_Inr config_of_json_Inr bind_eq_Some_conv u64
    by (auto simp: port packet)
qed

theorem from_file_fields_witness:
  "from_file demo_env ''c.json'' = Inr demo_config \<and>
   (\<exists>json port. env_from_str demo_env ''{}'' = Inr json \<and>
     value_get json ''listen_port'' = Some (Number (PosInt port)) \<and>
     unat port = 68869 \<and> sock_port (listen_addr demo_config) = 3333)"
proof -
  have read: "read_to_string (env_files demo_env) ''c.json'' = Some ''{}''" by code_simp
  have port: "value_get demo_config_json ''listen_port'' = Some (Number (PosInt 68869))" by code_simp
  from from_file_fields [OF demo_from_file] obtain json port where
    "env_from_str demo_env ''{}'' = Inr json"
    "value_get json ''listen_port'' = Some (Number (PosInt port))"
    unfolding read by auto
  moreover from this have "port = 68869" by (simp add: demo_env_def port)
  ultimately show ?thesis by (simp add: demo_from_file demo_config_def)
qed

text \<open>The listening endpoint is an address literal as written; otherwise it is one the
  resolver returned, an IPv4 one if there is any, and 127.0.0.1:3333 if there is none.\<close>

theorem resolve_endpoint_choice:
  "(\<forall>a. parse_ipv4 ip = Some a \<longrightarrow> resolve_endpoint env ip port = SocketAddr (V4 a) port) \<and>
   (parse_ipv4 ip = None \<longrightarrow> (\<forall>a. parse_ipv6 ip = Some a \<longrightarrow>
      resolve_endpoint env ip port = SocketAddr (V6 a) port)) \<and>
   (parse_ipv4 ip = None \<and> parse_ipv6 ip = None \<longrightarrow>
      (case env_lookup_host env ip port of
         Inl e \<Rightarrow> resolve_endpoint env ip port = fallback_endpoint
       | Inr addrs \<Rightarrow>
           (addrs = [] \<longrightarrow> resolve_endpoint env ip port = fallback_endpoint) \<and>
           (addrs \<noteq> [] \<longrightarrow> resolve_endpoint env ip port \<in> set addrs) \<and>
           ((\<exists>a \<in> set addrs. is_ipv4 (sock_ip a)) \<longrightarrow>
              is_ipv4 (sock_ip (resolve_endpoint env ip port)))))"
proof -
  have found: "find P xs = Some a \<Longrightarrow> a \<in> set xs \<and> P a" for P :: "socket_addr \<Rightarrow> bool" and xs a
    by (auto simp: find_Some_iff)
  show ?thesis
    by (auto simp: resolve_endpoint_def to_socket_addrs_def find_None_iff
        split: sum.splits option.splits list.splits dest!: found)
qed

theorem resolve_endpoint_choice_witness:
  "resolve_endpoint demo_env ''10.0.0.1'' 80 = SocketAddr (V4 0x0A000001) 80 \<and>
   resolve_endpoint demo_env ''no.such.host'' 80 = fallback_endpoint"
proof -
  have p: "parse_ipv4 ''10.0.0.1'' = Some 0x0A000001" "parse_ipv4 ''no.such.host'' = None"
    "parse_ipv6 ''no.such.host'' = None"
    by code_simp+
  have h: "env_lookup_host demo_env h q = Inl ''''" for h q by (simp add: demo_env_def)
  show ?thesis
    using resolve_endpoint_choice [of "''10.0.0.1''" demo_env 80]
      resolve_endpoint_choice [of "''no.such.host''" demo_env 80]
    by (simp add: p h)
qed

end
