(* ===== verification/Sqlite.thy ===== *)
theory Sqlite
  imports Json Filesystem
begin

text \<open>
  The SQLite side of \<open>src/src/handler.rs\<close>: the operations of the \<open>rusqlite\<close> crate the
  handler calls, as a record of parameters over the world (the file tree and the engine's own
  state), the encoding of SQLite values as JSON (\<open>value_ref_to_json\<close>, \<open>to_hex\<close>), the
  mapping of errors (\<open>map_sqlite_err\<close>), and the row loop of \<open>run_query\<close>, which ends only if
  the cursor does.
\<close>

section \<open>The engine as a parameter\<close>

record 'q world =
  files :: fs
  engine :: 'q

text \<open>\<open>rusqlite::ffi::Error\<close>: the extended result code, and what its \<open>Display\<close> prints.\<close>

record ffi_error =
  extended_code :: i32
  ffi_display :: string

text \<open>\<open>rusqlite::Error\<close>: a SQLite failure, or any other variant with what its \<open>Display\<close> prints.\<close>

datatype rusqlite_error = SqliteFailure ffi_error "string option" | OtherError string

text \<open>\<open>rusqlite::types::ValueRef\<close>\<close>

datatype value_ref = Null | Integer i64 | Real f64 | Text "u8 list" | Blob "u8 list"

text \<open>
  \<open>Connection::open\<close>, \<open>execute_batch\<close>, \<open>prepare\<close>, \<open>column_names\<close>, \<open>Statement::query\<close>,
  \<open>Rows::next\<close> (with the advanced cursor), \<open>Row::get_ref\<close>, and the effects of dropping a
  statement and a connection.
\<close>

record ('q, 'c, 's, 'r, 'w) rusqlite =
  sq_open :: "string \<Rightarrow> 'q world \<Rightarrow> (rusqlite_error + 'c) \<times> 'q world"
  sq_execute_batch :: "'c \<Rightarrow> string \<Rightarrow> 'q world \<Rightarrow> (rusqlite_error + unit) \<times> 'q world"
  sq_prepare :: "'c \<Rightarrow> string \<Rightarrow> 'q world \<Rightarrow> (rusqlite_error + 's) \<times> 'q world"
  sq_column_names :: "'s \<Rightarrow> string list"
  sq_query :: "'s \<Rightarrow> 'q world \<Rightarrow> (rusqlite_error + 'r) \<times> 'q world"
  sq_next :: "'r \<Rightarrow> 'q world \<Rightarrow> (rusqlite_error + 'w option) \<times> 'r \<times> 'q world"
  sq_get_ref :: "'w \<Rightarrow> nat \<Rightarrow> rusqlite_error + value_ref"
  sq_finalize :: "'s \<Rightarrow> 'q world \<Rightarrow> 'q world"
  sq_close :: "'c \<Rightarrow> 'q world \<Rightarrow> 'q world"

section \<open>Values and errors\<close>

definition HEX :: string where
  "HEX = ''0123456789abcdef''"

definition to_hex :: "u8 list \<Rightarrow> string" where
  "to_hex bytes = concat (map (\<lambda>b. [HEX ! unat (drop_bit 4 b), HEX ! unat (b AND 0x0F)]) bytes)"

fun value_ref_to_json :: "value_ref \<Rightarrow> json" where
  "value_ref_to_json value_ref.Null = json.Null"
| "value_ref_to_json (Integer n) = json_of_i64 n"
| "value_ref_to_json (Real f) =
     (case number_from_f64 f of Some n \<Rightarrow> Number n | None \<Rightarrow> json.Null)"
| "value_ref_to_json (Text bytes) = String (from_utf8_lossy bytes)"
| "value_ref_to_json (Blob bytes) = String (''X'' @ CHR 0x27 # to_hex bytes @ [CHR 0x27])"

fun map_sqlite_err :: "rusqlite_error \<Rightarrow> i64 \<times> string" where
  "map_sqlite_err (SqliteFailure ffi message) =
     (scast (extended_code ffi AND 0xFF),
      case message of Some m \<Rightarrow> m | None \<Rightarrow> ffi_display ffi)"
| "map_sqlite_err (OtherError text) = (1, text)"

section \<open>The row loop\<close>

text \<open>The inner loop: one object per row, later columns of the same name overwrite.\<close>

fun row_object ::
  "('q, 'c, 's, 'r, 'w) rusqlite \<Rightarrow> 'w \<Rightarrow> nat \<Rightarrow> string list \<Rightarrow> (string \<times> json) list \<Rightarrow>
     (i64 \<times> string) + (string \<times> json) list" where
  "row_object sq row i [] obj = Inr obj"
| "row_object sq row i (name # names) obj =
     (case sq_get_ref sq row i of
        Inl e \<Rightarrow> Inl (map_sqlite_err e)
      | Inr v \<Rightarrow> row_object sq row (Suc i) names (obj_insert name (value_ref_to_json v) obj))"

text \<open>The outer loop; \<open>None\<close> is a loop that never ends.\<close>

partial_function (option) fetch_rows ::
  "('q, 'c, 's, 'r, 'w) rusqlite \<Rightarrow> string list \<Rightarrow> json list \<Rightarrow> 'r \<Rightarrow> 'q world \<Rightarrow>
     (((i64 \<times> string) + json list) \<times> 'q world) option" where
  "fetch_rows sq columns rows_data rows w =
     (case sq_next sq rows w of
        (Inl e, rows', w') \<Rightarrow> Some (Inl (map_sqlite_err e), w')
      | (Inr None, rows', w') \<Rightarrow> Some (Inr rows_data, w')
      | (Inr (Some row), rows', w') \<Rightarrow>
          (case row_object sq row 0 columns [] of
             Inl e \<Rightarrow> Some (Inl e, w')
           | Inr object \<Rightarrow> fetch_rows sq columns (rows_data @ [Object object]) rows' w'))"

declare fetch_rows.simps [code]

text \<open>A cursor that yields the given rows and then ends, leaving the given world.\<close>

fun cursor_yields ::
  "('q, 'c, 's, 'r, 'w) rusqlite \<Rightarrow> 'r \<Rightarrow> 'q world \<Rightarrow> 'w list \<Rightarrow> 'q world \<Rightarrow> bool" where
  "cursor_yields sq rows w [] w' \<longleftrightarrow> (\<exists>rows'. sq_next sq rows w = (Inr None, rows', w'))"
| "cursor_yields sq rows w (x # xs) w' \<longleftrightarrow>
     (case sq_next sq rows w of
        (Inr (Some y), rows', w1) \<Rightarrow> y = x \<and> cursor_yields sq rows' w1 xs w'
      | _ \<Rightarrow> False)"

section \<open>Lemmas\<close>

lemma HEX_digits: "i < 16 \<Longrightarrow> HEX ! i \<in> set HEX"
  by (rule nth_mem) (simp add: HEX_def)

lemma and_0xF: "(b :: u8) AND 0x0F = take_bit 4 b"
  by (simp add: take_bit_eq_mask mask_eq_exp_minus_1)

lemma nibbles_less: "unat (drop_bit 4 (b :: u8)) < 16" "unat (b AND 0x0F) < 16"
proof -
  have "unat b < 256" using unsigned_less [of b, where ?'a = nat] by simp
  then show "unat (drop_bit 4 b) < 16" by (simp add: drop_bit_eq_div unat_div_distrib)
  show "unat (b AND 0x0F) < 16" by (simp add: and_0xF take_bit_eq_mod unat_mod_distrib)
qed

lemma length_to_hex: "length (to_hex bytes) = 2 * length bytes"
  by (induction bytes) (simp_all add: to_hex_def)

lemma to_hex_chars: "set (to_hex bytes) \<subseteq> set HEX"
  by (induction bytes) (auto simp: to_hex_def HEX_digits nibbles_less)

lemma wf_value_ref_to_json [wf_intros]: "wf_json (value_ref_to_json v)"
  by (cases v) (auto simp: number_from_f64_def wf_json_of_i64)

lemma sint_primary_code:
  "sint (scast (extended_code ffi AND 0xFF) :: i64) = uint (extended_code ffi) mod 256"
proof -
  let ?x = "take_bit 8 (extended_code ffi)"
  have x: "extended_code ffi AND 0xFF = ?x"
    by (simp add: take_bit_eq_mask mask_eq_exp_minus_1)
  have u: "uint ?x = uint (extended_code ffi) mod 256"
    by (simp add: take_bit_eq_mod uint_mod_distrib)
  then have "sint ?x = uint ?x"
    by (simp add: sint_uint signed_take_bit_int_eq_self)
  then show ?thesis
    by (simp add: x u scast_eq sint_sbintrunc' signed_take_bit_int_eq_self)
qed

lemma row_object_eq:
  assumes "\<And>k. k < length names \<Longrightarrow> sq_get_ref sq row (i + k) = Inr (vs ! k)"
    and "length vs = length names"
  shows "row_object sq row i names obj =
    Inr (foldl (\<lambda>m (k, v). obj_insert k v m) obj (zip names (map value_ref_to_json vs)))"
  using assms
proof (induction names arbitrary: i vs obj)
  case (Cons name names)
  obtain v vs' where vs: "vs = v # vs'" using Cons.prems(2) by (cases vs) auto
  have "sq_get_ref sq row i = Inr v" using Cons.prems(1) [of 0] vs by simp
  moreover have "sq_get_ref sq row (Suc i + k) = Inr (vs' ! k)" if "k < length names" for k
    using Cons.prems(1) [of "Suc k"] that vs by simp
  ultimately show ?case using Cons.IH [of "Suc i" vs'] Cons.prems(2) vs by simp
qed simp

lemma wf_row_object:
  "row_object sq row i names obj = Inr obj' \<Longrightarrow> wf_json (Object obj) \<Longrightarrow> wf_json (Object obj')"
proof (induction sq row i names obj rule: row_object.induct)
  case (2 sq row i name names obj)
  then obtain v where v: "sq_get_ref sq row i = Inr v" by (auto split: sum.splits)
  have "wf_json (Object (obj_insert name (value_ref_to_json v) obj))"
    using 2 set_obj_insert [of name "value_ref_to_json v" obj]
    by (auto simp: obj_ok_insert wf_value_ref_to_json)
  with 2 v show ?case by simp
qed simp

section \<open>When the row loop ends\<close>

text \<open>A cursor that comes to its end, or to an error, after finitely many steps.\<close>

inductive cursor_ends :: "('q, 'c, 's, 'r, 'w) rusqlite \<Rightarrow> 'r \<Rightarrow> 'q world \<Rightarrow> bool" for sq where
  failed: "sq_next sq rows w = (Inl e, rows', w') \<Longrightarrow> cursor_ends sq rows w"
| at_end: "sq_next sq rows w = (Inr None, rows', w') \<Longrightarrow> cursor_ends sq rows w"
| row: "sq_next sq rows w = (Inr (Some x), rows', w') \<Longrightarrow> cursor_ends sq rows' w' \<Longrightarrow>
    cursor_ends sq rows w"

lemma cursor_yields_ends: "cursor_yields sq rows w xs w' \<Longrightarrow> cursor_ends sq rows w"
  by (induction sq rows w xs w' rule: cursor_yields.induct)
    (auto intro: cursor_ends.intros split: prod.splits sum.splits option.splits)

lemma fetch_rows_ends: "cursor_ends sq rows w \<Longrightarrow> fetch_rows sq columns acc rows w \<noteq> None"
proof (induction arbitrary: acc rule: cursor_ends.induct)
  case (row rows w x rows' w')
  then show ?case by (subst fetch_rows.simps) (auto split: sum.splits)
qed (subst fetch_rows.simps, simp)+

lemma sum_option_cases:
  obtains e where "r = Inl e" | "r = Inr None" | x where "r = Inr (Some x)"
  by (metis option.exhaust sum.exhaust)

lemma fetch_rows_returns_ends:
  "fetch_rows sq columns acc rows w = Some r \<Longrightarrow>
     (\<And>x. \<exists>obj. row_object sq x 0 columns [] = Inr obj) \<Longrightarrow> cursor_ends sq rows w"
proof (induction sq columns acc rows w r rule: fetch_rows.raw_induct [rotated, consumes 1])
  case (1 loop sq columns acc rows w r)
  obtain res rows' w' where n: "sq_next sq rows w = (res, rows', w')"
    by (cases "sq_next sq rows w")
  show ?case
  proof (cases res rule: sum_option_cases)
    case (3 x)
    obtain obj where obj: "row_object sq x 0 columns [] = Inr obj" using "1.prems"(1) by blast
    have "cursor_ends sq rows' w'"
      using "1.hyps" n 3 obj by (auto intro!: "1.IH" [OF _ "1.prems"(1)])
    with n 3 show ?thesis by (auto intro: cursor_ends.row)
  qed (use n in \<open>auto intro: cursor_ends.intros\<close>)
qed

text \<open>The loop computes one object per row.\<close>

lemma fetch_rows_yields:
  assumes "cursor_yields sq rows w xs w'"
    and "\<And>x. x \<in> set xs \<Longrightarrow> row_object sq x 0 columns [] = Inr (obj x)"
  shows "fetch_rows sq columns acc rows w = Some (Inr (acc @ map (Object \<circ> obj) xs), w')"
  using assms
proof (induction sq rows w xs w' arbitrary: acc rule: cursor_yields.induct)
  case (1 sq rows w w')
  then show ?case by (subst fetch_rows.simps) auto
next
  case (2 sq rows w x xs w')
  then show ?case by (subst fetch_rows.simps) (auto split: prod.splits sum.splits option.splits)
qed

lemma wf_fetch_rows:
  "fetch_rows sq columns acc rows w = Some r \<Longrightarrow> \<forall>v \<in> set acc. wf_json v \<Longrightarrow>
     fst r = Inr vs \<Longrightarrow> \<forall>v \<in> set vs. wf_json v"
proof (induction sq columns acc rows w r rule: fetch_rows.raw_induct [rotated, consumes 1])
  case (1 loop sq columns acc rows w r)
  obtain res rows' w' where n: "sq_next sq rows w = (res, rows', w')"
    by (cases "sq_next sq rows w")
  show ?case
  proof (cases res rule: sum_option_cases)
    case (3 x)
    show ?thesis
    proof (cases "row_object sq x 0 columns []")
      case (Inl e)
      with "1.prems" "1.hyps" n 3 show ?thesis by auto
    next
      case (Inr obj)
      have "wf_json (Object obj)"
        using wf_row_object [OF Inr] by (simp add: obj_ok_def)
      then have "\<forall>v \<in> set (acc @ [Object obj]). wf_json v" using "1.prems"(1) by auto
      moreover have "loop sq columns (acc @ [Object obj]) rows' w' = Some r"
        using "1.hyps" n 3 Inr by simp
      ultimately show ?thesis using "1.IH" "1.prems"(2) by blast
    qed
  qed (use "1.prems" "1.hyps" n in auto)
qed

end
