(* ===== verification/Regex.thy ===== *)
theory Regex
  imports Text
begin

text \<open>
  What the source asks of the \<open>regex\<close> crate. The engine is a parameter that gives, for a
  pattern and a haystack, the capture groups of the successive non-overlapping matches; the
  copying that \<open>replace_all\<close> does around them is written out here. For the key-repair
  pattern of \<open>src/src/handler.rs\<close> the documented leftmost-first, greedy matches are also given
  as an executable function, \<open>key_captures\<close>, so that claims about repaired requests can say
  what they assume of the engine.
\<close>

section \<open>Captures and replacement\<close>

text \<open>The groups of one match as byte ranges, group 0 first.\<close>

type_synonym captures = "(nat \<times> nat) option list"

definition group_text :: "string \<Rightarrow> captures \<Rightarrow> nat \<Rightarrow> string" where
  "group_text s caps i =
     (if i < length caps then
        (case caps ! i of Some (a, b) \<Rightarrow> take (b - a) (drop a s) | None \<Rightarrow> [])
      else [])"

text \<open>\<open>Regex::replace_all\<close> with a replacement closure that has a state.\<close>

fun replace_from ::
  "string \<Rightarrow> nat \<Rightarrow> captures list \<Rightarrow> (captures \<Rightarrow> 'st \<Rightarrow> string \<times> 'st) \<Rightarrow> 'st \<Rightarrow> string" where
  "replace_from s pos [] f st = drop pos s"
| "replace_from s pos (caps # rest) f st =
     (case caps of
        Some (a, b) # _ \<Rightarrow>
          (case f caps st of
             (new, st') \<Rightarrow> take (a - pos) (drop pos s) @ new @ replace_from s b rest f st')
      | _ \<Rightarrow> replace_from s pos rest f st)"

definition replace_all :: "captures list \<Rightarrow> string \<Rightarrow> (captures \<Rightarrow> string) \<Rightarrow> string" where
  "replace_all matches s f = replace_from s 0 matches (\<lambda>c _. (f c, ())) ()"

section \<open>Scanning\<close>

text \<open>
  The successive matches of a pattern, from what it matches at the start of a text: the length of
  the match, never 0 here, and its groups from there. \<open>rewrite\<close> is the text in which each match
  is replaced; the replacement depends on the text from the match on, on its groups and a state.
\<close>

type_synonym matcher = "string \<Rightarrow> (nat \<times> captures) option"

definition shift :: "nat \<Rightarrow> captures \<Rightarrow> captures" where
  "shift i caps = map (map_option (\<lambda>(a, b). (i + a, i + b))) caps"

function all_matches :: "matcher \<Rightarrow> nat \<Rightarrow> string \<Rightarrow> captures list" where
  "all_matches mt i [] = []"
| "all_matches mt i (c # cs) =
     (case mt (c # cs) of
        Some (m, caps) \<Rightarrow> shift i caps # all_matches mt (i + Suc (m - 1)) (drop (m - 1) cs)
      | None \<Rightarrow> all_matches mt (Suc i) cs)"
  by pat_completeness auto
termination
  by (relation "measure (\<lambda>(mt, i, s). length s)") auto

function rewrite ::
  "matcher \<Rightarrow> (string \<Rightarrow> captures \<Rightarrow> 'st \<Rightarrow> string \<times> 'st) \<Rightarrow> 'st \<Rightarrow> string \<Rightarrow> string" where
  "rewrite mt f st [] = []"
| "rewrite mt f st (c # cs) =
     (case mt (c # cs) of
        Some (m, caps) \<Rightarrow>
          (case f (c # cs) caps st of (new, st') \<Rightarrow> new @ rewrite mt f st' (drop (m - 1) cs))
      | None \<Rightarrow> c # rewrite mt f st cs)"
  by pat_completeness auto
termination
  by (relation "measure (\<lambda>(mt, f, st, s). length s)") auto

declare all_matches.simps(2) [simp del] rewrite.simps(2) [simp del]

text \<open>A pattern whose group 0 is the whole, nonempty match.\<close>

definition matcher_ok :: "matcher \<Rightarrow> bool" where
  "matcher_ok mt \<longleftrightarrow>
     (\<forall>s m caps. mt s = Some (m, caps) \<longrightarrow> 0 < m \<and> (\<exists>rest. caps = Some (0, m) # rest))"

lemma group_text_shift: "group_text s (shift i caps) j = group_text (drop i s) caps j"
  by (auto simp: group_text_def shift_def add.commute split: option.split)

lemma take_drop_next:
  assumes "drop (i + d) s = c # cs"
  shows "take d (drop i s) @ [c] = take (Suc d) (drop i s)"
proof -
  have "i + d < length s" using assms by (metis drop_all linorder_not_less list.distinct(1))
  moreover have "c = s ! (i + d)" using assms calculation by (metis nth_via_drop)
  ultimately show ?thesis by (simp add: take_Suc_conv_app_nth)
qed

lemma drop_match: "drop k s = c # cs \<Longrightarrow> 0 < m \<Longrightarrow> drop (m - 1) cs = drop (k + m) s"
  by (metis Suc_pred' add.commute diff_Suc_1 drop_Suc_Cons drop_drop)

lemma replace_from_all_matches:
  assumes ok: "matcher_ok mt"
    and shifted: "\<And>i s caps st. f s (shift i caps) st = f (drop i s) caps st"
  shows "replace_from s i (all_matches mt (i + d) (drop (i + d) s)) (f s) st =
    take d (drop i s) @ rewrite mt f st (drop (i + d) s)"
proof (induction "length s - (i + d)" arbitrary: i d st rule: less_induct)
  case less
  show ?case
  proof (cases "drop (i + d) s")
    case Nil
    then have "length s \<le> i + d" by simp
    then show ?thesis using Nil by simp
  next
    case (Cons c cs)
    then have len: "i + d < length s" by (metis drop_all linorder_not_less list.distinct(1))
    have cs: "cs = drop (Suc (i + d)) s" using Cons by (metis drop_Suc list.sel(3) tl_drop)
    show ?thesis
    proof (cases "mt (c # cs)")
      case None
      note take_drop_next [OF Cons]
      moreover have "replace_from s i (all_matches mt (i + Suc d) (drop (i + Suc d) s)) (f s) st =
          take (Suc d) (drop i s) @ rewrite mt f st (drop (i + Suc d) s)"
        using less [of i "Suc d"] len by simp
      ultimately show ?thesis
        using None Cons cs by (simp add: all_matches.simps(2) rewrite.simps(2))
    next
      case (Some t)
      obtain m caps where t: "t = (m, caps)" by (cases t)
      obtain rest where m: "0 < m" "caps = Some (0, m) # rest"
        using ok Some t unfolding matcher_ok_def by blast
      note tail = drop_match [OF Cons m(1)]
      obtain new st' where new: "f (drop (i + d) s) caps st = (new, st')"
        by (cases "f (drop (i + d) s) caps st")
      have "replace_from s (i + d + m) (all_matches mt (i + d + m + 0) (drop (i + d + m + 0) s)) (f s) st' =
          rewrite mt f st' (drop (i + d + m) s)"
        using less [of "i + d + m" 0 st'] len m(1) by simp
      moreover have "f s (shift (i + d) caps) st = (new, st')" using shifted new by simp
      moreover have "shift (i + d) caps = Some (i + d, i + d + m) # shift (i + d) rest"
        using m(2) by (simp add: shift_def)
      moreover have "i + d + Suc (m - 1) = i + d + m" using m(1) by simp
      ultimately show ?thesis
        using Some t Cons new tail by (simp add: all_matches.simps(2) rewrite.simps(2))
    qed
  qed
qed

lemma replace_all_matches:
  assumes "matcher_ok mt" "\<And>i s caps st. f s (shift i caps) st = f (drop i s) caps st"
  shows "replace_from s 0 (all_matches mt 0 s) (f s) st = rewrite mt f st s"
  using replace_from_all_matches [of mt f s 0 0 st] assms by simp

section \<open>The key-repair pattern\<close>

abbreviation single_quote :: char where "single_quote \<equiv> CHR 0x27"
abbreviation double_quote :: char where "double_quote \<equiv> CHR 0x22"

definition key_pattern :: string where
  "key_pattern =
     ''(['' @ [single_quote, double_quote] @ ''])?([a-zA-Z0-9]+)(['' @
     [single_quote, double_quote] @ ''])?:''"

definition key_template :: "string \<Rightarrow> captures \<Rightarrow> string" where
  "key_template s caps = [double_quote] @ group_text s caps 2 @ [double_quote, CHR '':'']"

definition is_quote :: "char \<Rightarrow> bool" where
  "is_quote c \<longleftrightarrow> c = single_quote \<or> c = double_quote"

definition in_class :: "(char \<times> char) list \<Rightarrow> char \<Rightarrow> bool" where
  "in_class ranges c = list_ex (\<lambda>(lo, hi). lo \<le> c \<and> c \<le> hi) ranges"

definition is_alnum :: "char \<Rightarrow> bool" where
  "is_alnum = in_class [(CHR ''a'', CHR ''z''), (CHR ''A'', CHR ''Z''), (CHR ''0'', CHR ''9'')]"

definition quote_len :: "string \<Rightarrow> nat" where
  "quote_len s = (case s of c # _ \<Rightarrow> if is_quote c then 1 else 0 | [] \<Rightarrow> 0)"

text \<open>
  The match at the start of a string, if there is one: the lengths of the opening quote, of the
  key and of the closing quote, before the colon.
\<close>

definition key_match :: "string \<Rightarrow> (nat \<times> nat \<times> nat) option" where
  "key_match s =
     (let q = quote_len s;
          k = length (takeWhile is_alnum (drop q s));
          q2 = quote_len (drop (q + k) s)
      in if 0 < k \<and> q + k + q2 < length s \<and> s ! (q + k + q2) = CHR '':''
         then Some (q, k, q2) else None)"

definition key_matcher :: matcher where
  "key_matcher s =
     map_option
       (\<lambda>(q, k, q2).
          (q + k + q2 + 1,
           [Some (0, q + k + q2 + 1), if q = 0 then None else Some (0, q),
            Some (q, q + k), if q2 = 0 then None else Some (q + k, q + k + q2)]))
       (key_match s)"

definition key_captures :: "string \<Rightarrow> captures list" where
  "key_captures s = all_matches key_matcher 0 s"

text \<open>The repaired text: every key before a colon in double quotes.\<close>

function repair_keys :: "string \<Rightarrow> string" where
  "repair_keys [] = []"
| "repair_keys (c # cs) =
     (case key_match (c # cs) of
        Some (q, k, q2) \<Rightarrow>
          [double_quote] @ take k (drop q (c # cs)) @ [double_quote, CHR '':''] @
            repair_keys (drop (q + k + q2) cs)
      | None \<Rightarrow> c # repair_keys cs)"
  by pat_completeness auto
termination
  by (relation "measure length") auto

declare repair_keys.simps(2) [simp del]

lemma key_matcher_ok: "matcher_ok key_matcher"
  by (auto simp: matcher_ok_def key_matcher_def)

lemma key_matcher_None: "key_match s = None \<Longrightarrow> key_matcher s = None"
  by (simp add: key_matcher_def)

lemma key_matcher_Some:
  "key_match s = Some (q, k, q2) \<Longrightarrow> key_matcher s =
     Some (q + k + q2 + 1,
       [Some (0, q + k + q2 + 1), if q = 0 then None else Some (0, q),
        Some (q, q + k), if q2 = 0 then None else Some (q + k, q + k + q2)])"
  by (simp add: key_matcher_def)

lemma key_template_shift: "key_template s (shift i caps) = key_template (drop i s) caps"
  by (simp add: key_template_def group_text_shift)

lemma rewrite_keys: "rewrite key_matcher (\<lambda>s c st. (key_template s c, st)) () s = repair_keys s"
proof (induction s rule: repair_keys.induct)
  case (2 c cs)
  show ?case
  proof (cases "key_match (c # cs)")
    case None
    then show ?thesis using 2(1) by (simp add: rewrite.simps(2) repair_keys.simps(2) key_matcher_None)
  next
    case (Some t)
    obtain q k q2 where t: "t = (q, k, q2)" by (cases t)
    let ?caps = "[Some (0, q + k + q2 + 1), if q = 0 then None else Some (0, q),
      Some (q, q + k), if q2 = 0 then None else Some (q + k, q + k + q2)]"
    have new: "key_template (c # cs) ?caps =
        [double_quote] @ take k (drop q (c # cs)) @ [double_quote, CHR '':'']"
      by (simp add: key_template_def group_text_def)
    have rest: "rewrite key_matcher (\<lambda>s c st. (key_template s c, st)) () (drop (q + k + q2) cs) =
        repair_keys (drop (q + k + q2) cs)"
      by (rule 2(2) [OF Some t [symmetric] refl])
    show ?thesis
      unfolding rewrite.simps(2) repair_keys.simps(2) key_matcher_Some [OF Some [unfolded t]]
        Some [unfolded t]
      using new rest by simp
  qed
qed simp

text \<open>What \<open>replace_all\<close> makes of a request with these matches.\<close>

lemma replace_all_key_captures: "replace_all (key_captures s) s (key_template s) = repair_keys s"
proof -
  have "replace_from s 0 (all_matches key_matcher 0 s) (\<lambda>c st. (key_template s c, st)) () =
      rewrite key_matcher (\<lambda>s c st. (key_template s c, st)) () s"
    by (rule replace_all_matches [OF key_matcher_ok]) (simp add: key_template_shift)
  moreover have "(\<lambda>c (_ :: unit). (key_template s c, ())) = (\<lambda>c st. (key_template s c, st))" by auto
  ultimately show ?thesis by (simp add: replace_all_def key_captures_def rewrite_keys)
qed

text \<open>
  Bare and single-quoted keys are repaired, but so is whatever looks like a key inside a value:
  the value \<open>"a:b"\<close> is broken up.
\<close>

lemma repair_keys_in_value:
  "repair_keys ''{cmd:1,'db':2}'' =
     ''{'' @ [double_quote] @ ''cmd'' @ [double_quote] @ '':1,'' @ [double_quote] @ ''db'' @ [double_quote] @ '':2}''"
  "repair_keys (''{q:'' @ [double_quote] @ ''a:b'' @ [double_quote] @ ''}'') =
     ''{'' @ [double_quote] @ ''q'' @ [double_quote] @ '':'' @ [double_quote] @ ''a'' @ [double_quote] @ '':b'' @
       [double_quote] @ ''}''"
  by code_simp+

end
