(* ===== verification/Handler.thy ===== *)
theory Handler
  imports Config Sqlite Regex
begin

text \<open>
  The request handler (\<open>src/src/handler.rs\<close>): parsing with key repair, the authentication
  gate, command dispatch, \<open>QUERY\<close>, \<open>LIST\<close> and \<open>DELETE_DB\<close>, database-name safety and the
  per-connection cache of open databases. Every operation takes and returns the handler and the
  world; the external crates are the fields of \<open>externals\<close>.
\<close>

section \<open>State and parameters\<close>

record ('q, 'c, 's, 'r, 'w) externals =
  sqlite :: "('q, 'c, 's, 'r, 'w) rusqlite"
  json_from_str :: "string \<Rightarrow> string + json"
  json_to_string :: "json \<Rightarrow> string option"
  regex_captures :: "string \<Rightarrow> string \<Rightarrow> captures list"

record 'c request_handler =
  config :: config
  databases :: "(string \<times> 'c) list"
  authenticated :: bool

type_synonym ('a, 'c, 'q) handled = "('a \<times> 'c request_handler \<times> 'q world) run"

definition INVALID_FORMAT :: i64 where "INVALID_FORMAT = 0"
definition NO_COMMAND_SPECIFIED :: i64 where "NO_COMMAND_SPECIFIED = 1"
definition UNKNOWN_COMMAND :: i64 where "UNKNOWN_COMMAND = 2"
definition NO_DATABASE_SPECIFIED :: i64 where "NO_DATABASE_SPECIFIED = 3"
definition ERROR_READING_FROM_CLIENT :: i64 where "ERROR_READING_FROM_CLIENT = 4"
definition SQLITE_MISUSE :: i64 where "SQLITE_MISUSE = 21"

definition new_handler :: "config \<Rightarrow> 'c request_handler" where
  "new_handler c = \<lparr>config = c, databases = [], authenticated = False\<rparr>"

section \<open>Requests and responses\<close>

definition parse_request :: "('q, 'c, 's, 'r, 'w) externals \<Rightarrow> string \<Rightarrow> string + json" where
  "parse_request X req =
     (case json_from_str X req of
        Inr v \<Rightarrow> Inr v
      | Inl _ \<Rightarrow>
          json_from_str X
            (replace_all (regex_captures X key_pattern req) req (key_template req)))"

definition generic_error :: "i64 \<Rightarrow> json \<Rightarrow> json" where
  "generic_error code request =
     json_object [(''generic_error'', json_of_i64 code), (''request'', request)]"

definition invalid_format :: "string \<Rightarrow> string \<Rightarrow> json" where
  "invalid_format message req =
     json_object
       [(''generic_error'', json_of_i64 INVALID_FORMAT), (''message'', String message),
        (''request'', String req)]"

definition result_json :: "bool \<Rightarrow> json" where
  "result_json ok = json_object [(''result'', String (if ok then ''ok'' else ''error''))]"

definition sql_error :: "i64 \<times> string \<Rightarrow> json \<Rightarrow> json" where
  "sql_error e request =
     json_object
       [(''error_code'', json_of_i64 (fst e)), (''error_message'', String (snd e)),
        (''query'', request)]"

definition query_result :: "string list \<Rightarrow> json list \<Rightarrow> json" where
  "query_result columns rows =
     json_object [(''columns'', Array (map String columns)), (''data'', Array rows)]"

section \<open>Database names\<close>

definition is_safe_database_name :: "fs \<Rightarrow> string \<Rightarrow> string \<Rightarrow> bool" where
  "is_safe_database_name t folder name =
     (if name = [] then False
      else if is_absolute name then False
      else
        let components = path_components name;
            first = (case components of [] \<Rightarrow> None | c # _ \<Rightarrow> Some c)
        in
        if length components > 1 then False
        else if (case first of Some (Normal _) \<Rightarrow> False | _ \<Rightarrow> True) then False
        else
          let full = path_join folder name in
          if fs_exists t full then
            (case (canonicalize_path t folder, canonicalize_path t full) of
               (Some base, Some resolved) \<Rightarrow>
                 (case strip_prefix resolved base of
                    Some rel \<Rightarrow> length rel = 1
                  | None \<Rightarrow> False)
             | _ \<Rightarrow> False)
          else True)"

definition is_sqlite_sidecar_file :: "string \<Rightarrow> bool" where
  "is_sqlite_sidecar_file name \<longleftrightarrow>
     suffix ''-wal'' name \<or> suffix ''-shm'' name \<or> suffix ''-journal'' name"

section \<open>The connection cache\<close>

definition connection_pragmas :: "config \<Rightarrow> string" where
  "connection_pragmas c =
     ''PRAGMA journal_mode=WAL; PRAGMA busy_timeout='' @ dec_of_nat (unat (busy_timeout_ms c)) @
     ''; PRAGMA synchronous=NORMAL;''"

lemma connection_pragmas_code [code]:
  "connection_pragmas c =
     ''PRAGMA journal_mode=WAL; PRAGMA busy_timeout='' @ dec_of_int (uint (busy_timeout_ms c)) @
     ''; PRAGMA synchronous=NORMAL;''"
  by (simp add: connection_pragmas_def dec_of_word)

definition get_connection ::
  "('q, 'c, 's, 'r, 'w) externals \<Rightarrow> 'c request_handler \<Rightarrow> 'q world \<Rightarrow> string \<Rightarrow>
     (rusqlite_error + 'c, 'c, 'q) handled" where
  "get_connection X h w db =
     (let cached = (\<lambda>h w. case map_of (databases h) db of
                            Some c \<Rightarrow> Returns (Inr c, h, w) | None \<Rightarrow> Panics)
      in
      if map_of (databases h) db = None then
        (case sq_open (sqlite X) (path_join (databases_folder (config h)) db) w of
           (Inl e, w1) \<Rightarrow> Returns (Inl e, h, w1)
         | (Inr conn, w1) \<Rightarrow>
             (case sq_execute_batch (sqlite X) conn (connection_pragmas (config h)) w1 of
                (Inl e, w2) \<Rightarrow> Returns (Inl e, h, sq_close (sqlite X) conn w2)
              | (Inr _, w2) \<Rightarrow>
                  cached (h\<lparr>databases := AList.update db conn (databases h)\<rparr>) w2))
      else cached h w)"

section \<open>Commands\<close>

text \<open>The part of \<open>run_query\<close> after the connection is there.\<close>

definition run_statement ::
  "('q, 'c, 's, 'r, 'w) externals \<Rightarrow> 'c \<Rightarrow> 'q world \<Rightarrow> string \<Rightarrow>
     (((i64 \<times> string) + json) \<times> 'q world) run" where
  "run_statement X conn w query =
     (case sq_prepare (sqlite X) conn query w of
        (Inl e, w1) \<Rightarrow> Returns (Inl (map_sqlite_err e), w1)
      | (Inr stmt, w1) \<Rightarrow>
          let columns = sq_column_names (sqlite X) stmt in
          (case sq_query (sqlite X) stmt w1 of
             (Inl e, w2) \<Rightarrow> Returns (Inl (map_sqlite_err e), sq_finalize (sqlite X) stmt w2)
           | (Inr rows, w2) \<Rightarrow>
               run_bind (run_of_option (fetch_rows (sqlite X) columns [] rows w2))
                 (\<lambda>(r, w3).
                    Returns
                      (case r of
                         Inl e \<Rightarrow> Inl e
                       | Inr rows_data \<Rightarrow> Inr (query_result columns rows_data),
                       sq_finalize (sqlite X) stmt w3))))"

definition run_query ::
  "('q, 'c, 's, 'r, 'w) externals \<Rightarrow> 'c request_handler \<Rightarrow> 'q world \<Rightarrow> string \<Rightarrow> string \<Rightarrow>
     ((i64 \<times> string) + json, 'c, 'q) handled" where
  "run_query X h w db query =
     (if trim query = [] then Returns (Inl (SQLITE_MISUSE, ''empty query''), h, w)
      else
        run_bind (get_connection X h w db) (\<lambda>(r, h1, w1).
          case r of
            Inl e \<Rightarrow> Returns (Inl (map_sqlite_err e), h1, w1)
          | Inr conn \<Rightarrow>
              run_bind (run_statement X conn w1 query) (\<lambda>(r, w2). Returns (r, h1, w2))))"

definition handle_query ::
  "('q, 'c, 's, 'r, 'w) externals \<Rightarrow> 'c request_handler \<Rightarrow> 'q world \<Rightarrow> json \<Rightarrow>
     (json, 'c, 'q) handled" where
  "handle_query X h w json =
     (case get_str json ''db'' of
        None \<Rightarrow> Returns (generic_error NO_DATABASE_SPECIFIED json, h, w)
      | Some db \<Rightarrow>
          (case get_str json ''query'' of
             None \<Rightarrow> Returns (generic_error ERROR_READING_FROM_CLIENT json, h, w)
           | Some query \<Rightarrow>
               if \<not> is_safe_database_name (files w) (databases_folder (config h)) db
               then Returns (generic_error NO_DATABASE_SPECIFIED json, h, w)
               else
                 run_bind (run_query X h w db query) (\<lambda>(r, h', w').
                   case r of
                     Inr value \<Rightarrow> Returns (value, h', w')
                   | Inl e \<Rightarrow> Returns (sql_error e json, h', w'))))"

definition list_databases :: "fs \<Rightarrow> string \<Rightarrow> string list" where
  "list_databases t folder =
     (case read_dir t folder of
        None \<Rightarrow> []
      | Some names \<Rightarrow>
          filter (\<lambda>name. \<not> is_sqlite_sidecar_file name)
            (map (\<lambda>name. from_utf8_lossy (bytes_of_str name))
               (filter (\<lambda>name. fs_is_file t (path_join folder name)) names)))"

definition handle_list :: "'c request_handler \<Rightarrow> 'q world \<Rightarrow> (json, 'c, 'q) handled" where
  "handle_list h w =
     Returns
       (json_object
          [(''list'', Array (map String (list_databases (files w) (databases_folder (config h)))))],
        h, w)"

definition handle_delete_db ::
  "('q, 'c, 's, 'r, 'w) externals \<Rightarrow> 'c request_handler \<Rightarrow> 'q world \<Rightarrow> json \<Rightarrow>
     (json, 'c, 'q) handled" where
  "handle_delete_db X h w json =
     (case get_str json ''db'' of
        None \<Rightarrow> Returns (generic_error NO_DATABASE_SPECIFIED json, h, w)
      | Some db \<Rightarrow>
          if \<not> is_safe_database_name (files w) (databases_folder (config h)) db
          then Returns (generic_error NO_DATABASE_SPECIFIED json, h, w)
          else
            (case remove_file (files w) (path_join (databases_folder (config h)) db) of
               None \<Rightarrow> Returns (result_json False, h, w)
             | Some t \<Rightarrow>
                 let w1 = w\<lparr>files := t\<rparr>;
                     w2 = (case map_of (databases h) db of
                             Some conn \<Rightarrow> sq_close (sqlite X) conn w1 | None \<Rightarrow> w1)
                 in Returns
                      (result_json True, h\<lparr>databases := AList.delete db (databases h)\<rparr>, w2)))"

definition dispatch ::
  "('q, 'c, 's, 'r, 'w) externals \<Rightarrow> 'c request_handler \<Rightarrow> 'q world \<Rightarrow> string \<Rightarrow> json \<Rightarrow>
     (json, 'c, 'q) handled" where
  "dispatch X h w req json =
     (case get_str json ''cmd'' of
        None \<Rightarrow> Returns (generic_error NO_COMMAND_SPECIFIED (String req), h, w)
      | Some cmd \<Rightarrow>
          if eq_ignore_ascii_case cmd ''QUERY'' then handle_query X h w json
          else if eq_ignore_ascii_case cmd ''LIST'' then handle_list h w
          else if eq_ignore_ascii_case cmd ''DELETE_DB'' then handle_delete_db X h w json
          else Returns (generic_error UNKNOWN_COMMAND (String req), h, w))"

definition handle_request ::
  "('q, 'c, 's, 'r, 'w) externals \<Rightarrow> 'c request_handler \<Rightarrow> 'q world \<Rightarrow> string \<Rightarrow>
     (json, 'c, 'q) handled" where
  "handle_request X h w req =
     (case parse_request X req of
        Inl message \<Rightarrow> Returns (invalid_format message req, h, w)
      | Inr json \<Rightarrow>
          if auth (config h) \<noteq> [] then
            if get_str json ''auth'' = Some (auth (config h))
            then Returns (result_json True, h\<lparr>authenticated := True\<rparr>, w)
            else if \<not> authenticated h then Returns (result_json False, h, w)
            else dispatch X h w req json
          else dispatch X h w req json)"

end
