(* ===== verification/Handler_Names.thy ===== *)
theory Handler_Names
  imports Handler
begin

text \<open>
  What \<open>is_safe_database_name\<close> (\<open>src/src/handler.rs\<close>) promises: the shape of the names it
  lets through, and where the file operations on \<open>databases_folder.join(name)\<close> land in the tree.
\<close>

section \<open>The shape of a safe name\<close>

text \<open>
  One proper segment, followed at most by separators and \<open>.\<close> segments, which
  \<open>Path::components\<close> ignores.
\<close>

definition lexically_safe :: "string \<Rightarrow> bool" where
  "lexically_safe name \<longleftrightarrow>
     hd (split_on CHR ''/'' name) \<notin> {'''', ''.'', ''..''} \<and>
     set (tl (split_on CHR ''/'' name)) \<subseteq> {'''', ''.''}"

lemma hd_split_on_Nil_iff: "hd (split_on c s) = [] \<longleftrightarrow> s = [] \<or> hd s = c"
  by (cases s) auto

lemma lexically_safe_relative: "lexically_safe name \<Longrightarrow> name \<noteq> [] \<and> \<not> is_absolute name"
  using hd_split_on_Nil_iff [of "CHR ''/''" name]
  by (cases name) (auto simp: lexically_safe_def is_absolute_def)

lemma concat_segments_Nil_iff: "concat (map segment_components ss) = [] \<longleftrightarrow> set ss \<subseteq> {'''', ''.''}"
  by (induction ss) (auto simp: segment_components_def)

lemma lexically_safe_components:
  assumes "name \<noteq> []" "\<not> is_absolute name"
  shows "(\<exists>n. path_components name = [Normal n]) \<longleftrightarrow> lexically_safe name"
proof -
  obtain n rest where split: "split_on CHR ''/'' name = n # rest"
    by (cases "split_on CHR ''/'' name") auto
  have "n \<noteq> []" using hd_split_on_Nil_iff [of "CHR ''/''" name] assms split
    by (cases name) (auto simp: is_absolute_def)
  then show ?thesis
    using assms(2) split concat_segments_Nil_iff [of rest]
    by (cases "concat (map segment_components rest)")
      (auto simp: path_components_def lexically_safe_def segment_components_def)
qed

lemma is_safe_database_name_unfold:
  "is_safe_database_name t folder name \<longleftrightarrow> lexically_safe name \<and>
     (fs_exists t (path_join folder name) \<longrightarrow>
       (\<exists>base resolved rel. canonicalize_path t folder = Some base \<and>
          canonicalize_path t (path_join folder name) = Some resolved \<and>
          strip_prefix resolved base = Some rel \<and> length rel = 1))"
proof (cases "name = [] \<or> is_absolute name")
  case True
  then show ?thesis
    using lexically_safe_relative by (auto simp: is_safe_database_name_def)
next
  case False
  note lex = lexically_safe_components [of name]
  show ?thesis
  proof (cases "lexically_safe name")
    case True
    then obtain n where "path_components name = [Normal n]" using lex False by blast
    with True False show ?thesis
      by (auto simp: is_safe_database_name_def Let_def split: option.splits)
  next
    case not_lex: False
    consider "path_components name = []" | c where "path_components name = [c]"
      | c d cs where "path_components name = c # d # cs"
      by (metis list.exhaust)
    then show ?thesis
      using lex False not_lex
      by cases (auto simp: is_safe_database_name_def split: component.splits)
  qed
qed

lemma safe_lexical: "is_safe_database_name t folder name \<Longrightarrow> lexically_safe name"
  by (simp add: is_safe_database_name_unfold)

section \<open>Where a safe name leads\<close>

lemma drop_length_one_iff:
  "prefix b a \<and> length (drop (length b) a) = 1 \<longleftrightarrow> (\<exists>m. a = b @ [m])"
  by (auto simp: prefix_def length_Suc_conv)

lemma is_safe_database_name_iff:
  assumes ok: "fs_ok t" and base: "resolve t folder = Some base"
  shows "is_safe_database_name t folder name \<longleftrightarrow> lexically_safe name \<and>
    (\<forall>loc. resolve t (path_join folder name) = Some loc \<longrightarrow> (\<exists>m. loc = base @ [m]))"
proof -
  have proper: "\<forall>s \<in> set loc. proper_name s" if "resolve t p = Some loc" for p loc
    using node_at_proper [OF ok resolve_node_at [OF ok that]] .
  show ?thesis
  proof (cases "resolve t (path_join folder name)")
    case None
    then show ?thesis by (simp add: is_safe_database_name_unfold fs_exists_iff [OF ok])
  next
    case (Some loc)
    have "(\<exists>rel. strip_prefix (path_of_location loc) (path_of_location base) = Some rel \<and>
        length rel = 1) \<longleftrightarrow> (\<exists>m. loc = base @ [m])"
      using strip_prefix_location [OF proper [OF Some] proper [OF base]]
        drop_length_one_iff [of base loc] by auto
    with Some base show ?thesis
      by (simp add: is_safe_database_name_unfold fs_exists_iff [OF ok] canonicalize_path_eq [OF ok])
  qed
qed

text \<open>The walk of a safe name from the folder: one step, and nothing after it.\<close>

lemma create_walk_lexical:
  assumes "lexically_safe name" "create_walk t l base (split_on CHR ''/'' name) = Some loc"
  shows "loc = base @ [hd (split_on CHR ''/'' name)] \<or>
    (\<exists>target. node_at t (base @ [hd (split_on CHR ''/'' name)]) = Some (Symlink target))"
proof -
  obtain n rest where split: "split_on CHR ''/'' name = n # rest"
    by (cases "split_on CHR ''/'' name") auto
  have rest: "set rest \<subseteq> {'''', ''.''}" and n: "n \<notin> {'''', ''.'', ''..''}"
    using assms(1) split by (simp_all add: lexically_safe_def)
  have "loc = base @ [n]" if "create_walk t l (base @ [n]) rest = Some loc"
    using create_walk_dots [OF that rest] .
  then show ?thesis
    using assms(2) n unfolding split create_walk.simps(2)
    by (auto split: if_splits option.splits node.splits)
qed

lemma path_join_relative_nonempty:
  "folder \<noteq> [] \<Longrightarrow> path_join folder name \<noteq> []"
  by (auto simp: path_join_def is_absolute_def)

lemma resolve_join:
  assumes "resolve t folder = Some base" "lexically_safe name"
  obtains l where
    "\<And>loc. resolve t (path_join folder name) = Some loc \<Longrightarrow>
       walk t l base (split_on CHR ''/'' name) = Some loc"
    "\<And>loc. open_location t (path_join folder name) = Some loc \<Longrightarrow>
       create_walk t l base (split_on CHR ''/'' name) = Some loc"
    "CHR 0x00 \<notin> set name \<Longrightarrow>
       resolve t (path_join folder name) = walk t l base (split_on CHR ''/'' name)"
proof -
  have folder: "folder \<noteq> []" "CHR 0x00 \<notin> set folder"
    using assms(1) by (auto simp: resolve_def split: if_splits)
  note rel = lexically_safe_relative [OF assms(2)]
  obtain links pre where w:
    "split_on CHR ''/'' (path_join folder name) = pre @ split_on CHR ''/'' name"
    "\<And>ys. walk t max_symlinks (if is_absolute folder then [] else cwd t) (pre @ ys) =
       walk t links base ys"
    "\<And>ys. create_walk t max_symlinks (if is_absolute folder then [] else cwd t) (pre @ ys) =
       create_walk t links base ys"
    using walk_from_folder [OF assms(1)] rel by metis
  have abs: "is_absolute (path_join folder name) = is_absolute folder"
    using is_absolute_path_join folder rel by blast
  show thesis
  proof (rule that)
    fix loc
    assume "resolve t (path_join folder name) = Some loc"
    then show "walk t links base (split_on CHR ''/'' name) = Some loc"
      unfolding resolve_def abs w by (simp split: if_splits)
  next
    fix loc
    assume "open_location t (path_join folder name) = Some loc"
    then show "create_walk t links base (split_on CHR ''/'' name) = Some loc"
      unfolding open_location_def abs w by (simp split: if_splits)
  next
    assume "CHR 0x00 \<notin> set name"
    then have "CHR 0x00 \<notin> set (path_join folder name)"
      using folder by (auto simp: path_join_def)
    then show "resolve t (path_join folder name) = walk t links base (split_on CHR ''/'' name)"
      unfolding resolve_def abs w using path_join_relative_nonempty [OF folder(1)] by simp
  qed
qed

lemma open_location_safe:
  assumes ok: "fs_ok t" and base: "resolve t folder = Some base"
    and safe: "is_safe_database_name t folder name"
    and opened: "open_location t (path_join folder name) = Some loc"
  shows "(\<exists>m. loc = base @ [m]) \<or>
    resolve t (path_join folder name) = None \<and>
    (\<exists>target. node_at t (base @ [hd (split_on CHR ''/'' name)]) = Some (Symlink target))"
proof -
  note lex = safe_lexical [OF safe]
  obtain l where l:
    "\<And>loc. resolve t (path_join folder name) = Some loc \<Longrightarrow>
       walk t l base (split_on CHR ''/'' name) = Some loc"
    "\<And>loc. open_location t (path_join folder name) = Some loc \<Longrightarrow>
       create_walk t l base (split_on CHR ''/'' name) = Some loc"
    using resolve_join [OF base lex] by metis
  note created = l(2) [OF opened]
  show ?thesis
  proof (cases "resolve t (path_join folder name)")
    case None
    with create_walk_lexical [OF lex created] show ?thesis by blast
  next
    case (Some loc')
    then obtain m where "loc' = base @ [m]"
      using safe is_safe_database_name_iff [OF ok base] by blast
    moreover have "loc = loc'"
      using create_walk_walk [OF l(1) [OF Some]] created by simp
    ultimately show ?thesis by blast
  qed
qed

lemma unlink_location_safe:
  assumes base: "resolve t folder = Some base" and lex: "lexically_safe name"
    and unlinked: "unlink_location t (path_join folder name) = Some loc"
  shows "loc = base @ [name] \<and> proper_name name"
proof -
  have folder: "folder \<noteq> []" using base by (auto simp: resolve_def)
  note rel = lexically_safe_relative [OF lex]
  obtain links pre where w:
    "split_on CHR ''/'' (path_join folder name) = pre @ split_on CHR ''/'' name"
    "walk t max_symlinks (if is_absolute folder then [] else cwd t) pre = Some base"
    using walk_from_folder [OF base] rel by metis
  have abs: "is_absolute (path_join folder name) = is_absolute folder"
    using is_absolute_path_join folder rel by blast
  have "proper_name (last (split_on CHR ''/'' name))"
    using unlinked unfolding unlink_location_def w by (auto split: if_splits)
  moreover have "last (tl (split_on CHR ''/'' name)) \<in> {'''', ''.''}"
    if "tl (split_on CHR ''/'' name) \<noteq> []"
    using lex last_in_set [OF that] by (auto simp: lexically_safe_def)
  ultimately have tl: "tl (split_on CHR ''/'' name) = []"
    by (cases "split_on CHR ''/'' name") (auto simp: proper_name_def split: if_splits)
  have "split_on CHR ''/'' name = [name]"
  proof (cases "CHR ''/'' \<in> set name")
    case True
    then obtain a b where "name = a @ CHR ''/'' # b" by (metis split_list)
    then have "split_on CHR ''/'' name = split_on CHR ''/'' a @ split_on CHR ''/'' b"
      by (simp add: split_on_app_sep)
    with tl show ?thesis by (cases "split_on CHR ''/'' a") auto
  qed (rule split_on_no_sep)
  then show ?thesis
    using unlinked w(2) unfolding unlink_location_def w(1) abs
    by (auto simp: Let_def split: if_splits)
qed











section \<open>Properties\<close>

text \<open>The witnesses' tree: a folder with a database, a link to it, and a link that leads to a
  file that does not exist yet, in another folder.\<close>

definition names_fs :: fs where
  "names_fs =
     \<lparr>entries = [([''data''], Dir), ([''data'', ''a''], File []),
        ([''data'', ''b''], Symlink ''a''), ([''data'', ''up''], Symlink ''/etc/secret''),
        ([''data'', ''x''], Symlink ''/etc/new''), ([''etc''], Dir),
        ([''etc'', ''secret''], File [0x21])],
      cwd = [], rights = (\<lambda>_ _. True)\<rparr>"

lemma names_fs_ok: "fs_ok names_fs"
  by code_simp

lemma names_fs_base: "resolve names_fs ''/data'' = Some [''data'']"
  by code_simp

text \<open>A database name is accepted exactly if it is one proper segment (which separators and
  \<open>.\<close> segments may follow) and what it already resolves to, if anything, lies directly in the
  databases folder.\<close>

theorem safe_name_characterised:
  assumes "fs_ok t" "resolve t folder = Some base"
  shows "is_safe_database_name t folder name \<longleftrightarrow>
    hd (split_on CHR ''/'' name) \<notin> {'''', ''.'', ''..''} \<and>
    set (tl (split_on CHR ''/'' name)) \<subseteq> {'''', ''.''} \<and>
    (\<forall>loc. resolve t (path_join folder name) = Some loc \<longrightarrow> (\<exists>m. loc = base @ [m]))"
  using is_safe_database_name_iff [OF assms] by (simp add: lexically_safe_def conj_assoc)

theorem safe_name_characterised_witness:
  "is_safe_database_name names_fs ''/data'' ''b'' \<and>
   \<not> is_safe_database_name names_fs ''/data'' ''up''"
proof -
  have r: "resolve names_fs (path_join ''/data'' ''b'') = Some [''data'', ''a'']"
    "resolve names_fs (path_join ''/data'' ''up'') = Some [''etc'', ''secret'']"
    by code_simp+
  show ?thesis
    unfolding safe_name_characterised [OF names_fs_ok names_fs_base] r by simp
qed

text \<open>C5: What the server does with an accepted name stays in the databases folder: an existing
  target is a direct child of it, removal unlinks the entry of that very name in it, and opening
  (creation included) touches a direct child, except through a symbolic link whose target does
  not exist.\<close>

theorem safe_name_confined:
  assumes "fs_ok t" "resolve t folder = Some base" "is_safe_database_name t folder name"
  shows "(\<forall>loc. resolve t (path_join folder name) = Some loc \<longrightarrow> (\<exists>m. loc = base @ [m])) \<and>
    (\<forall>loc. unlink_location t (path_join folder name) = Some loc \<longrightarrow> loc = base @ [name]) \<and>
    (\<forall>loc. open_location t (path_join folder name) = Some loc \<longrightarrow>
       (\<exists>m. loc = base @ [m]) \<or>
       resolve t (path_join folder name) = None \<and>
       (\<exists>target. node_at t (base @ [hd (split_on CHR ''/'' name)]) = Some (Symlink target)))"
  using is_safe_database_name_iff [OF assms(1,2)] assms(3)
    unlink_location_safe [OF assms(2) safe_lexical [OF assms(3)]]
    open_location_safe [OF assms]
  by blast

theorem safe_name_confined_witness:
  "open_location names_fs (path_join ''/data'' ''b'') = Some [''data'', ''a''] \<and>
   unlink_location names_fs (path_join ''/data'' ''b'') = Some ([''data''] @ [''b''])"
proof -
  have safe: "is_safe_database_name names_fs ''/data'' ''b''" by code_simp
  have o: "open_location names_fs (path_join ''/data'' ''b'') = Some [''data'', ''a'']" by code_simp
  have u: "unlink_location names_fs (path_join ''/data'' ''b'') \<noteq> None" by code_simp
  show ?thesis
    using safe_name_confined [OF names_fs_ok names_fs_base safe] o u by auto
qed



text \<open>C37: Every accepted name is also accepted with a separator after it. That spelling is a
  different cache key, and \<open>DELETE_DB\<close> can never remove anything under it.\<close>

theorem safe_name_trailing_separator:
  assumes "fs_ok t" "resolve t folder = Some base" "is_safe_database_name t folder name"
  shows "is_safe_database_name t folder (name @ ''/'') \<and>
    remove_file t (path_join folder (name @ ''/'')) = None"
proof -
  note lex = safe_lexical [OF assms(3)]
  have split: "split_on CHR ''/'' (name @ ''/'') = split_on CHR ''/'' name @ ['''']"
    using split_on_app_sep [of "CHR ''/''" name "[]"] by simp
  have lex': "lexically_safe (name @ ''/'')"
    using lex unfolding lexically_safe_def split by simp
  have folder: "folder \<noteq> []" using assms(2) by (auto simp: resolve_def)
  have join: "path_join folder (name @ ''/'') = path_join folder name @ ''/''"
    using lexically_safe_relative [OF lex] lexically_safe_relative [OF lex']
    by (simp add: path_join_def)
  have direct: "\<forall>loc. resolve t (path_join folder name) = Some loc \<longrightarrow> (\<exists>m. loc = base @ [m])"
    using assms(3) unfolding is_safe_database_name_iff [OF assms(1,2)] by (rule conjunct2)
  have "\<exists>m. loc = base @ [m]"
    if "resolve t (path_join folder (name @ ''/'')) = Some loc" for loc
  proof -
    have "resolve t (path_join folder name) = Some loc"
      using resolve_trailing_separator [OF path_join_relative_nonempty [OF folder]] that
      unfolding join .
    then show ?thesis by (rule direct [rule_format])
  qed
  with lex' have "is_safe_database_name t folder (name @ ''/'')"
    unfolding is_safe_database_name_iff [OF assms(1,2)] by simp
  moreover have "unlink_location t (path_join folder (name @ ''/'')) = None"
    using unlink_location_safe [OF assms(2) lex']
    by (cases "unlink_location t (path_join folder (name @ ''/''))") (auto simp: proper_name_def)
  ultimately show ?thesis by (simp add: remove_file_def)
qed

theorem safe_name_trailing_separator_witness:
  "is_safe_database_name names_fs ''/data'' ''a/'' \<and>
   remove_file names_fs (path_join ''/data'' ''a/'') = None \<and>
   remove_file names_fs (path_join ''/data'' ''a'') \<noteq> None"
proof -
  have safe: "is_safe_database_name names_fs ''/data'' ''a''" by code_simp
  have "unlink_location names_fs (path_join ''/data'' ''a'') \<noteq> None" by code_simp
  then show ?thesis
    using safe_name_trailing_separator [OF names_fs_ok names_fs_base safe]
    by (simp add: remove_file_def)
qed

end
