(* ===== verification/Demo.thy ===== *)
theory Demo
  imports Handler
begin

text \<open>
  A small concrete instance of the external crates, for the witnesses: an engine that logs its
  calls and answers with a counter cursor (never ending for the query \<open>LOOP\<close>), a JSON
  parser that knows a few requests, and the key-repair matcher.
\<close>

definition demo_log :: "string \<Rightarrow> string list world \<Rightarrow> string list world" where
  "demo_log s w = w\<lparr>engine := engine w @ [s]\<rparr>"

text \<open>A connection is its path, a statement its query, a cursor and a row the rows left.\<close>

definition demo_sqlite :: "(string list, string, string, int, int) rusqlite" where
  "demo_sqlite =
     \<lparr>sq_open = (\<lambda>p w. (Inr p, demo_log (''open '' @ p) w)),
      sq_execute_batch = (\<lambda>c s w. (Inr (), demo_log s w)),
      sq_prepare = (\<lambda>c q w.
        if q = ''BAD''
        then (Inl (SqliteFailure \<lparr>extended_code = 0x101, ffi_display = ''?''\<rparr> (Some ''bad'')), w)
        else (Inr q, w)),
      sq_column_names = (\<lambda>q. [''n'', ''b'', ''n'']),
      sq_query = (\<lambda>q w. (Inr (if q = ''LOOP'' then -1 else 2), w)),
      sq_next = (\<lambda>r w. if r = 0 then (Inr None, r, w) else (Inr (Some r), r - 1, w)),
      sq_get_ref = (\<lambda>r i. Inr (if i = 1 then Blob [0x0A, 0xFF] else Integer (word_of_nat i))),
      sq_finalize = (\<lambda>q w. w),
      sq_close = (\<lambda>c w. demo_log (''close '' @ c) w)\<rparr>"

definition demo_request :: "string \<Rightarrow> string \<Rightarrow> string \<Rightarrow> json" where
  "demo_request cmd db query =
     json_object [(''cmd'', String cmd), (''db'', String db), (''query'', String query)]"

definition demo_requests :: "(string \<times> json) list" where
  "demo_requests =
     [(''login'', json_object [(''auth'', String ''pw''), (''cmd'', String ''LIST'')]),
      (''wrong'', json_object [(''auth'', String ''pv'')]),
      (''list'', json_object [(''cmd'', String ''list'')]),
      (''drop'', demo_request ''DROP'' ''a'' []),
      (''select'', demo_request ''QUERY'' ''a'' ''SELECT''),
      (''loop'', demo_request ''QUERY'' ''a'' ''LOOP''),
      (''bad'', demo_request ''QUERY'' ''a'' ''BAD''),
      (''up'', demo_request ''QUERY'' ''../etc'' ''SELECT''),
      (''delete'', demo_request ''DELETE_DB'' ''a'' [])]"

definition demo_externals :: "(string list, string, string, int, int) externals" where
  "demo_externals =
     \<lparr>sqlite = demo_sqlite,
      json_from_str = (\<lambda>s. ok_or ''expected value'' (map_of demo_requests s)),
      json_to_string = (\<lambda>v. Some (if v = result_json True then ''ok'' else ''other'')),
      regex_captures = (\<lambda>p s. key_captures s)\<rparr>"

definition demo_server :: "string \<Rightarrow> config" where
  "demo_server password =
     \<lparr>listen_addr = SocketAddr (V4 0x7F000001) 3333, workers = 4, databases_folder = ''/data'',
      client_max_packet_size = 16, busy_timeout_ms = 5000, auth = password, ip_whitelist = []\<rparr>"

text \<open>The folder \<open>/data\<close> with two databases, a sidecar file and a subfolder.\<close>

definition demo_files :: fs where
  "demo_files =
     \<lparr>entries = [([''data''], Dir), ([''data'', ''a''], File []), ([''data'', ''a-wal''], File []),
        ([''data'', ''link''], Symlink ''a''), ([''data'', ''old''], Dir)],
      cwd = [], rights = (\<lambda>_ _. True)\<rparr>"

definition demo_world :: "string list world" where
  "demo_world = \<lparr>files = demo_files, engine = []\<rparr>"

lemma demo_fs_ok: "fs_ok demo_files"
  by code_simp

lemma demo_base: "resolve demo_files ''/data'' = Some [''data'']"
  by code_simp

lemma demo_safe: "is_safe_database_name demo_files ''/data'' ''a''"
  by code_simp

lemma demo_simps [simp]:
  "files demo_world = demo_files" "databases_folder (demo_server pw) = ''/data''"
  "auth (demo_server pw) = pw" "sqlite demo_externals = demo_sqlite"
  "config (new_handler c) = c" "databases (new_handler c) = []"
  "authenticated (new_handler c) = False"
  by (simp_all add: demo_world_def demo_server_def demo_externals_def new_handler_def)

text \<open>The same engine without its endless query.\<close>

definition finite_externals :: "(string list, string, string, int, int) externals" where
  "finite_externals =
     demo_externals\<lparr>sqlite := demo_sqlite\<lparr>sq_query := (\<lambda>q w. (Inr 2, w))\<rparr>\<rparr>"

lemma finite_cursors:
  "\<forall>stmt w rows w'. sq_query (sqlite finite_externals) stmt w = (Inr rows, w') \<longrightarrow>
     cursor_ends (sqlite finite_externals) rows w'"
proof -
  have "cursor_yields (sqlite finite_externals) 2 w [2, 1] w" for w
    by (simp add: finite_externals_def demo_sqlite_def)
  then show ?thesis
    using cursor_yields_ends by (fastforce simp: finite_externals_def)
qed

lemma demo_trim: "trim ''SELECT'' \<noteq> []" "trim ''LOOP'' \<noteq> []" "trim ''BAD'' \<noteq> []"
  by code_simp+

lemma demo_request_get:
  "get_str (demo_request cmd db query) ''db'' = Some db"
  "get_str (demo_request cmd db query) ''query'' = Some query"
  "get_str (demo_request cmd db query) ''cmd'' = Some cmd"
  by (simp_all add: demo_request_def get_str_def)

lemma demo_endless: "r < 0 \<Longrightarrow> \<not> cursor_ends demo_sqlite r w"
proof
  assume "cursor_ends demo_sqlite r w" "r < 0"
  then show False
    by (induction rule: cursor_ends.induct) (auto simp: demo_sqlite_def)
qed

end
