(* ===== verification/Handler_Steps.thy ===== *)
theory Handler_Steps
  imports Handler_Names Demo
begin

text \<open>
  The behaviour of the single operations of the handler (\<open>src/src/handler.rs\<close>): the
  connection cache, \<open>QUERY\<close>, \<open>LIST\<close> and \<open>DELETE_DB\<close>, and the error responses.
\<close>

section \<open>The cache\<close>

lemma get_connection_cached:
  "map_of (databases h) db = Some c \<Longrightarrow> get_connection X h w db = Returns (Inr c, h, w)"
  by (simp add: get_connection_def)

text \<open>What a miss does: the result and the new state, always a return.\<close>

definition open_fresh ::
  "('q, 'c, 's, 'r, 'w) externals \<Rightarrow> 'c request_handler \<Rightarrow> 'q world \<Rightarrow> string \<Rightarrow>
     (rusqlite_error + 'c) \<times> 'c request_handler \<times> 'q world" where
  "open_fresh X h w db =
     (case sq_open (sqlite X) (path_join (databases_folder (config h)) db) w of
        (Inl e, w1) \<Rightarrow> (Inl e, h, w1)
      | (Inr conn, w1) \<Rightarrow>
          (case sq_execute_batch (sqlite X) conn (connection_pragmas (config h)) w1 of
             (Inl e, w2) \<Rightarrow> (Inl e, h, sq_close (sqlite X) conn w2)
           | (Inr _, w2) \<Rightarrow>
               (Inr conn, h\<lparr>databases := AList.update db conn (databases h)\<rparr>, w2)))"

lemma get_connection_miss:
  "map_of (databases h) db = None \<Longrightarrow> get_connection X h w db = Returns (open_fresh X h w db)"
  by (auto simp: get_connection_def open_fresh_def update_conv' split: prod.split sum.split)

lemma get_connection_Returns:
  "get_connection X h w db =
     Returns (case map_of (databases h) db of Some c \<Rightarrow> (Inr c, h, w) | None \<Rightarrow> open_fresh X h w db)"
  by (cases "map_of (databases h) db") (simp_all add: get_connection_cached get_connection_miss)

text \<open>A connection that was obtained is the cached one from then on.\<close>

lemma get_connection_obtained:
  assumes "get_connection X h w db = Returns (Inr c, h1, w1)"
  shows "map_of (databases h1) db = Some c" "config h1 = config h"
    "authenticated h1 = authenticated h" "map_of (databases h) db \<noteq> None \<Longrightarrow> h1 = h \<and> w1 = w"
  using assms
  by (auto simp: get_connection_Returns open_fresh_def update_conv'
      split: option.splits prod.splits sum.splits)

lemma get_connection_failed:
  "get_connection X h w db = Returns (Inl e, h1, w1) \<Longrightarrow> h1 = h"
  by (auto simp: get_connection_Returns open_fresh_def split: option.splits prod.splits sum.splits)

section \<open>What an operation keeps of the handler\<close>

text \<open>
  The cache is a map, and its keys are names that were safe; without a password nothing is ever
  authenticated.
\<close>

definition handler_ok :: "'c request_handler \<Rightarrow> bool" where
  "handler_ok h \<longleftrightarrow> hash_map_ok (databases h) \<and>
     (\<forall>db \<in> fst ` set (databases h). lexically_safe db) \<and>
     (auth (config h) = [] \<longrightarrow> \<not> authenticated h)"

lemma handler_ok_new [wf_intros]: "handler_ok (new_handler c)"
  by (simp add: handler_ok_def new_handler_def hash_map_ok_def)

lemma handler_ok_update:
  "handler_ok h \<Longrightarrow> lexically_safe db \<Longrightarrow>
     handler_ok (h\<lparr>databases := AList.update db c (databases h)\<rparr>)"
  by (auto simp: handler_ok_def dom_update hm.valid_insert)

lemma handler_ok_delete:
  assumes "handler_ok h"
  shows "handler_ok (h\<lparr>databases := AList.delete db (databases h)\<rparr>)"
proof -
  have "fst ` set (AList.delete db (databases h)) \<subseteq> fst ` set (databases h)"
    by (rule dom_delete_subset)
  then have "\<forall>k \<in> fst ` set (AList.delete db (databases h)). lexically_safe k"
    using assms unfolding handler_ok_def by blast
  with assms show ?thesis by (simp add: handler_ok_def hm.valid_remove)
qed

lemma handler_ok_get_connection:
  assumes "get_connection X h w db = Returns (r, h1, w1)" "handler_ok h" "lexically_safe db"
  shows "handler_ok h1 \<and> config h1 = config h \<and> authenticated h1 = authenticated h"
  using assms handler_ok_update [OF assms(2,3)]
  by (auto simp: get_connection_Returns open_fresh_def
      split: option.splits prod.splits sum.splits)

lemma run_query_handler:
  assumes "run_query X h w db query = Returns (r, h1, w1)"
  shows "h1 = h \<or> (\<exists>r w1. get_connection X h w db = Returns (r, h1, w1))"
proof (cases "trim query = []")
  case True
  with assms show ?thesis by (simp add: run_query_def)
next
  case False
  obtain c h2 w2 where g: "get_connection X h w db = Returns (c, h2, w2)"
    by (metis get_connection_Returns prod_cases3)
  with assms False have "h1 = h2"
    by (auto simp: run_query_def run_bind_Returns_iff split: sum.splits)
  with g show ?thesis by blast
qed

lemma handle_query_handler:
  assumes "handle_query X h w json = Returns (r, h1, w1)"
  shows "h1 = h \<or> (\<exists>db r' w'. is_safe_database_name (files w) (databases_folder (config h)) db \<and>
    get_connection X h w db = Returns (r', h1, w'))"
proof (cases "\<exists>db query. is_safe_database_name (files w) (databases_folder (config h)) db \<and>
    get_str json ''db'' = Some db \<and> get_str json ''query'' = Some query")
  case True
  then obtain db query where dq: "is_safe_database_name (files w) (databases_folder (config h)) db"
    "get_str json ''db'' = Some db" "get_str json ''query'' = Some query"
    by blast
  then obtain r' h2 w' where rq: "run_query X h w db query = Returns (r', h2, w')"
    using assms by (auto simp: handle_query_def run_bind_Returns_iff)
  then have "h2 = h1" using assms dq by (auto simp: handle_query_def split: sum.splits)
  with rq have "run_query X h w db query = Returns (r', h1, w')" by simp
  from run_query_handler [OF this] dq(1) show ?thesis by blast
next
  case False
  with assms show ?thesis
    by (auto simp: handle_query_def split: option.splits if_splits)
qed

lemma dispatch_handler:
  assumes "dispatch X h w req json = Returns (r, h1, w1)" "handler_ok h"
  shows "handler_ok h1 \<and> config h1 = config h \<and> authenticated h1 = authenticated h"
proof -
  have q: ?thesis if "handle_query X h w json = Returns (r, h1, w1)"
    using handle_query_handler [OF that] assms(2) handler_ok_get_connection safe_lexical by blast
  have d: ?thesis if "handle_delete_db X h w json = Returns (r, h1, w1)"
    using that assms(2) handler_ok_delete [OF assms(2)]
    by (auto simp: handle_delete_db_def Let_def split: option.splits if_splits)
  show ?thesis
    using assms q d
    by (auto simp: dispatch_def handle_list_def split: option.splits if_splits)
qed

lemma handle_request_handler:
  assumes "handle_request X h w req = Returns (r, h1, w1)" "handler_ok h"
  shows "handler_ok h1 \<and> config h1 = config h \<and> (authenticated h \<longrightarrow> authenticated h1)"
  using assms dispatch_handler [of X h w req _ r h1 w1]
  by (auto simp: handle_request_def handler_ok_def split: sum.splits if_splits)

section \<open>Returning\<close>

lemma run_statement_not_Panics: "run_statement X conn w query \<noteq> Panics"
  by (auto simp: run_statement_def run_bind_Panics_iff run_of_option_def Let_def
      split: sum.splits prod.splits option.splits)

lemma run_query_not_Panics: "run_query X h w db query \<noteq> Panics"
  by (auto simp: run_query_def run_bind_Panics_iff get_connection_Returns run_statement_not_Panics
      split: sum.splits prod.splits option.splits)

lemma handle_request_not_Panics: "handle_request X h w req \<noteq> Panics"
  by (auto simp: handle_request_def dispatch_def handle_query_def handle_list_def
      handle_delete_db_def run_bind_Panics_iff run_query_not_Panics Let_def
      split: sum.splits option.splits)

text \<open>Only a cursor that never ends keeps a request from returning.\<close>

lemma run_statement_Diverges_ends:
  assumes "run_statement X conn w query = Diverges"
  shows "\<exists>stmt w1 rows w2. sq_query (sqlite X) stmt w1 = (Inr rows, w2) \<and>
    \<not> cursor_ends (sqlite X) rows w2"
proof -
  obtain stmt w1 where p: "sq_prepare (sqlite X) conn query w = (Inr stmt, w1)"
    using assms by (auto simp: run_statement_def split: prod.splits sum.splits)
  obtain rows w2 where q: "sq_query (sqlite X) stmt w1 = (Inr rows, w2)"
    using assms by (auto simp: run_statement_def p Let_def split: prod.splits sum.splits)
  have "fetch_rows (sqlite X) (sq_column_names (sqlite X) stmt) [] rows w2 = None"
    using assms by (auto simp: run_statement_def p q Let_def run_bind_Diverges_iff run_of_option_def
        split: option.splits)
  then show ?thesis using q fetch_rows_ends [of "sqlite X" rows w2] by blast
qed

lemma run_query_Diverges:
  "run_query X h w db query = Diverges \<Longrightarrow> \<exists>conn w1. run_statement X conn w1 query = Diverges"
  by (auto simp: run_query_def run_bind_Diverges_iff get_connection_Returns
      split: if_splits sum.splits prod.splits option.splits)

lemma case_sum_Returns: "(case r of Inl e \<Rightarrow> Returns (f e) | Inr v \<Rightarrow> Returns (g v)) \<noteq> Diverges"
  by (cases r) auto

lemma handle_query_Diverges:
  "handle_query X h w json = Diverges \<Longrightarrow> \<exists>db query. run_query X h w db query = Diverges"
  by (auto simp: handle_query_def run_bind_Diverges_iff case_sum_Returns
      split: option.splits if_splits)

lemma handle_request_Diverges:
  assumes "handle_request X h w req = Diverges"
  shows "\<exists>stmt w1 rows w2. sq_query (sqlite X) stmt w1 = (Inr rows, w2) \<and>
    \<not> cursor_ends (sqlite X) rows w2"
proof -
  have "\<exists>json. handle_query X h w json = Diverges"
    using assms
    by (auto simp: handle_request_def dispatch_def handle_list_def handle_delete_db_def Let_def
        split: sum.splits option.splits if_splits)
  then obtain conn w1 query where "run_statement X conn w1 query = Diverges"
    using handle_query_Diverges run_query_Diverges by metis
  then show ?thesis by (rule run_statement_Diverges_ends)
qed

section \<open>The row loop's objects\<close>

text \<open>
  The object of a row with the given cells: each column under its name, and of columns with the
  same name the last.
\<close>

definition row_matches :: "string list \<Rightarrow> (nat \<Rightarrow> value_ref) \<Rightarrow> (string \<times> json) list \<Rightarrow> bool" where
  "row_matches columns cell obj \<longleftrightarrow> obj_ok obj \<and> fst ` set obj = set columns \<and>
     (\<forall>i < length columns. (\<forall>j < length columns. i < j \<longrightarrow> columns ! j \<noteq> columns ! i) \<longrightarrow>
        map_of obj (columns ! i) = Some (value_ref_to_json (cell i)))"

lemma row_object_matches:
  assumes "\<And>i. i < length columns \<Longrightarrow> sq_get_ref sq x i = Inr (cell i)"
  shows "\<exists>obj. row_object sq x 0 columns [] = Inr obj \<and> row_matches columns cell obj"
proof -
  let ?vs = "map cell [0..<length columns]"
  let ?obj = "obj_of_list (zip columns (map value_ref_to_json ?vs))"
  have "row_object sq x 0 columns [] = Inr ?obj"
    using row_object_eq [of columns sq x 0 ?vs] assms by (simp add: obj_of_list_def)
  moreover have "map_of ?obj (columns ! i) = Some (value_ref_to_json (cell i))"
    if "i < length columns" "\<forall>j < length columns. i < j \<longrightarrow> columns ! j \<noteq> columns ! i" for i
    using that map_of_rev_zip_last [of i columns "map value_ref_to_json ?vs"]
    by (simp add: map_of_obj_of_list)
  moreover have "fst ` set ?obj = set columns"
  proof -
    have "map fst (zip columns (map value_ref_to_json ?vs)) = columns" by simp
    then show ?thesis by (metis keys_obj_of_list set_map)
  qed
  ultimately show ?thesis
    by (auto simp: row_matches_def obj_ok_obj_of_list)
qed

lemma run_statement_yields:
  assumes "sq_prepare (sqlite X) conn query w = (Inr stmt, w1)"
    and "sq_query (sqlite X) stmt w1 = (Inr rows, w2)"
    and "cursor_yields (sqlite X) rows w2 xs w3"
    and "\<And>x i. x \<in> set xs \<Longrightarrow> i < length (sq_column_names (sqlite X) stmt) \<Longrightarrow>
      sq_get_ref (sqlite X) x i = Inr (cell x i)"
  shows "\<exists>objs. list_all2 (\<lambda>x. row_matches (sq_column_names (sqlite X) stmt) (cell x)) xs objs \<and>
    run_statement X conn w query =
      Returns (Inr (query_result (sq_column_names (sqlite X) stmt) (map Object objs)),
        sq_finalize (sqlite X) stmt w3)"
proof -
  let ?cols = "sq_column_names (sqlite X) stmt"
  have "\<forall>x \<in> set xs. \<exists>obj. row_object (sqlite X) x 0 ?cols [] = Inr obj \<and>
      row_matches ?cols (cell x) obj"
    using row_object_matches [of ?cols "sqlite X"] assms(4) by metis
  then obtain obj where obj: "\<And>x. x \<in> set xs \<Longrightarrow> row_object (sqlite X) x 0 ?cols [] = Inr (obj x)"
    "\<And>x. x \<in> set xs \<Longrightarrow> row_matches ?cols (cell x) (obj x)"
    by metis
  have "run_statement X conn w query =
      Returns (Inr (query_result ?cols (map Object (map obj xs))), sq_finalize (sqlite X) stmt w3)"
    using assms(1,2) fetch_rows_yields [OF assms(3) obj(1)]
    by (simp add: run_statement_def)
  moreover have "list_all2 (\<lambda>x. row_matches ?cols (cell x)) xs (map obj xs)"
    using obj(2) by (simp add: list.rel_map list.rel_refl_strong)
  ultimately show ?thesis by blast
qed

lemma handle_query_safe:
  assumes "get_str json ''db'' = Some db" "get_str json ''query'' = Some query"
    and "is_safe_database_name (files w) (databases_folder (config h)) db" "trim query \<noteq> []"
    and "get_connection X h w db = Returns (Inr conn, h1, w1)"
  shows "handle_query X h w json =
    run_bind (run_statement X conn w1 query) (\<lambda>(r, w2).
      Returns (case r of Inr value \<Rightarrow> value | Inl e \<Rightarrow> sql_error e json, h1, w2))"
  using assms
  by (cases "run_statement X conn w1 query")
    (auto simp: handle_query_def run_query_def split: sum.splits)

section \<open>What \<open>LIST\<close> sees\<close>

lemma proper_lexically_safe: "proper_name n \<Longrightarrow> lexically_safe n \<and> split_on CHR ''/'' n = [n]"
  by (simp add: proper_name_def lexically_safe_def split_on_no_sep)

lemma metadata_child:
  assumes "resolve t folder = Some base" "node_at t base = Some Dir" "rights t Search base"
    and "proper_name n" "node_at t (base @ [n]) = Some nd" "\<forall>target. nd \<noteq> Symlink target"
  shows "fs_metadata t (path_join folder n) = Some nd"
proof -
  note n = proper_lexically_safe [OF assms(4)]
  obtain l where "resolve t (path_join folder n) = walk t l base (split_on CHR ''/'' n)"
    using resolve_join [OF assms(1), of n] n assms(4) by (metis proper_name_def)
  also have "\<dots> = Some (base @ [n])"
    using assms n by (cases nd) (simp_all add: walk.simps(2) proper_name_def)
  finally show ?thesis using assms(5) by (simp add: fs_metadata_def)
qed

lemma read_dir_names:
  assumes "fs_ok t" "resolve t folder = Some base" "node_at t base = Some Dir" "rights t ReadDir base"
  shows "\<exists>names. read_dir t folder = Some names \<and>
    (\<forall>n. n \<in> set names \<longleftrightarrow> node_at t (base @ [n]) \<noteq> None)"
proof -
  let ?es = "filter (\<lambda>(loc, _). loc \<noteq> [] \<and> butlast loc = base) (entries t)"
  have "n \<in> set (map (last \<circ> fst) ?es) \<longleftrightarrow> node_at t (base @ [n]) \<noteq> None" for n
  proof
    assume "n \<in> set (map (last \<circ> fst) ?es)"
    then obtain loc nd where "(loc, nd) \<in> set (entries t)" "loc = base @ [n]"
      by (auto dest: append_butlast_last_id)
    then show "node_at t (base @ [n]) \<noteq> None" using entry_node_at [OF assms(1)] by auto
  next
    assume "node_at t (base @ [n]) \<noteq> None"
    then obtain nd where "(base @ [n], nd) \<in> set (entries t)" using node_at_entry by blast
    then show "n \<in> set (map (last \<circ> fst) ?es)" by force
  qed
  then show ?thesis using assms by (simp add: read_dir_def)
qed

lemma list_databases_mem:
  assumes "fs_ok t" "resolve t folder = Some base" "node_at t base = Some Dir"
    "rights t ReadDir base" "rights t Search base"
  shows "name \<in> set (list_databases t folder) \<longleftrightarrow>
    \<not> is_sqlite_sidecar_file name \<and>
    (\<exists>n. name = from_utf8_lossy (bytes_of_str n) \<and>
       ((\<exists>bs. node_at t (base @ [n]) = Some (File bs)) \<or>
        (\<exists>target. node_at t (base @ [n]) = Some (Symlink target)) \<and>
          fs_is_file t (path_join folder n)))"
proof -
  obtain names where names: "read_dir t folder = Some names"
    "\<And>n. n \<in> set names \<longleftrightarrow> node_at t (base @ [n]) \<noteq> None"
    using read_dir_names [OF assms(1-4)] by blast
  have "fs_is_file t (path_join folder n) \<longleftrightarrow> is_file_node nd"
    if "node_at t (base @ [n]) = Some nd" "\<forall>target. nd \<noteq> Symlink target" for n nd
  proof -
    have "proper_name n" using node_at_proper [OF assms(1), of "base @ [n]"] that by simp
    from metadata_child [OF assms(2,3,5) this that] show ?thesis by (simp add: fs_is_file_def)
  qed
  then have listed: "n \<in> set names \<and> fs_is_file t (path_join folder n) \<longleftrightarrow>
      (\<exists>bs. node_at t (base @ [n]) = Some (File bs)) \<or>
      (\<exists>target. node_at t (base @ [n]) = Some (Symlink target)) \<and> fs_is_file t (path_join folder n)"
    for n
    by (cases "node_at t (base @ [n])"; cases "the (node_at t (base @ [n]))")
      (auto simp: names(2) is_file_node_def)
  show ?thesis
    using listed by (auto simp: list_databases_def names(1))
qed

section \<open>What a query keeps of the world\<close>

text \<open>A condition on the world that no call of the engine breaks.\<close>

definition sqlite_keeps :: "('q, 'c, 's, 'r, 'w) rusqlite \<Rightarrow> ('q world \<Rightarrow> bool) \<Rightarrow> bool" where
  "sqlite_keeps sq I \<longleftrightarrow>
     (\<forall>w. I w \<longrightarrow>
        (\<forall>p. I (snd (sq_open sq p w))) \<and> (\<forall>c s. I (snd (sq_execute_batch sq c s w))) \<and>
        (\<forall>c q. I (snd (sq_prepare sq c q w))) \<and> (\<forall>s. I (snd (sq_query sq s w))) \<and>
        (\<forall>r. I (snd (snd (sq_next sq r w)))) \<and> (\<forall>s. I (sq_finalize sq s w)) \<and>
        (\<forall>c. I (sq_close sq c w)))"

lemma sqlite_keepsD:
  assumes "sqlite_keeps sq I" "I w"
  shows "sq_open sq p w = (ro, w1) \<Longrightarrow> I w1" "sq_execute_batch sq c b w = (re, w1) \<Longrightarrow> I w1"
    "sq_prepare sq c q w = (rp, w1) \<Longrightarrow> I w1" "sq_query sq s w = (rq, w1) \<Longrightarrow> I w1"
    "sq_next sq r w = (rn, r1, w1) \<Longrightarrow> I w1" "I (sq_finalize sq s w)" "I (sq_close sq c w)"
  using assms unfolding sqlite_keeps_def by (metis snd_conv)+

lemma get_connection_keeps:
  assumes "sqlite_keeps (sqlite X) I" "get_connection X h w db = Returns (r, h1, w1)" "I w"
  shows "I w1"
  using assms(2,3)
  by (auto simp: get_connection_Returns open_fresh_def dest: sqlite_keepsD [OF assms(1)]
      intro: sqlite_keepsD(7) [OF assms(1)] split: option.splits prod.splits sum.splits)

lemma fetch_rows_keeps:
  "fetch_rows sq columns acc rows w = Some r \<Longrightarrow> sqlite_keeps sq I \<Longrightarrow> I w \<Longrightarrow> I (snd r)"
proof (induction sq columns acc rows w r rule: fetch_rows.raw_induct [rotated, consumes 1])
  case (1 loop sq columns acc rows w r)
  obtain res rows' w' where n: "sq_next sq rows w = (res, rows', w')"
    by (cases "sq_next sq rows w")
  have I: "I w'" using sqlite_keepsD(5) [OF "1.prems" n] .
  show ?case
  proof (cases res rule: sum_option_cases)
    case (3 x)
    then show ?thesis
      using n "1.hyps" "1.IH" [OF _ "1.prems"(1) I] I by (auto split: sum.splits)
  qed (use n "1.hyps" I in auto)
qed

lemma run_statement_keeps:
  assumes "sqlite_keeps (sqlite X) I" "run_statement X conn w query = Returns (r, w1)" "I w"
  shows "I w1"
proof -
  note keeps = sqlite_keepsD [OF assms(1)]
  obtain rp wp where p: "sq_prepare (sqlite X) conn query w = (rp, wp)"
    by (cases "sq_prepare (sqlite X) conn query w")
  have wp: "I wp" by (rule keeps(3) [OF assms(3) p])
  show ?thesis
  proof (cases rp)
    case (Inl e)
    then show ?thesis using p assms(2) wp by (simp add: run_statement_def)
  next
    case (Inr stmt)
    obtain rq wq where q: "sq_query (sqlite X) stmt wp = (rq, wq)"
      by (cases "sq_query (sqlite X) stmt wp")
    have wq: "I wq" by (rule keeps(4) [OF wp q])
    show ?thesis
    proof (cases rq)
      case (Inl e)
      then show ?thesis using p q Inr assms(2) keeps(6) [OF wq] by (auto simp: run_statement_def Let_def)
    next
      case (Inr rows)
      note rows = this
      let ?cs = "sq_column_names (sqlite X) stmt"
      obtain t where t: "fetch_rows (sqlite X) ?cs [] rows wq = Some t"
        using p q \<open>rp = Inr stmt\<close> rows assms(2)
        by (cases "fetch_rows (sqlite X) ?cs [] rows wq") (auto simp: run_statement_def Let_def)
      have "I (snd t)" by (rule fetch_rows_keeps [OF t assms(1) wq])
      then show ?thesis
        using p q \<open>rp = Inr stmt\<close> rows t assms(2) keeps(6)
        by (cases t) (auto simp: run_statement_def Let_def)
    qed
  qed
qed

lemma run_query_keeps:
  assumes "sqlite_keeps (sqlite X) I" "run_query X h w db query = Returns (r, h1, w1)" "I w"
  shows "I w1"
proof (cases "trim query = []")
  case True
  then show ?thesis using assms by (simp add: run_query_def)
next
  case False
  obtain rc h2 w2 where g: "get_connection X h w db = Returns (rc, h2, w2)"
    by (metis get_connection_Returns prod_cases3)
  have w2: "I w2" by (rule get_connection_keeps [OF assms(1) g assms(3)])
  show ?thesis
    using False assms(2) g w2 run_statement_keeps [OF assms(1) _ w2]
    by (cases rc) (auto simp: run_query_def run_bind_Returns_iff)
qed

lemma handle_query_keeps:
  assumes "sqlite_keeps (sqlite X) I" "handle_query X h w json = Returns (v, h1, w1)" "I w"
  shows "I w1"
proof (cases "\<exists>db query. get_str json ''db'' = Some db \<and> get_str json ''query'' = Some query \<and>
    is_safe_database_name (files w) (databases_folder (config h)) db")
  case True
  then obtain db query r h2 w2 where q: "run_query X h w db query = Returns (r, h2, w2)"
    and rest: "(case r of Inr value \<Rightarrow> Returns (value, h2, w2) | Inl e \<Rightarrow> Returns (sql_error e json, h2, w2)) =
      Returns (v, h1, w1)"
    using assms(2) by (auto simp: handle_query_def run_bind_Returns_iff)
  then have "w1 = w2" by (cases r) simp_all
  then show ?thesis using run_query_keeps [OF assms(1) q assms(3)] by simp
next
  case False
  then show ?thesis
    using assms(2,3) by (auto simp: handle_query_def split: option.splits if_splits)
qed

end
