(* ===== verification/Handler_Commands.thy ===== *)
theory Handler_Commands
  imports Handler_Steps
begin

text \<open>The properties of \<open>QUERY\<close>, \<open>LIST\<close> and \<open>DELETE_DB\<close> (\<open>src/src/handler.rs\<close>).\<close>

section \<open>\<open>QUERY\<close>\<close>

text \<open>C9: A query on a safe database whose cursor yields finitely many rows is answered with the
  column names in \<open>SELECT\<close> order and one object per row: its keys are the column names, sorted,
  each with the encoded value of the last column of that name. The statement is finalized and
  only the connection cache of the handler has changed.\<close>

theorem query_rows:
  assumes "get_str json ''db'' = Some db" "get_str json ''query'' = Some query"
    and "is_safe_database_name (files w) (databases_folder (config h)) db" "trim query \<noteq> []"
    and "get_connection X h w db = Returns (Inr conn, h1, w1)"
    and "sq_prepare (sqlite X) conn query w1 = (Inr stmt, w2)"
    and "sq_query (sqlite X) stmt w2 = (Inr rows, w3)"
    and "cursor_yields (sqlite X) rows w3 xs w4"
    and "\<And>x i. x \<in> set xs \<Longrightarrow> i < length (sq_column_names (sqlite X) stmt) \<Longrightarrow>
      sq_get_ref (sqlite X) x i = Inr (cell x i)"
  shows "\<exists>objs. list_all2 (\<lambda>x. row_matches (sq_column_names (sqlite X) stmt) (cell x)) xs objs \<and>
    handle_query X h w json =
      Returns (json_object
          [(''columns'', Array (map String (sq_column_names (sqlite X) stmt))),
           (''data'', Array (map Object objs))],
        h1, sq_finalize (sqlite X) stmt w4)"
  using run_statement_yields [OF assms(6-9)]
  by (auto simp: handle_query_safe [OF assms(1-5)] query_result_def)

lemma demo_get_connection:
  "get_connection demo_externals (new_handler (demo_server pw)) demo_world ''a'' =
     Returns (Inr ''/data/a'', (new_handler (demo_server pw))\<lparr>databases := [(''a'', ''/data/a'')]\<rparr>,
       demo_log (connection_pragmas (demo_server pw)) (demo_log ''open /data/a'' demo_world))"
  by (simp add: get_connection_miss open_fresh_def demo_sqlite_def path_join_def is_absolute_def)

theorem query_rows_witness:
  "\<exists>o1 o2. row_matches [''n'', ''b'', ''n''] (\<lambda>i. if i = 1 then Blob [0x0A, 0xFF] else Integer (word_of_nat i)) o1 \<and>
    fst (case handle_query demo_externals (new_handler (demo_server [])) demo_world
        (demo_request ''QUERY'' ''a'' ''SELECT'') of Returns r \<Rightarrow> r) =
      json_object [(''columns'', Array (map String [''n'', ''b'', ''n''])), (''data'', Array [Object o1, Object o2])]"
proof -
  let ?w1 = "demo_log (connection_pragmas (demo_server [])) (demo_log ''open /data/a'' demo_world)"
  let ?cell = "\<lambda>x i. if i = 1 then Blob [0x0A, 0xFF] else Integer (word_of_nat i)"
  have "cursor_yields demo_sqlite 2 ?w1 [2, 1] ?w1"
    by (simp add: demo_sqlite_def)
  with query_rows [of "demo_request ''QUERY'' ''a'' ''SELECT''" "''a''" "''SELECT''" demo_world
      "new_handler (demo_server [])" demo_externals "''/data/a''" _ ?w1 "''SELECT''" ?w1 2 ?w1 "[2, 1]" ?w1 ?cell,
      OF demo_request_get(1,2) _ demo_trim(1) demo_get_connection]
  obtain objs where "list_all2 (\<lambda>x. row_matches [''n'', ''b'', ''n''] (?cell x)) [2, 1 :: int] objs"
    "fst (case handle_query demo_externals (new_handler (demo_server [])) demo_world
        (demo_request ''QUERY'' ''a'' ''SELECT'') of Returns r \<Rightarrow> r) =
      json_object [(''columns'', Array (map String [''n'', ''b'', ''n''])), (''data'', Array (map Object objs))]"
    using demo_safe by (auto simp: demo_sqlite_def)
  moreover from this obtain o1 o2 where "objs = [o1, o2]" by (auto simp: list_all2_Cons1)
  ultimately show ?thesis by auto
qed

text \<open>C19: Nothing bounds a query: once its statement runs, the request returns exactly if the
  cursor comes to an end, and otherwise never returns.\<close>

theorem query_returns_iff:
  assumes "get_str json ''db'' = Some db" "get_str json ''query'' = Some query"
    and "is_safe_database_name (files w) (databases_folder (config h)) db" "trim query \<noteq> []"
    and "get_connection X h w db = Returns (Inr conn, h1, w1)"
    and "sq_prepare (sqlite X) conn query w1 = (Inr stmt, w2)"
    and "sq_query (sqlite X) stmt w2 = (Inr rows, w3)"
    and "\<And>x i. i < length (sq_column_names (sqlite X) stmt) \<Longrightarrow>
      \<exists>v. sq_get_ref (sqlite X) x i = Inr v"
  shows "if cursor_ends (sqlite X) rows w3 then \<exists>r. handle_query X h w json = Returns r
    else handle_query X h w json = Diverges"
proof -
  let ?cols = "sq_column_names (sqlite X) stmt"
  let ?fetch = "fetch_rows (sqlite X) ?cols [] rows w3"
  have "\<exists>obj. row_object (sqlite X) x 0 ?cols [] = Inr obj" for x
  proof -
    have "sq_get_ref (sqlite X) x i = Inr (projr (sq_get_ref (sqlite X) x i))"
      if "i < length ?cols" for i
      using assms(8) [OF that, of x] by auto
    from row_object_matches [OF this] show ?thesis by blast
  qed
  then have iff: "?fetch \<noteq> None \<longleftrightarrow> cursor_ends (sqlite X) rows w3"
    using fetch_rows_returns_ends fetch_rows_ends by (metis not_Some_eq)
  show ?thesis
  proof (cases ?fetch)
    case None
    with iff show ?thesis
      by (simp add: handle_query_safe [OF assms(1-5)] run_statement_def assms(6,7))
  next
    case (Some r)
    with iff show ?thesis
      by (cases r) (simp add: handle_query_safe [OF assms(1-5)] run_statement_def assms(6,7))
  qed
qed

theorem query_returns_iff_witness:
  "handle_query demo_externals (new_handler (demo_server [])) demo_world
     (demo_request ''QUERY'' ''a'' ''LOOP'') = Diverges"
proof -
  let ?w1 = "demo_log (connection_pragmas (demo_server [])) (demo_log ''open /data/a'' demo_world)"
  show ?thesis
    using query_returns_iff [of "demo_request ''QUERY'' ''a'' ''LOOP''" "''a''" "''LOOP''" demo_world
        "new_handler (demo_server [])" demo_externals "''/data/a''" _ ?w1 "''LOOP''" ?w1 "-1" ?w1,
        OF demo_request_get(1,2) _ demo_trim(2) demo_get_connection] demo_safe
      demo_endless [of "-1" ?w1]
    by (simp add: demo_sqlite_def)
qed

text \<open>What a query can fail with.\<close>

lemma row_object_error:
  "row_object sq x i names obj = Inl e \<Longrightarrow> \<exists>err. e = map_sqlite_err err"
  by (induction names arbitrary: i obj) (auto split: sum.splits)

lemma fetch_rows_error:
  "fetch_rows sq columns acc rows w = Some r \<Longrightarrow> fst r = Inl e \<Longrightarrow> \<exists>err. e = map_sqlite_err err"
proof (induction sq columns acc rows w r rule: fetch_rows.raw_induct [rotated, consumes 1])
  case (1 loop sq columns acc rows w r)
  obtain res rows' w' where n: "sq_next sq rows w = (res, rows', w')"
    by (cases "sq_next sq rows w")
  show ?case
  proof (cases res rule: sum_option_cases)
    case (3 x)
    then show ?thesis
      using n "1.hyps" "1.IH" [OF _ "1.prems"] "1.prems" row_object_error [of sq x 0 columns "[]"]
      by (auto split: sum.splits)
  qed (use n "1.hyps" "1.prems" in auto)
qed

lemma run_statement_result:
  assumes "run_statement X conn w query = Returns (r, w1)"
  shows "(\<exists>err. r = Inl (map_sqlite_err err)) \<or> (\<exists>columns rows. r = Inr (query_result columns rows))"
proof -
  obtain rp wp where p: "sq_prepare (sqlite X) conn query w = (rp, wp)"
    by (cases "sq_prepare (sqlite X) conn query w")
  show ?thesis
  proof (cases rp)
    case (Inl e)
    then show ?thesis using p assms by (auto simp: run_statement_def)
  next
    case stmt: (Inr stmt)
    obtain rq wq where q: "sq_query (sqlite X) stmt wp = (rq, wq)"
      by (cases "sq_query (sqlite X) stmt wp")
    show ?thesis
    proof (cases rq)
      case (Inl e)
      then show ?thesis using p q stmt assms by (auto simp: run_statement_def Let_def)
    next
      case rows: (Inr rows)
      let ?cs = "sq_column_names (sqlite X) stmt"
      obtain t where t: "fetch_rows (sqlite X) ?cs [] rows wq = Some t"
        using p q stmt rows assms
        by (cases "fetch_rows (sqlite X) ?cs [] rows wq") (auto simp: run_statement_def Let_def)
      then have r: "r = (case fst t of Inl e \<Rightarrow> Inl e | Inr rows \<Rightarrow> Inr (query_result ?cs rows))"
        using p q stmt rows assms by (cases t) (auto simp: run_statement_def Let_def)
      show ?thesis using r fetch_rows_error [OF t] by (cases "fst t") auto
    qed
  qed
qed

lemma map_sqlite_err_byte: "0 \<le> sint (fst (map_sqlite_err e)) \<and> sint (fst (map_sqlite_err e)) < 256"
  by (cases e) (simp_all add: sint_primary_code)

lemma query_result_columns: "value_get (query_result columns rows) ''columns'' = Some (Array (map String columns))"
  by (simp add: query_result_def)

lemma run_query_result:
  assumes "run_query X h w db query = Returns (Inr v, h1, w1)"
  shows "\<exists>columns rows. v = query_result columns rows"
proof -
  have n: "trim query \<noteq> []" using assms by (auto simp: run_query_def)
  obtain c h2 w2 where g: "get_connection X h w db = Returns (c, h2, w2)"
    by (metis get_connection_Returns prod_cases3)
  then obtain conn where "run_statement X conn w2 query = Returns (Inr v, w1)"
    using assms n by (cases c) (auto simp: run_query_def run_bind_Returns_iff)
  from run_statement_result [OF this] show ?thesis by simp
qed

text \<open>A failed query on a safe database: the connection it leaves behind.\<close>

lemma run_query_failed:
  assumes "run_query X h w db query = Returns (Inl e, h1, w1)"
  shows "0 \<le> sint (fst e) \<and> sint (fst e) < 256 \<and>
    (trim query = [] \<longrightarrow> e = (21, ''empty query'') \<and> h1 = h \<and> w1 = w) \<and>
    (h1 = h \<or>
     map_of (databases h) db = None \<and>
     (\<exists>conn wo wp. sq_open (sqlite X) (path_join (databases_folder (config h)) db) w = (Inr conn, wo) \<and>
        sq_execute_batch (sqlite X) conn (connection_pragmas (config h)) wo = (Inr (), wp) \<and>
        h1 = h\<lparr>databases := AList.update db conn (databases h)\<rparr>))"
proof (cases "trim query = []")
  case True
  with assms show ?thesis by (auto simp: run_query_def SQLITE_MISUSE_def)
next
  case False
  obtain c h2 w2 where g: "get_connection X h w db = Returns (c, h2, w2)"
    by (metis get_connection_Returns prod_cases3)
  then have h: "h1 = h2" and "\<exists>err. e = map_sqlite_err err"
    using assms False run_statement_result [of X _ w2 query]
    by (auto simp: run_query_def run_bind_Returns_iff split: sum.splits) blast
  then have "0 \<le> sint (fst e) \<and> sint (fst e) < 256" using map_sqlite_err_byte by auto
  with g h False show ?thesis
    by (auto simp: get_connection_Returns open_fresh_def split: option.splits prod.splits sum.splits)
qed

text \<open>C27: A query that is not answered with columns and rows is answered with an error that tells
  the cause, and its damage is contained. Code 3 is a \<open>db\<close> that is missing, no string or unsafe,
  code 4 a \<open>query\<close> that is missing or no string, both with nothing touched. Any other failure, be it
  of the open, the pragmas, the statement or a row, is an SQL error whose code is a byte (21 for
  an empty query, with nothing touched); the login state stays, and so does the connection cache,
  but for one connection to this database that was opened with its pragmas when there was none.\<close>

theorem query_failure_contained:
  assumes "handle_query X h w json = Returns (v, h1, w1)" "value_get v ''columns'' = None"
  shows "(get_str json ''db'' = None \<or>
      (\<exists>db. get_str json ''db'' = Some db \<and> get_str json ''query'' \<noteq> None \<and>
         \<not> is_safe_database_name (files w) (databases_folder (config h)) db)) \<and>
      v = generic_error 3 json \<and> h1 = h \<and> w1 = w \<or>
    (get_str json ''db'' \<noteq> None \<and> get_str json ''query'' = None) \<and>
      v = generic_error 4 json \<and> h1 = h \<and> w1 = w \<or>
    (\<exists>db query code message. get_str json ''db'' = Some db \<and> get_str json ''query'' = Some query \<and>
      is_safe_database_name (files w) (databases_folder (config h)) db \<and>
      v = sql_error (code, message) json \<and> 0 \<le> sint code \<and> sint code < 256 \<and>
      (trim query = [] \<longrightarrow> code = 21 \<and> h1 = h \<and> w1 = w) \<and>
      config h1 = config h \<and> authenticated h1 = authenticated h \<and>
      (\<forall>name. name \<noteq> db \<or> map_of (databases h) name \<noteq> None \<longrightarrow>
         map_of (databases h1) name = map_of (databases h) name) \<and>
      (\<forall>conn. map_of (databases h1) db = Some conn \<longrightarrow> map_of (databases h) db = None \<longrightarrow>
         (\<exists>wo wp. sq_open (sqlite X) (path_join (databases_folder (config h)) db) w = (Inr conn, wo) \<and>
            sq_execute_batch (sqlite X) conn (connection_pragmas (config h)) wo = (Inr (), wp))))"
proof (cases "\<exists>db query. get_str json ''db'' = Some db \<and> get_str json ''query'' = Some query \<and>
    is_safe_database_name (files w) (databases_folder (config h)) db")
  case True
  then obtain db query where dq: "get_str json ''db'' = Some db" "get_str json ''query'' = Some query"
    "is_safe_database_name (files w) (databases_folder (config h)) db" by blast
  then obtain r h2 w2 where q: "run_query X h w db query = Returns (r, h2, w2)"
    and rest: "(case r of Inr value \<Rightarrow> Returns (value, h2, w2) | Inl e \<Rightarrow> Returns (sql_error e json, h2, w2)) =
      Returns (v, h1, w1)"
    using assms(1) by (auto simp: handle_query_def run_bind_Returns_iff)
  have "r \<noteq> Inr v"
    using run_query_result [of X h w db query v h2 w2] q assms(2) query_result_columns by fastforce
  then obtain e where e: "r = Inl e" "v = sql_error e json" "h2 = h1" "w2 = w1"
    using rest by (cases r) auto
  note f = run_query_failed [OF q [unfolded e]]
  show ?thesis
    by (intro disjI2 exI [of _ db] exI [of _ query] exI [of _ "fst e"] exI [of _ "snd e"])
      (use f e dq in \<open>auto simp: update_conv'\<close>)
next
  case False
  with assms(1) show ?thesis
    by (auto simp: handle_query_def NO_DATABASE_SPECIFIED_def ERROR_READING_FROM_CLIENT_def
        split: option.splits if_splits)
qed

theorem query_failure_contained_witness:
  "\<exists>h1 w1. handle_query demo_externals (new_handler (demo_server [])) demo_world
      (demo_request ''QUERY'' ''a'' ''BAD'') =
    Returns (sql_error (1, ''bad'') (demo_request ''QUERY'' ''a'' ''BAD''), h1, w1) \<and>
    authenticated h1 = False \<and> map_of (databases h1) ''b'' = None"
proof -
  have code: "map_sqlite_err (SqliteFailure \<lparr>extended_code = 0x101, ffi_display = ''?''\<rparr> (Some ''bad'')) = (1, ''bad'')"
    by code_simp
  let ?h = "new_handler (demo_server []) :: string request_handler"
  let ?w1 = "demo_log (connection_pragmas (demo_server [])) (demo_log ''open /data/a'' demo_world)"
  let ?e = "SqliteFailure \<lparr>extended_code = 0x101, ffi_display = ''?''\<rparr> (Some ''bad'')"
  have p: "sq_prepare demo_sqlite ''/data/a'' ''BAD'' ?w1 = (Inl ?e, ?w1)"
    by (simp add: demo_sqlite_def)
  have "run_statement demo_externals ''/data/a'' ?w1 ''BAD'' = Returns (Inl (1, ''bad''), ?w1)"
    using p code by (simp add: run_statement_def)
  with handle_query_safe [of "demo_request ''QUERY'' ''a'' ''BAD''" "''a''" "''BAD''" demo_world ?h demo_externals,
      OF _ _ _ _ demo_get_connection [of "[]"]]
  obtain h1 w1 where q: "handle_query demo_externals ?h demo_world (demo_request ''QUERY'' ''a'' ''BAD'') =
      Returns (sql_error (1, ''bad'') (demo_request ''QUERY'' ''a'' ''BAD''), h1, w1)"
    using demo_safe demo_trim by (auto simp: demo_request_get)
  have d: "get_str (demo_request ''QUERY'' ''a'' ''BAD'') ''db'' = Some ''a''" by (simp add: demo_request_get)
  have v: "value_get (sql_error e r) ''columns'' = None" for e r by (simp add: sql_error_def)
  have g: "sql_error e r \<noteq> generic_error k r" for e r k
  proof
    assume "sql_error e r = generic_error k r"
    then have "value_get (sql_error e r) ''error_code'' = value_get (generic_error k r) ''error_code''" by simp
    then show False by (simp add: sql_error_def generic_error_def)
  qed
  from query_failure_contained [OF q v] d g q show ?thesis
    by (auto simp: new_handler_def)
qed

text \<open>The connection a client gets for a database is opened once, with its pragmas: asking
  again, in whatever state the world then is, gives the same connection and touches nothing. A
  failed attempt caches nothing, and closes what it opened.\<close>

theorem connection_cached:
  assumes "get_connection X h w db = Returns (r, h1, w1)"
  shows "(\<forall>c. r = Inr c \<longrightarrow> get_connection X h1 w2 db = Returns (Inr c, h1, w2) \<and>
      (map_of (databases h) db = None \<longrightarrow>
        (\<exists>wo. sq_open (sqlite X) (path_join (databases_folder (config h)) db) w = (Inr c, wo) \<and>
           sq_execute_batch (sqlite X) c (connection_pragmas (config h)) wo = (Inr (), w1)))) \<and>
    (\<forall>e. r = Inl e \<longrightarrow> h1 = h \<and> map_of (databases h) db = None \<and>
      (sq_open (sqlite X) (path_join (databases_folder (config h)) db) w = (Inl e, w1) \<or>
       (\<exists>c wo wp. sq_open (sqlite X) (path_join (databases_folder (config h)) db) w = (Inr c, wo) \<and>
          sq_execute_batch (sqlite X) c (connection_pragmas (config h)) wo = (Inl e, wp) \<and>
          w1 = sq_close (sqlite X) c wp)))"
  using assms
  by (auto simp: get_connection_Returns open_fresh_def update_conv'
      split: option.splits prod.splits sum.splits)

theorem connection_cached_witness:
  "\<exists>h1 w1. get_connection demo_externals (new_handler (demo_server [])) demo_world ''a'' =
      Returns (Inr ''/data/a'', h1, w1) \<and>
    get_connection demo_externals h1 demo_world ''a'' = Returns (Inr ''/data/a'', h1, demo_world)"
  using connection_cached [OF demo_get_connection [of "[]"], of demo_world] demo_get_connection [of "[]"]
  by blast

section \<open>\<open>DELETE_DB\<close> and \<open>LIST\<close>\<close>

text \<open>C20: \<open>DELETE_DB\<close> on a safe name answers \<open>ok\<close> exactly if the system lets it unlink
  that entry of the databases folder; then this entry and no other is gone, the connection of
  that name has left the cache and is closed after the removal. Otherwise nothing changes.\<close>

theorem delete_db_effect:
  assumes "get_str json ''db'' = Some db" "resolve (files w) (databases_folder (config h)) = Some base"
    and "is_safe_database_name (files w) (databases_folder (config h)) db"
  shows "case remove_file (files w) (path_join (databases_folder (config h)) db) of
      None \<Rightarrow> handle_delete_db X h w json = Returns (result_json False, h, w)
    | Some t \<Rightarrow>
        (\<forall>loc. node_at t loc = (if loc = base @ [db] then None else node_at (files w) loc)) \<and>
        node_at (files w) (base @ [db]) \<noteq> None \<and>
        (\<exists>h1 w1. handle_delete_db X h w json = Returns (result_json True, h1, w1) \<and>
           config h1 = config h \<and> authenticated h1 = authenticated h \<and>
           map_of (databases h1) = (map_of (databases h))(db := None) \<and>
           w1 = (case map_of (databases h) db of
                   Some conn \<Rightarrow> sq_close (sqlite X) conn (w\<lparr>files := t\<rparr>)
                 | None \<Rightarrow> w\<lparr>files := t\<rparr>))"
proof (cases "unlink_location (files w) (path_join (databases_folder (config h)) db)")
  case None
  with assms show ?thesis by (simp add: handle_delete_db_def remove_file_def)
next
  case (Some loc)
  then obtain t where t: "remove_file (files w) (path_join (databases_folder (config h)) db) = Some t"
    by (auto simp: remove_file_def)
  have loc: "loc = base @ [db]"
    using unlink_location_safe [OF assms(2) safe_lexical [OF assms(3)] Some] by simp
  have "node_at (files w) loc \<noteq> None"
    using Some by (auto simp: unlink_location_def Let_def split: if_splits option.splits)
  with t loc show ?thesis
    using assms node_at_remove_file [OF t Some]
    by (auto simp: handle_delete_db_def Let_def delete_conv')
qed

lemma demo_remove:
  "\<exists>t. remove_file demo_files (path_join ''/data'' ''a'') = Some t"
proof -
  have "unlink_location demo_files (path_join ''/data'' ''a'') \<noteq> None" by code_simp
  then show ?thesis by (auto simp: remove_file_def)
qed

theorem delete_db_effect_witness:
  "\<exists>h1 w1. handle_delete_db demo_externals (new_handler (demo_server [])) demo_world
      (demo_request ''DELETE_DB'' ''a'' []) = Returns (result_json True, h1, w1)"
  using delete_db_effect [of "demo_request ''DELETE_DB'' ''a'' []" "''a''" demo_world
      "new_handler (demo_server [])" "[''data'']" demo_externals]
    demo_remove demo_base demo_safe
  by (auto simp: demo_request_get)

text \<open>C30: \<open>LIST\<close> names the regular files directly in the databases folder, links to regular
  files included, that are not sidecar files, and nothing else; it changes nothing.\<close>

theorem list_spec:
  assumes "fs_ok (files w)" "resolve (files w) (databases_folder (config h)) = Some base"
    and "node_at (files w) base = Some Dir" "rights (files w) ReadDir base" "rights (files w) Search base"
  shows "\<exists>names. handle_list h w = Returns (json_object [(''list'', Array (map String names))], h, w) \<and>
    (\<forall>name. name \<in> set names \<longleftrightarrow>
       \<not> (suffix ''-wal'' name \<or> suffix ''-shm'' name \<or> suffix ''-journal'' name) \<and>
       (\<exists>n. name = from_utf8_lossy (bytes_of_str n) \<and>
          ((\<exists>bs. node_at (files w) (base @ [n]) = Some (File bs)) \<or>
           (\<exists>target. node_at (files w) (base @ [n]) = Some (Symlink target)) \<and>
             fs_is_file (files w) (path_join (databases_folder (config h)) n))))"
  using list_databases_mem [OF assms]
  by (auto simp: handle_list_def is_sqlite_sidecar_file_def)

theorem list_spec_witness:
  "\<exists>names. handle_list (new_handler (demo_server []) :: string request_handler) demo_world =
      Returns (json_object [(''list'', Array (map String names))], new_handler (demo_server []), demo_world) \<and>
    from_utf8_lossy (bytes_of_str ''a'') \<in> set names \<and> ''a-wal'' \<notin> set names"
proof -
  have d: "node_at demo_files [''data''] = Some Dir" "node_at demo_files ([''data''] @ [''a'']) = Some (File [])"
    by code_simp+
  have r: "rights demo_files r l" for r l by (simp add: demo_files_def)
  have s: "\<not> suffix ''-wal'' ''a''" "\<not> suffix ''-shm'' ''a''" "\<not> suffix ''-journal'' ''a''"
    "suffix ''-wal'' ''a-wal''" "from_utf8_lossy (bytes_of_str ''a'') = ''a''"
    by code_simp+
  obtain names where names: "handle_list (new_handler (demo_server []) :: string request_handler) demo_world =
      Returns (json_object [(''list'', Array (map String names))], new_handler (demo_server []), demo_world)"
    and mem: "\<And>name. name \<in> set names \<longleftrightarrow>
      \<not> (suffix ''-wal'' name \<or> suffix ''-shm'' name \<or> suffix ''-journal'' name) \<and>
      (\<exists>n. name = from_utf8_lossy (bytes_of_str n) \<and>
        ((\<exists>bs. node_at demo_files ([''data''] @ [n]) = Some (File bs)) \<or>
         (\<exists>target. node_at demo_files ([''data''] @ [n]) = Some (Symlink target)) \<and>
           fs_is_file demo_files (path_join ''/data'' n)))"
    using list_spec [of demo_world "new_handler (demo_server []) :: string request_handler" "[''data'']"] demo_fs_ok demo_base d(1) r
    by auto
  have "''a'' \<in> set names" unfolding mem using d(2) s by metis
  moreover have "''a-wal'' \<notin> set names" unfolding mem using s by blast
  ultimately show ?thesis using names s by metis
qed

text \<open>A deleted database is no longer listed, as long as the folder still resolves and holds
  no name that is not UTF-8.\<close>

theorem deleted_not_listed:
  assumes "fs_ok (files w)" "resolve (files w) folder = Some base"
    and "is_safe_database_name (files w) folder db"
    and "remove_file (files w) (path_join folder db) = Some t"
    and "resolve t folder = Some base" "\<And>n. node_at t (base @ [n]) \<noteq> None \<Longrightarrow> is_str n"
  shows "db \<notin> set (list_databases t folder)"
proof
  assume listed: "db \<in> set (list_databases t folder)"
  obtain loc where u: "unlink_location (files w) (path_join folder db) = Some loc"
    using assms(4) by (auto simp: remove_file_def)
  have loc: "loc = base @ [db]"
    using unlink_location_safe [OF assms(2) safe_lexical [OF assms(3)] u] by simp
  have gone: "node_at t (base @ [db]) = None"
    using node_at_remove_file [OF assms(4) u] loc by simp
  note ok = fs_ok_remove_file [OF assms(4,1)]
  have read: "node_at t base = Some Dir \<and> rights t ReadDir base"
    using listed assms(5) by (auto simp: list_databases_def read_dir_def split: if_splits option.splits)
  then obtain names where names: "read_dir t folder = Some names"
    "\<And>n. n \<in> set names \<longleftrightarrow> node_at t (base @ [n]) \<noteq> None"
    using read_dir_names [OF ok assms(5)] by blast
  then obtain n where "node_at t (base @ [n]) \<noteq> None" "db = from_utf8_lossy (bytes_of_str n)"
    using listed by (auto simp: list_databases_def)
  moreover from this have "from_utf8_lossy (bytes_of_str n) = n" using assms(6) from_utf8_lossy_str by blast
  ultimately show False using gone by simp
qed

theorem deleted_not_listed_witness:
  "\<exists>t. remove_file demo_files (path_join ''/data'' ''a'') = Some t \<and>
     ''a'' \<notin> set (list_databases t ''/data'')"
proof -
  obtain t where t: "remove_file demo_files (path_join ''/data'' ''a'') = Some t"
    using demo_remove by blast
  have "map_option (\<lambda>t. resolve t ''/data'') (remove_file demo_files (path_join ''/data'' ''a'')) =
      Some (Some [''data''])"
    by code_simp
  then have r: "resolve t ''/data'' = Some [''data'']" using t by simp
  have "map_option (\<lambda>t. \<forall>e \<in> set (entries t). is_str (last (fst e)))
      (remove_file demo_files (path_join ''/data'' ''a'')) = Some True"
    by code_simp
  then have str: "\<forall>e \<in> set (entries t). is_str (last (fst e))" using t by simp
  have "is_str n" if "node_at t ([''data''] @ [n]) \<noteq> None" for n
    using that node_at_entry [of "[''data''] @ [n]" t] str by fastforce
  with t r show ?thesis
    using deleted_not_listed [of demo_world "''/data''" "[''data'']" "''a''" t]
      demo_fs_ok demo_base demo_safe by auto
qed

end
