(* ===== verification/Handler_Session.thy ===== *)
theory Handler_Session
  imports Handler_Steps
begin

text \<open>
  Whole requests and whole sessions of the handler (\<open>src/src/handler.rs\<close>): the authentication
  gate, totality, the invariant of the handler's state, the shape of the responses, and the
  confinement of the engine to safe paths. A session is the sequence of requests that one
  connection hands to its handler.
\<close>

section \<open>Sessions\<close>

fun handle_all ::
  "('q, 'c, 's, 'r, 'w) externals \<Rightarrow> 'c request_handler \<Rightarrow> 'q world \<Rightarrow> string list \<Rightarrow>
     (json list, 'c, 'q) handled" where
  "handle_all X h w [] = Returns ([], h, w)"
| "handle_all X h w (req # reqs) =
     run_bind (handle_request X h w req) (\<lambda>(v, h1, w1).
       run_bind (handle_all X h1 w1 reqs) (\<lambda>(vs, h2, w2). Returns (v # vs, h2, w2)))"

lemma handle_all_Cons_Returns:
  "handle_all X h w (req # reqs) = Returns (r, h2, w2) \<longleftrightarrow>
     (\<exists>v vs h1 w1. handle_request X h w req = Returns (v, h1, w1) \<and>
        handle_all X h1 w1 reqs = Returns (vs, h2, w2) \<and> r = v # vs)"
  by (auto simp: run_bind_Returns_iff)

text \<open>Does the request parse to a message with the right password?\<close>

definition is_login :: "('q, 'c, 's, 'r, 'w) externals \<Rightarrow> config \<Rightarrow> string \<Rightarrow> bool" where
  "is_login X c req \<longleftrightarrow>
     (case parse_request X req of Inl _ \<Rightarrow> False | Inr v \<Rightarrow> get_str v ''auth'' = Some (auth c))"

lemma handle_request_denied:
  assumes "auth (config h) \<noteq> []" "\<not> authenticated h" "\<not> is_login X (config h) req"
  shows "handle_request X h w req =
    Returns (case parse_request X req of Inl m \<Rightarrow> invalid_format m req | Inr _ \<Rightarrow> result_json False, h, w)"
  using assms by (auto simp: handle_request_def is_login_def split: sum.splits)

lemma handle_request_authenticated:
  assumes "handle_request X h w req = Returns (v, h1, w1)" "handler_ok h"
  shows "authenticated h1 \<longleftrightarrow>
    authenticated h \<or> auth (config h) \<noteq> [] \<and> is_login X (config h) req"
  using assms dispatch_handler [of X h w req _ v h1 w1]
  by (auto simp: handle_request_def is_login_def split: sum.splits if_splits)

section \<open>Changing what the engine does on other paths\<close>

lemma row_object_cong:
  "sq_get_ref sq' = sq_get_ref sq \<Longrightarrow> row_object sq' row i names obj = row_object sq row i names obj"
  by (induction names arbitrary: i obj) (auto split: sum.split)

lemma fetch_rows_cong_Some:
  "fetch_rows sq columns acc rows w = Some r \<Longrightarrow> sq_next sq' = sq_next sq \<Longrightarrow>
     sq_get_ref sq' = sq_get_ref sq \<Longrightarrow> fetch_rows sq' columns acc rows w = Some r"
proof (induction sq columns acc rows w r rule: fetch_rows.raw_induct [rotated, consumes 1])
  case (1 loop sq columns acc rows w r)
  obtain res rows' w' where n: "sq_next sq rows w = (res, rows', w')"
    by (cases "sq_next sq rows w")
  note same = row_object_cong [OF "1.prems"(2)]
  show ?case
  proof (cases res rule: sum_option_cases)
    case (3 x)
    then show ?thesis
      using n "1.hyps" "1.IH" [OF _ "1.prems"] "1.prems"
      by (subst fetch_rows.simps) (auto simp: same split: sum.splits)
  qed (use n "1.hyps" "1.prems" in \<open>subst fetch_rows.simps; auto\<close>)+
qed

lemma fetch_rows_cong:
  assumes "sq_next sq' = sq_next sq" "sq_get_ref sq' = sq_get_ref sq"
  shows "fetch_rows sq' columns acc rows w = fetch_rows sq columns acc rows w"
  using fetch_rows_cong_Some [of sq columns acc rows w _ sq']
    fetch_rows_cong_Some [of sq' columns acc rows w _ sq] assms
  by (metis not_Some_eq)

definition with_open ::
  "('q, 'c, 's, 'r, 'w) externals \<Rightarrow> (string \<Rightarrow> 'q world \<Rightarrow> (rusqlite_error + 'c) \<times> 'q world) \<Rightarrow>
     ('q, 'c, 's, 'r, 'w) externals" where
  "with_open X f = X\<lparr>sqlite := (sqlite X)\<lparr>sq_open := f\<rparr>\<rparr>"

lemma with_open_sels:
  "sqlite (with_open X f) = (sqlite X)\<lparr>sq_open := f\<rparr>"
  "sq_open (sq\<lparr>sq_open := f\<rparr>) = f" "sq_execute_batch (sq\<lparr>sq_open := f\<rparr>) = sq_execute_batch sq"
  "sq_prepare (sq\<lparr>sq_open := f\<rparr>) = sq_prepare sq"
  "sq_column_names (sq\<lparr>sq_open := f\<rparr>) = sq_column_names sq"
  "sq_query (sq\<lparr>sq_open := f\<rparr>) = sq_query sq" "sq_finalize (sq\<lparr>sq_open := f\<rparr>) = sq_finalize sq"
  "sq_close (sq\<lparr>sq_open := f\<rparr>) = sq_close sq"
  "fetch_rows (sq\<lparr>sq_open := f\<rparr>) columns acc rows w = fetch_rows sq columns acc rows w"
  by (simp_all add: with_open_def) (rule fetch_rows_cong; simp)

lemma run_statement_with_open: "run_statement (with_open X f) = run_statement X"
  unfolding run_statement_def [abs_def] with_open_sels ..

lemma get_connection_with_open:
  "sq_open (sqlite X) (path_join (databases_folder (config h)) db) w =
     f (path_join (databases_folder (config h)) db) w \<Longrightarrow>
   get_connection (with_open X f) h w db = get_connection X h w db"
  unfolding get_connection_def with_open_sels by simp

lemma handle_request_with_open:
  assumes "\<And>db. is_safe_database_name (files w) (databases_folder (config h)) db \<Longrightarrow>
    sq_open (sqlite X) (path_join (databases_folder (config h)) db) w =
    f (path_join (databases_folder (config h)) db) w"
  shows "handle_request (with_open X f) h w req = handle_request X h w req"
proof -
  have "run_query (with_open X f) h w db query = run_query X h w db query"
    if "is_safe_database_name (files w) (databases_folder (config h)) db" for db query
    unfolding run_query_def run_statement_with_open get_connection_with_open [of X h db w f, OF assms [OF that]] ..
  then have q: "handle_query (with_open X f) h w json = handle_query X h w json" for json
    by (simp add: handle_query_def split: option.split)
  have d: "handle_delete_db (with_open X f) h w json = handle_delete_db X h w json" for json
    unfolding handle_delete_db_def with_open_sels ..
  have p: "parse_request (with_open X f) req = parse_request X req"
    by (cases "json_from_str X req") (simp_all add: parse_request_def with_open_def)
  show ?thesis unfolding handle_request_def dispatch_def p q d ..
qed

section \<open>Properties\<close>

text \<open>C1: With a password configured, a connection that has not logged in gets nothing but
  refusals: whatever it sends, as long as no message carries the password, every answer is
  \<open>{"result": "error"}\<close> or the parse error, no file is touched, the engine is not called,
  and the connection stays unauthenticated.\<close>

theorem auth_required:
  assumes "auth (config h) \<noteq> []" "\<not> authenticated h"
    and "\<forall>req \<in> set reqs. \<not> is_login X (config h) req"
  shows "handle_all X h w reqs =
    Returns (map (\<lambda>req. case parse_request X req of
                     Inl m \<Rightarrow> invalid_format m req | Inr _ \<Rightarrow> result_json False) reqs, h, w)"
  using assms by (induction reqs) (simp_all add: handle_request_denied)

theorem auth_required_witness:
  "\<exists>vs. handle_all demo_externals (new_handler (demo_server ''pw'')) demo_world [''wrong'', ''delete'', ''list''] =
     Returns (vs, new_handler (demo_server ''pw''), demo_world)"
proof -
  have "\<forall>req \<in> set [''wrong'', ''delete'', ''list'']. \<not> is_login demo_externals (demo_server ''pw'') req"
    by code_simp
  then show ?thesis
    using auth_required [of "new_handler (demo_server ''pw'')" "[''wrong'', ''delete'', ''list'']"
        demo_externals demo_world] by simp
qed

text \<open>Over any session the connection ends up authenticated exactly if it was before or a
  message carried the configured password; no other message, and no failure, ever changes it, and
  the configuration stays. Every state reached is a proper one: the cache is a map keyed by safe
  names.\<close>

theorem session_authenticated:
  assumes "handle_all X h w reqs = Returns (vs, h1, w1)" "handler_ok h"
  shows "(authenticated h1 \<longleftrightarrow> authenticated h \<or>
      auth (config h) \<noteq> [] \<and> (\<exists>req \<in> set reqs. is_login X (config h) req)) \<and>
    handler_ok h1 \<and> config h1 = config h \<and> length vs = length reqs"
  using assms
proof (induction reqs arbitrary: h w vs)
  case (Cons req reqs)
  then obtain v vs' h' w' where step: "handle_request X h w req = Returns (v, h', w')"
    and rest: "handle_all X h' w' reqs = Returns (vs', h1, w1)" "vs = v # vs'"
    unfolding handle_all_Cons_Returns by blast
  note h' = handle_request_handler [OF step Cons.prems(2)]
    handle_request_authenticated [OF step Cons.prems(2)]
  with Cons.IH [OF rest(1)] rest(2) show ?case by auto
qed simp

theorem session_authenticated_witness:
  "\<exists>vs h1 w1. handle_all demo_externals (new_handler (demo_server ''pw'')) demo_world [''wrong'', ''login''] =
     Returns (vs, h1, w1) \<and> authenticated h1"
proof -
  have r: "case handle_all demo_externals (new_handler (demo_server ''pw'')) demo_world [''wrong'', ''login''] of
      Returns _ \<Rightarrow> True | _ \<Rightarrow> False"
    by code_simp
  have l: "is_login demo_externals (demo_server ''pw'') ''login''" by code_simp
  obtain vs h1 w1 where run: "handle_all demo_externals (new_handler (demo_server ''pw'')) demo_world
      [''wrong'', ''login''] = Returns (vs, h1, w1)"
    using r by (auto split: run.splits)
  from session_authenticated [OF run handler_ok_new] run l show ?thesis by auto
qed

text \<open>The message with the password logs in and does nothing else, even if it also carries a
  command; any other message of a logged-in connection, and every message when no password is
  configured, goes to the commands.\<close>

theorem login_only:
  assumes "parse_request X req = Inr v"
  shows "(auth (config h) \<noteq> [] \<and> is_login X (config h) req \<longrightarrow>
      handle_request X h w req = Returns (result_json True, h\<lparr>authenticated := True\<rparr>, w)) \<and>
    (auth (config h) = [] \<or> authenticated h \<and> \<not> is_login X (config h) req \<longrightarrow>
      handle_request X h w req = dispatch X h w req v)"
  using assms by (simp add: handle_request_def is_login_def)

theorem login_only_witness:
  "handle_request demo_externals (new_handler (demo_server ''pw'')) demo_world ''login'' =
     Returns (result_json True, (new_handler (demo_server ''pw''))\<lparr>authenticated := True\<rparr>, demo_world)"
proof -
  have p: "parse_request demo_externals ''login'' =
      Inr (json_object [(''auth'', String ''pw''), (''cmd'', String ''LIST'')])"
    by code_simp
  have l: "is_login demo_externals (demo_server ''pw'') ''login''" by code_simp
  show ?thesis using login_only [OF p] l by simp
qed

text \<open>No request panics, and every request is answered if the engine's cursors all come to an
  end.\<close>

theorem handle_request_total:
  "handle_request X h w req \<noteq> Panics \<and>
   ((\<forall>stmt w rows w'. sq_query (sqlite X) stmt w = (Inr rows, w') \<longrightarrow> cursor_ends (sqlite X) rows w') \<longrightarrow>
     (\<exists>v h1 w1. handle_request X h w req = Returns (v, h1, w1)))"
proof -
  have "handle_request X h w req \<noteq> Diverges"
    if "\<forall>stmt w rows w'. sq_query (sqlite X) stmt w = (Inr rows, w') \<longrightarrow> cursor_ends (sqlite X) rows w'"
    using that handle_request_Diverges [of X h w req] by blast
  then show ?thesis
    using handle_request_not_Panics [of X h w req] by (cases "handle_request X h w req") auto
qed

theorem handle_request_total_witness:
  "\<exists>v h1 w1. handle_request finite_externals (new_handler (demo_server [])) demo_world ''loop'' =
     Returns (v, h1, w1)"
  using handle_request_total [of finite_externals "new_handler (demo_server [])" demo_world "''loop''"]
    finite_cursors by blast

text \<open>C6: The engine is only ever asked to open safe names of the databases folder: a session runs
  the same with any other engine that opens those paths the same way and anything else in any
  way whatsoever.\<close>

theorem session_opens_safe_paths:
  assumes "\<And>w db. is_safe_database_name (files w) (databases_folder (config h)) db \<Longrightarrow>
      sq_open (sqlite X) (path_join (databases_folder (config h)) db) w =
      f (path_join (databases_folder (config h)) db) w"
    and "handler_ok h"
  shows "handle_all (X\<lparr>sqlite := (sqlite X)\<lparr>sq_open := f\<rparr>\<rparr>) h w reqs = handle_all X h w reqs"
  unfolding with_open_def [symmetric]
  using assms
proof (induction reqs arbitrary: h w)
  case (Cons req reqs)
  have same: "handle_request (with_open X f) h w req = handle_request X h w req"
    by (rule handle_request_with_open [OF Cons.prems(1)])
  show ?case
  proof (cases "handle_request X h w req")
    case (Returns r)
    obtain v h1 w1 where r: "r = (v, h1, w1)" by (cases r)
    have "handler_ok h1 \<and> config h1 = config h"
      using handle_request_handler [OF _ Cons.prems(2)] Returns r by blast
    then have "handle_all (with_open X f) h1 w1 reqs = handle_all X h1 w1 reqs"
      using Cons.IH [of h1 w1] Cons.prems(1) by simp
    then show ?thesis using Returns r same by simp
  qed (simp_all add: same)
qed simp

theorem session_opens_safe_paths_witness:
  "handle_all (demo_externals\<lparr>sqlite := demo_sqlite\<lparr>sq_open := (\<lambda>p w.
       if p = ''/data/../etc'' then (Inl (OtherError ''escaped''), w) else sq_open demo_sqlite p w)\<rparr>\<rparr>)
     (new_handler (demo_server [])) demo_world [''up'', ''list''] =
   handle_all demo_externals (new_handler (demo_server [])) demo_world [''up'', ''list'']"
  (is "handle_all (demo_externals\<lparr>sqlite := demo_sqlite\<lparr>sq_open := ?f\<rparr>\<rparr>) _ _ _ = _")
proof -
  have "\<not> lexically_safe ''../etc''" "\<not> lexically_safe ''/data/../etc''" by code_simp+
  moreover have "path_join ''/data'' db = ''/data/../etc'' \<Longrightarrow> db = ''../etc'' \<or> db = ''/data/../etc''" for db
    by (auto simp: path_join_def split: if_splits)
  ultimately have bad: "path_join ''/data'' db \<noteq> ''/data/../etc''"
    if "is_safe_database_name t ''/data'' db" for t db
    using safe_lexical [OF that] by auto
  have same: "\<And>w db. is_safe_database_name (files w) (databases_folder (config (new_handler (demo_server [])))) db \<Longrightarrow>
      sq_open (sqlite demo_externals) (path_join (databases_folder (config (new_handler (demo_server [])))) db) w =
      ?f (path_join (databases_folder (config (new_handler (demo_server [])))) db) w"
    using bad by simp
  have "handle_all (demo_externals\<lparr>sqlite := (sqlite demo_externals)\<lparr>sq_open := ?f\<rparr>\<rparr>)
      (new_handler (demo_server [])) demo_world [''up'', ''list''] =
    handle_all demo_externals (new_handler (demo_server [])) demo_world [''up'', ''list'']"
    by (rule session_opens_safe_paths [OF same handler_ok_new])
  then show ?thesis unfolding demo_simps .
qed

section \<open>Responses\<close>

lemma wf_result_json [wf_intros]: "wf_json (result_json ok)"
  unfolding result_json_def by (rule wf_json_object) auto

lemma wf_generic_error [wf_intros]: "wf_json v \<Longrightarrow> wf_json (generic_error code v)"
  unfolding generic_error_def by (rule wf_json_object) (auto simp: wf_json_of_i64)

lemma wf_invalid_format [wf_intros]: "wf_json (invalid_format message req)"
  unfolding invalid_format_def by (rule wf_json_object) (auto simp: wf_json_of_i64)

lemma wf_sql_error [wf_intros]: "wf_json v \<Longrightarrow> wf_json (sql_error e v)"
  unfolding sql_error_def by (rule wf_json_object) (auto simp: wf_json_of_i64)

lemma wf_query_result [wf_intros]:
  "\<forall>v \<in> set rows. wf_json v \<Longrightarrow> wf_json (query_result columns rows)"
  unfolding query_result_def by (rule wf_json_object) auto

lemma run_statement_wf:
  assumes "run_statement X conn w query = Returns (Inr v, w1)"
  shows "wf_json v"
proof -
  obtain stmt wp where p: "sq_prepare (sqlite X) conn query w = (Inr stmt, wp)"
    using assms by (auto simp: run_statement_def split: prod.splits sum.splits)
  obtain rows wq where q: "sq_query (sqlite X) stmt wp = (Inr rows, wq)"
    using assms by (auto simp: run_statement_def p Let_def split: prod.splits sum.splits)
  obtain res wf where f: "fetch_rows (sqlite X) (sq_column_names (sqlite X) stmt) [] rows wq = Some (res, wf)"
    using assms by (auto simp: run_statement_def p q Let_def run_bind_Returns_iff run_of_option_def
        split: option.splits)
  show ?thesis
  proof (cases res)
    case (Inl e)
    with assms show ?thesis by (simp add: run_statement_def p q f)
  next
    case (Inr rs)
    with assms have "v = query_result (sq_column_names (sqlite X) stmt) rs"
      by (simp add: run_statement_def p q f)
    then show ?thesis using wf_fetch_rows [OF f] Inr by (simp add: wf_query_result)
  qed
qed

lemma run_query_wf:
  assumes "run_query X h w db query = Returns (Inr v, h1, w1)"
  shows "wf_json v"
proof -
  obtain c h2 w2 where "get_connection X h w db = Returns (c, h2, w2)"
    by (metis get_connection_Returns prod_cases3)
  then show ?thesis
    using assms
    by (cases c) (auto simp: run_query_def run_bind_Returns_iff split: if_splits dest: run_statement_wf)
qed

lemma handle_query_wf:
  assumes "handle_query X h w json = Returns (v, h1, w1)" "wf_json json"
  shows "wf_json v"
proof (cases "\<exists>db query. get_str json ''db'' = Some db \<and> get_str json ''query'' = Some query \<and>
    is_safe_database_name (files w) (databases_folder (config h)) db")
  case True
  then obtain db query where dq: "get_str json ''db'' = Some db" "get_str json ''query'' = Some query"
    "is_safe_database_name (files w) (databases_folder (config h)) db" by blast
  then obtain r h2 w2 where q: "run_query X h w db query = Returns (r, h2, w2)"
    using assms(1) by (auto simp: handle_query_def run_bind_Returns_iff)
  then show ?thesis
    using assms dq run_query_wf
    by (cases r) (auto simp: handle_query_def intro: wf_sql_error)
next
  case False
  with assms show ?thesis
    by (auto simp: handle_query_def intro: wf_generic_error split: option.splits if_splits)
qed

text \<open>C29: Every response is a proper JSON value: object keys strictly ascending, so in the printed
  order the protocol documents, and every number finite.\<close>

theorem response_wf:
  assumes "handle_request X h w req = Returns (v, h1, w1)"
    and "\<And>s v. json_from_str X s = Inr v \<Longrightarrow> wf_json v"
  shows "wf_json v"
proof (cases "parse_request X req")
  case (Inl m)
  with assms(1) show ?thesis by (auto simp: handle_request_def intro: wf_invalid_format)
next
  case (Inr json)
  then have wf: "wf_json json" using assms(2) by (auto simp: parse_request_def split: sum.splits)
  have "wf_json v" if "dispatch X h w req json = Returns (v, h1, w1)"
    using that handle_query_wf [OF _ wf] wf
    by (auto simp: dispatch_def handle_list_def handle_delete_db_def Let_def
        intro!: wf_generic_error wf_result_json wf_json_object split: option.splits if_splits)
  with assms(1) Inr show ?thesis
    by (auto simp: handle_request_def intro: wf_result_json split: if_splits)
qed

theorem response_wf_witness:
  "\<exists>v h1 w1. handle_request demo_externals (new_handler (demo_server [])) demo_world ''delete'' =
     Returns (v, h1, w1) \<and> wf_json v"
proof -
  have "case handle_request demo_externals (new_handler (demo_server [])) demo_world ''delete'' of
      Returns _ \<Rightarrow> True | _ \<Rightarrow> False"
    by code_simp
  then obtain v h1 w1 where r:
    "handle_request demo_externals (new_handler (demo_server [])) demo_world ''delete'' = Returns (v, h1, w1)"
    by (auto split: run.splits)
  have "\<forall>p \<in> set demo_requests. wf_json (snd p)" by code_simp
  then have wf: "\<And>s j. json_from_str demo_externals s = Inr j \<Longrightarrow> wf_json j"
    by (auto simp: demo_externals_def ok_or_Inr_iff dest!: map_of_SomeD)
  have "wf_json v" by (rule response_wf [OF r]) (rule wf)
  with r show ?thesis by blast
qed

text \<open>What a client may see of SQLite's extended result codes is the primary code, a number
  from 0 to 255; every other error of the crate is reported as 1.\<close>

theorem map_sqlite_err_primary:
  "\<exists>code message. map_sqlite_err e = (code, message) \<and> 0 \<le> sint code \<and> sint code \<le> 255 \<and>
    (case e of
       SqliteFailure ffi m \<Rightarrow> sint code = uint (extended_code ffi) mod 256
     | OtherError text \<Rightarrow> code = 1 \<and> message = text)"
proof (cases e)
  case (SqliteFailure ffi m)
  then show ?thesis using sint_primary_code [of ffi] by simp
qed simp

end
