(* ===== verification/Handler_Micro.thy ===== *)
theory Handler_Micro
  imports Handler_Session
begin

text \<open>
  The handler (\<open>src/src/handler.rs\<close>) in small steps: a request is a sequence of single accesses to
  the world (one call of the engine, one look at a path, one removal), between which other
  connections and other programs may run. Uninterrupted, the steps compute exactly
  \<open>handle_request\<close>.
\<close>

section \<open>Stages\<close>

text \<open>A command whose database name is being checked.\<close>

datatype command = QueryCommand json string string | DeleteCommand json string

fun command_db :: "command \<Rightarrow> string" where
  "command_db (QueryCommand json db query) = db"
| "command_db (DeleteCommand json db) = db"

text \<open>
  What the handler is about to do. The statement, the cursor and the rows read so far are the local
  variables of \<open>run_query\<close>; the names left to look at and those listed so far are the ones of
  \<open>handle_list\<close>.
\<close>

datatype ('c, 's, 'r) stage =
    Begin string
  | CheckExists command
  | CanonicalFolder command
  | CanonicalFull command "string option"
  | OpenDb json string string
  | Configure json string string 'c
  | CloseFailed json rusqlite_error 'c
  | Prepare json 'c string
  | StartRows json 's
  | FetchRow json 's "json list" 'r
  | Finalize 's json
  | ReadFolder
  | EntryMetadata "string list" "string list"
  | RemoveFile string
  | CloseEvicted 'c
  | Done json

section \<open>Steps\<close>

text \<open>The checks of \<open>is_safe_database_name\<close> that look at the name only, and its last one.\<close>

definition name_shape_ok :: "string \<Rightarrow> bool" where
  "name_shape_ok name \<longleftrightarrow>
     name \<noteq> [] \<and> \<not> is_absolute name \<and>
     (case path_components name of [Normal _] \<Rightarrow> True | _ \<Rightarrow> False)"

definition direct_child :: "string option \<Rightarrow> string option \<Rightarrow> bool" where
  "direct_child folder full =
     (case (folder, full) of
        (Some base, Some resolved) \<Rightarrow>
          (case strip_prefix resolved base of Some rel \<Rightarrow> length rel = 1 | None \<Rightarrow> False)
      | _ \<Rightarrow> False)"

text \<open>How a command goes on once its name is known to be safe or not.\<close>

fun command_stage :: "'c request_handler \<Rightarrow> command \<Rightarrow> bool \<Rightarrow> ('c, 's, 'r) stage" where
  "command_stage h (QueryCommand json db query) safe =
     (if \<not> safe then Done (generic_error NO_DATABASE_SPECIFIED json)
      else if trim query = [] then Done (sql_error (SQLITE_MISUSE, ''empty query'') json)
      else (case map_of (databases h) db of
              Some conn \<Rightarrow> Prepare json conn query
            | None \<Rightarrow> OpenDb json db query))"
| "command_stage h (DeleteCommand json db) safe =
     (if \<not> safe then Done (generic_error NO_DATABASE_SPECIFIED json) else RemoveFile db)"

definition check_stage :: "'c request_handler \<Rightarrow> command \<Rightarrow> ('c, 's, 'r) stage" where
  "check_stage h cmd =
     (if name_shape_ok (command_db cmd) then CheckExists cmd else command_stage h cmd False)"

definition query_stage :: "'c request_handler \<Rightarrow> json \<Rightarrow> ('c, 's, 'r) stage" where
  "query_stage h json =
     (case get_str json ''db'' of
        None \<Rightarrow> Done (generic_error NO_DATABASE_SPECIFIED json)
      | Some db \<Rightarrow>
          (case get_str json ''query'' of
             None \<Rightarrow> Done (generic_error ERROR_READING_FROM_CLIENT json)
           | Some query \<Rightarrow> check_stage h (QueryCommand json db query)))"

definition delete_stage :: "'c request_handler \<Rightarrow> json \<Rightarrow> ('c, 's, 'r) stage" where
  "delete_stage h json =
     (case get_str json ''db'' of
        None \<Rightarrow> Done (generic_error NO_DATABASE_SPECIFIED json)
      | Some db \<Rightarrow> check_stage h (DeleteCommand json db))"

definition dispatch_stage :: "'c request_handler \<Rightarrow> string \<Rightarrow> json \<Rightarrow> ('c, 's, 'r) stage" where
  "dispatch_stage h req json =
     (case get_str json ''cmd'' of
        None \<Rightarrow> Done (generic_error NO_COMMAND_SPECIFIED (String req))
      | Some cmd \<Rightarrow>
          if eq_ignore_ascii_case cmd ''QUERY'' then query_stage h json
          else if eq_ignore_ascii_case cmd ''LIST'' then ReadFolder
          else if eq_ignore_ascii_case cmd ''DELETE_DB'' then delete_stage h json
          else Done (generic_error UNKNOWN_COMMAND (String req)))"

text \<open>Up to the first access to the world: parsing, the gate, the dispatch.\<close>

definition begin_request ::
  "('q, 'c, 's, 'r, 'w) externals \<Rightarrow> 'c request_handler \<Rightarrow> string \<Rightarrow>
     'c request_handler \<times> ('c, 's, 'r) stage" where
  "begin_request X h req =
     (case parse_request X req of
        Inl message \<Rightarrow> (h, Done (invalid_format message req))
      | Inr json \<Rightarrow>
          if auth (config h) \<noteq> [] then
            if get_str json ''auth'' = Some (auth (config h))
            then (h\<lparr>authenticated := True\<rparr>, Done (result_json True))
            else if \<not> authenticated h then (h, Done (result_json False))
            else (h, dispatch_stage h req json)
          else (h, dispatch_stage h req json))"

definition listed :: "string list \<Rightarrow> json" where
  "listed names = json_object [(''list'', Array (map String names))]"

text \<open>One access to the world.\<close>

fun micro_step ::
  "('q, 'c, 's, 'r, 'w) externals \<Rightarrow> 'c request_handler \<Rightarrow> 'q world \<Rightarrow> ('c, 's, 'r) stage \<Rightarrow>
     'c request_handler \<times> 'q world \<times> ('c, 's, 'r) stage" where
  "micro_step X h w (Begin req) = (case begin_request X h req of (h1, st) \<Rightarrow> (h1, w, st))"
| "micro_step X h w (CheckExists cmd) =
     (h, w, if fs_exists (files w) (path_join (databases_folder (config h)) (command_db cmd))
            then CanonicalFolder cmd else command_stage h cmd True)"
| "micro_step X h w (CanonicalFolder cmd) =
     (h, w, CanonicalFull cmd (canonicalize_path (files w) (databases_folder (config h))))"
| "micro_step X h w (CanonicalFull cmd folder) =
     (h, w, command_stage h cmd
       (direct_child folder
          (canonicalize_path (files w) (path_join (databases_folder (config h)) (command_db cmd)))))"
| "micro_step X h w (OpenDb json db query) =
     (case sq_open (sqlite X) (path_join (databases_folder (config h)) db) w of
        (Inl e, w1) \<Rightarrow> (h, w1, Done (sql_error (map_sqlite_err e) json))
      | (Inr conn, w1) \<Rightarrow> (h, w1, Configure json db query conn))"
| "micro_step X h w (Configure json db query conn) =
     (case sq_execute_batch (sqlite X) conn (connection_pragmas (config h)) w of
        (Inl e, w1) \<Rightarrow> (h, w1, CloseFailed json e conn)
      | (Inr _, w1) \<Rightarrow>
          (h\<lparr>databases := AList.update db conn (databases h)\<rparr>, w1, Prepare json conn query))"
| "micro_step X h w (CloseFailed json e conn) =
     (h, sq_close (sqlite X) conn w, Done (sql_error (map_sqlite_err e) json))"
| "micro_step X h w (Prepare json conn query) =
     (case sq_prepare (sqlite X) conn query w of
        (Inl e, w1) \<Rightarrow> (h, w1, Done (sql_error (map_sqlite_err e) json))
      | (Inr stmt, w1) \<Rightarrow> (h, w1, StartRows json stmt))"
| "micro_step X h w (StartRows json stmt) =
     (case sq_query (sqlite X) stmt w of
        (Inl e, w1) \<Rightarrow> (h, w1, Finalize stmt (sql_error (map_sqlite_err e) json))
      | (Inr rows, w1) \<Rightarrow> (h, w1, FetchRow json stmt [] rows))"
| "micro_step X h w (FetchRow json stmt rows_data rows) =
     (let columns = sq_column_names (sqlite X) stmt in
      case sq_next (sqlite X) rows w of
        (Inl e, rows1, w1) \<Rightarrow> (h, w1, Finalize stmt (sql_error (map_sqlite_err e) json))
      | (Inr None, rows1, w1) \<Rightarrow> (h, w1, Finalize stmt (query_result columns rows_data))
      | (Inr (Some row), rows1, w1) \<Rightarrow>
          (h, w1,
           case row_object (sqlite X) row 0 columns [] of
             Inl e \<Rightarrow> Finalize stmt (sql_error e json)
           | Inr object \<Rightarrow> FetchRow json stmt (rows_data @ [Object object]) rows1))"
| "micro_step X h w (Finalize stmt v) = (h, sq_finalize (sqlite X) stmt w, Done v)"
| "micro_step X h w ReadFolder =
     (h, w, case read_dir (files w) (databases_folder (config h)) of
              None \<Rightarrow> Done (listed [])
            | Some names \<Rightarrow> EntryMetadata names [])"
| "micro_step X h w (EntryMetadata [] acc) = (h, w, Done (listed acc))"
| "micro_step X h w (EntryMetadata (name # names) acc) =
     (h, w, EntryMetadata names
       (if fs_is_file (files w) (path_join (databases_folder (config h)) name) \<and>
           \<not> is_sqlite_sidecar_file (from_utf8_lossy (bytes_of_str name))
        then acc @ [from_utf8_lossy (bytes_of_str name)] else acc))"
| "micro_step X h w (RemoveFile db) =
     (case remove_file (files w) (path_join (databases_folder (config h)) db) of
        None \<Rightarrow> (h, w, Done (result_json False))
      | Some t \<Rightarrow>
          (h\<lparr>databases := AList.delete db (databases h)\<rparr>, w\<lparr>files := t\<rparr>,
           case map_of (databases h) db of
             Some conn \<Rightarrow> CloseEvicted conn | None \<Rightarrow> Done (result_json True)))"
| "micro_step X h w (CloseEvicted conn) = (h, sq_close (sqlite X) conn w, Done (result_json True))"
| "micro_step X h w (Done v) = (h, w, Done v)"

text \<open>The steps without interruption, to the end.\<close>

inductive completes ::
  "('q, 'c, 's, 'r, 'w) externals \<Rightarrow> 'c request_handler \<Rightarrow> 'q world \<Rightarrow> ('c, 's, 'r) stage \<Rightarrow>
     json \<Rightarrow> 'c request_handler \<Rightarrow> 'q world \<Rightarrow> bool" for X where
  finished: "completes X h w (Done v) v h w"
| next_step: "(\<And>v. st \<noteq> Done v) \<Longrightarrow> micro_step X h w st = (h1, w1, st1) \<Longrightarrow>
    completes X h1 w1 st1 v h2 w2 \<Longrightarrow> completes X h w st v h2 w2"

section \<open>What is left to compute\<close>

text \<open>The result of a command whose name was checked, by the operations of theory Handler.\<close>

fun command_outcome ::
  "('q, 'c, 's, 'r, 'w) externals \<Rightarrow> 'c request_handler \<Rightarrow> 'q world \<Rightarrow> command \<Rightarrow> bool \<Rightarrow>
     (json, 'c, 'q) handled" where
  "command_outcome X h w (QueryCommand json db query) safe =
     (if \<not> safe then Returns (generic_error NO_DATABASE_SPECIFIED json, h, w)
      else run_bind (run_query X h w db query) (\<lambda>(r, h1, w1).
        Returns (case r of Inr v \<Rightarrow> v | Inl e \<Rightarrow> sql_error e json, h1, w1)))"
| "command_outcome X h w (DeleteCommand json db) safe =
     (if \<not> safe then Returns (generic_error NO_DATABASE_SPECIFIED json, h, w)
      else
        case remove_file (files w) (path_join (databases_folder (config h)) db) of
          None \<Rightarrow> Returns (result_json False, h, w)
        | Some t \<Rightarrow>
            Returns
              (result_json True, h\<lparr>databases := AList.delete db (databases h)\<rparr>,
               case map_of (databases h) db of
                 Some conn \<Rightarrow> sq_close (sqlite X) conn (w\<lparr>files := t\<rparr>) | None \<Rightarrow> w\<lparr>files := t\<rparr>))"

definition statement_outcome ::
  "json \<Rightarrow> 'c request_handler \<Rightarrow> (((i64 \<times> string) + json) \<times> 'q world) run \<Rightarrow> (json, 'c, 'q) handled" where
  "statement_outcome json h r =
     run_bind r (\<lambda>(r, w). Returns (case r of Inr v \<Rightarrow> v | Inl e \<Rightarrow> sql_error e json, h, w))"

definition fetched_outcome ::
  "('q, 'c, 's, 'r, 'w) externals \<Rightarrow> 'c request_handler \<Rightarrow> json \<Rightarrow> 's \<Rightarrow>
     (((i64 \<times> string) + json list) \<times> 'q world) option \<Rightarrow> (json, 'c, 'q) handled" where
  "fetched_outcome X h json stmt r =
     run_bind (run_of_option r) (\<lambda>(r, w).
       Returns
         (case r of
            Inl e \<Rightarrow> sql_error e json
          | Inr rows_data \<Rightarrow> query_result (sq_column_names (sqlite X) stmt) rows_data,
          h, sq_finalize (sqlite X) stmt w))"

fun outcome ::
  "('q, 'c, 's, 'r, 'w) externals \<Rightarrow> 'c request_handler \<Rightarrow> 'q world \<Rightarrow> ('c, 's, 'r) stage \<Rightarrow>
     (json, 'c, 'q) handled" where
  "outcome X h w (Begin req) = handle_request X h w req"
| "outcome X h w (CheckExists cmd) =
     command_outcome X h w cmd
       (let full = path_join (databases_folder (config h)) (command_db cmd) in
        fs_exists (files w) full \<longrightarrow>
          direct_child (canonicalize_path (files w) (databases_folder (config h)))
            (canonicalize_path (files w) full))"
| "outcome X h w (CanonicalFolder cmd) =
     command_outcome X h w cmd
       (direct_child (canonicalize_path (files w) (databases_folder (config h)))
         (canonicalize_path (files w) (path_join (databases_folder (config h)) (command_db cmd))))"
| "outcome X h w (CanonicalFull cmd folder) =
     command_outcome X h w cmd
       (direct_child folder
         (canonicalize_path (files w) (path_join (databases_folder (config h)) (command_db cmd))))"
| "outcome X h w (OpenDb json db query) =
     (case open_fresh X h w db of
        (Inl e, h1, w1) \<Rightarrow> Returns (sql_error (map_sqlite_err e) json, h1, w1)
      | (Inr conn, h1, w1) \<Rightarrow> statement_outcome json h1 (run_statement X conn w1 query))"
| "outcome X h w (Configure json db query conn) =
     (case sq_execute_batch (sqlite X) conn (connection_pragmas (config h)) w of
        (Inl e, w1) \<Rightarrow> Returns (sql_error (map_sqlite_err e) json, h, sq_close (sqlite X) conn w1)
      | (Inr _, w1) \<Rightarrow>
          statement_outcome json (h\<lparr>databases := AList.update db conn (databases h)\<rparr>)
            (run_statement X conn w1 query))"
| "outcome X h w (CloseFailed json e conn) =
     Returns (sql_error (map_sqlite_err e) json, h, sq_close (sqlite X) conn w)"
| "outcome X h w (Prepare json conn query) = statement_outcome json h (run_statement X conn w query)"
| "outcome X h w (StartRows json stmt) =
     (case sq_query (sqlite X) stmt w of
        (Inl e, w1) \<Rightarrow> Returns (sql_error (map_sqlite_err e) json, h, sq_finalize (sqlite X) stmt w1)
      | (Inr rows, w1) \<Rightarrow>
          fetched_outcome X h json stmt
            (fetch_rows (sqlite X) (sq_column_names (sqlite X) stmt) [] rows w1))"
| "outcome X h w (FetchRow json stmt rows_data rows) =
     fetched_outcome X h json stmt
       (fetch_rows (sqlite X) (sq_column_names (sqlite X) stmt) rows_data rows w)"
| "outcome X h w (Finalize stmt v) = Returns (v, h, sq_finalize (sqlite X) stmt w)"
| "outcome X h w ReadFolder = handle_list h w"
| "outcome X h w (EntryMetadata names acc) =
     Returns
       (listed (acc @ filter (\<lambda>name. \<not> is_sqlite_sidecar_file name)
          (map (\<lambda>name. from_utf8_lossy (bytes_of_str name))
            (filter (\<lambda>name. fs_is_file (files w) (path_join (databases_folder (config h)) name)) names))),
        h, w)"
| "outcome X h w (RemoveFile db) = command_outcome X h w (DeleteCommand json.Null db) True"
| "outcome X h w (CloseEvicted conn) = Returns (result_json True, h, sq_close (sqlite X) conn w)"
| "outcome X h w (Done v) = Returns (v, h, w)"

lemma run_bind_assoc: "run_bind (run_bind r f) g = run_bind r (\<lambda>x. run_bind (f x) g)"
  by (cases r) simp_all

lemma outcome_command_stage: "outcome X h w (command_stage h cmd safe) = command_outcome X h w cmd safe"
proof (cases cmd)
  case (QueryCommand json db query)
  then show ?thesis
    by (cases "map_of (databases h) db")
      (auto simp: run_query_def get_connection_Returns statement_outcome_def open_fresh_def
        run_bind_assoc case_prod_unfold split: option.split sum.split)
qed (auto split: option.split)

section \<open>A step keeps what is left to compute\<close>

lemma name_shape_ok_iff: "name_shape_ok name \<longleftrightarrow> lexically_safe name"
  using lexically_safe_components [of name] lexically_safe_relative [of name]
  by (auto simp: name_shape_ok_def split: list.splits component.splits)

lemma is_safe_database_name_stages:
  "is_safe_database_name t folder name \<longleftrightarrow> name_shape_ok name \<and>
     (fs_exists t (path_join folder name) \<longrightarrow>
       direct_child (canonicalize_path t folder) (canonicalize_path t (path_join folder name)))"
proof -
  show ?thesis
    by (auto simp: is_safe_database_name_unfold name_shape_ok_iff direct_child_def split: option.splits)
qed

lemma outcome_check_stage:
  "outcome X h w (check_stage h cmd) =
     command_outcome X h w cmd
       (is_safe_database_name (files w) (databases_folder (config h)) (command_db cmd))"
  by (simp add: check_stage_def is_safe_database_name_stages outcome_command_stage Let_def)

lemma outcome_query_stage: "outcome X h w (query_stage h json) = handle_query X h w json"
proof (cases "\<exists>db query. get_str json ''db'' = Some db \<and> get_str json ''query'' = Some query")
  case True
  then obtain db query where "get_str json ''db'' = Some db" "get_str json ''query'' = Some query"
    by blast
  then show ?thesis
    by (cases "run_query X h w db query")
      (auto simp: query_stage_def handle_query_def outcome_check_stage split: sum.split)
qed (auto simp: query_stage_def handle_query_def split: option.split)

lemma outcome_delete_stage: "outcome X h w (delete_stage h json) = handle_delete_db X h w json"
  by (auto simp: delete_stage_def handle_delete_db_def outcome_check_stage Let_def split: option.split)

lemma outcome_dispatch_stage: "outcome X h w (dispatch_stage h req json) = dispatch X h w req json"
  by (auto simp: dispatch_stage_def dispatch_def outcome_query_stage outcome_delete_stage
      split: option.split)

lemma outcome_begin_request:
  "(case begin_request X h req of (h1, st) \<Rightarrow> outcome X h1 w st) = handle_request X h w req"
  by (simp add: begin_request_def handle_request_def outcome_dispatch_stage split: sum.split)

lemma outcome_fetch_row:
  "(case micro_step X h w (FetchRow json stmt rows_data rows) of (h1, w1, st1) \<Rightarrow> outcome X h1 w1 st1) =
     outcome X h w (FetchRow json stmt rows_data rows)"
proof -
  obtain r rows1 w1 where n: "sq_next (sqlite X) rows w = (r, rows1, w1)"
    by (cases "sq_next (sqlite X) rows w")
  show ?thesis
    unfolding outcome.simps fetch_rows.simps [of _ _ rows_data rows w]
    by (cases r rule: sum_option_cases)
      (auto simp: n Let_def fetched_outcome_def run_of_option_def split: sum.split)
qed

lemma outcome_prepare:
  "(case micro_step X h w (Prepare json conn query) of (h1, w1, st1) \<Rightarrow> outcome X h1 w1 st1) =
     outcome X h w (Prepare json conn query)"
  by (auto simp: statement_outcome_def run_statement_def fetched_outcome_def run_bind_assoc
      case_prod_unfold Let_def run_of_option_def split: sum.split option.split
      intro!: arg_cong [where f = "run_bind _"])

lemma outcome_micro_step:
  "(case micro_step X h w st of (h1, w1, st1) \<Rightarrow> outcome X h1 w1 st1) = outcome X h w st"
proof (cases "(X, h, w, st)" rule: micro_step.cases)
  case (1 X' h' w' req)
  then show ?thesis using outcome_begin_request [of X w h req] by (auto split: prod.splits)
next
  case (2 X' h' w' cmd)
  then show ?thesis by (simp add: outcome_command_stage)
next
  case (4 X' h' w' cmd folder)
  then show ?thesis by (simp add: outcome_command_stage)
next
  case (5 X' h' w' json db query)
  then show ?thesis by (auto simp: open_fresh_def split: prod.split sum.split)
next
  case (8 X' h' w' json conn query)
  then have "st = Prepare json conn query" by simp
  then show ?thesis by (simp only: outcome_prepare)
next
  case (10 X' h' w' json stmt rows_data rows)
  then have "st = FetchRow json stmt rows_data rows" by simp
  then show ?thesis by (simp only: outcome_fetch_row)
next
  case (12 X' h' w')
  then show ?thesis
    by (simp add: handle_list_def list_databases_def listed_def split: option.split)
qed (auto simp: statement_outcome_def split: prod.split sum.split option.split)

section \<open>The steps end when the handler returns\<close>

lemma completes_outcome: "completes X h w st v h1 w1 \<Longrightarrow> outcome X h w st = Returns (v, h1, w1)"
proof (induction rule: completes.induct)
  case (next_step st h w h1 w1 st1 v h2 w2)
  then show ?case using outcome_micro_step [of X h w st] by simp
qed simp

definition settles ::
  "('q, 'c, 's, 'r, 'w) externals \<Rightarrow> 'c request_handler \<Rightarrow> 'q world \<Rightarrow> ('c, 's, 'r) stage \<Rightarrow> bool" where
  "settles X h w st \<longleftrightarrow>
     (\<forall>r. outcome X h w st = Returns r \<longrightarrow> (\<exists>v h1 w1. completes X h w st v h1 w1))"

lemma settles_Done [simp]: "settles X h w (Done v)"
  by (auto simp: settles_def intro: completes.finished)

lemma settles_step:
  assumes "\<And>v. st \<noteq> Done v"
    and "case micro_step X h w st of (h1, w1, st1) \<Rightarrow> settles X h1 w1 st1"
  shows "settles X h w st"
proof -
  obtain h1 w1 st1 where m: "micro_step X h w st = (h1, w1, st1)"
    by (cases "micro_step X h w st")
  with assms(2) have "settles X h1 w1 st1" by simp
  moreover have "outcome X h1 w1 st1 = outcome X h w st"
    using outcome_micro_step [of X h w st] m by simp
  ultimately show ?thesis
    using completes.next_step [OF assms(1) m] by (simp add: settles_def) blast
qed

lemma settles_last [simp]:
  "settles X h w (Finalize stmt v)" "settles X h w (CloseEvicted conn)"
  "settles X h w (CloseFailed json e conn)" "settles X h w (RemoveFile db)"
proof -
  show closed: "settles X h w (CloseEvicted conn)" for h w conn
    by (rule settles_step) simp_all
  show "settles X h w (RemoveFile db)"
    by (rule settles_step) (simp_all add: closed split: option.split)
qed (rule settles_step, simp, simp)+

lemma settles_list [simp]: "settles X h w (EntryMetadata names acc)" "settles X h w ReadFolder"
proof -
  show entries: "settles X h w (EntryMetadata names acc)" for names acc
  proof (induction names arbitrary: acc)
    case Nil
    show ?case by (rule settles_step) simp_all
  next
    case (Cons name names)
    show ?case by (rule settles_step) (simp_all add: Cons.IH)
  qed
  show "settles X h w ReadFolder"
    by (rule settles_step) (simp_all add: entries split: option.split)
qed

lemma settles_FetchRow:
  "fetch_rows sq columns rows_data rows w = Some r \<Longrightarrow>
     sq = sqlite X \<Longrightarrow> columns = sq_column_names (sqlite X) stmt \<Longrightarrow>
     settles X h w (FetchRow json stmt rows_data rows)"
proof (induction sq columns rows_data rows w r rule: fetch_rows.raw_induct [rotated, consumes 1])
  case (1 loop sq columns rows_data rows w r)
  obtain res rows1 w1 where n: "sq_next (sqlite X) rows w = (res, rows1, w1)"
    by (cases "sq_next (sqlite X) rows w")
  show ?case
  proof (rule settles_step, simp, cases res rule: sum_option_cases)
    case (3 row)
    then show "case micro_step X h w (FetchRow json stmt rows_data rows) of
        (h1, w1, st1) \<Rightarrow> settles X h1 w1 st1"
      using "1.hyps" n "1.prems"
      by (auto simp: Let_def split: sum.split intro!: "1.IH" [OF _ "1.prems"])
  qed (simp_all add: n Let_def)
qed

lemma settles_fetch [simp]: "settles X h w (FetchRow json stmt rows_data rows)"
proof (cases "fetch_rows (sqlite X) (sq_column_names (sqlite X) stmt) rows_data rows w")
  case None
  then show ?thesis by (simp add: settles_def fetched_outcome_def run_of_option_def)
next
  case (Some r)
  then show ?thesis by (rule settles_FetchRow) simp_all
qed

lemma settles_query [simp]:
  "settles X h w (StartRows json stmt)" "settles X h w (Prepare json conn query)"
  "settles X h w (Configure json db query conn)" "settles X h w (OpenDb json db query)"
proof -
  show start: "settles X h w (StartRows json stmt)" for h w stmt
    by (rule settles_step) (simp_all split: prod.split sum.split)
  show prepare: "settles X h w (Prepare json conn query)" for h w conn
    by (rule settles_step) (simp_all add: start split: prod.split sum.split)
  show configure: "settles X h w (Configure json db query conn)" for h w conn
    by (rule settles_step) (simp_all add: prepare split: prod.split sum.split)
  show "settles X h w (OpenDb json db query)"
    by (rule settles_step) (simp_all add: configure split: prod.split sum.split)
qed

lemma settles_command_stage [simp]: "settles X h w (command_stage h1 cmd safe)"
  by (cases cmd) (simp_all split: option.split)

lemma settles_check [simp]:
  "settles X h w (CanonicalFull cmd folder)" "settles X h w (CanonicalFolder cmd)"
  "settles X h w (CheckExists cmd)"
proof -
  show full: "settles X h w (CanonicalFull cmd folder)" for folder
    by (rule settles_step) simp_all
  show folder: "settles X h w (CanonicalFolder cmd)"
    by (rule settles_step) (simp_all add: full)
  show "settles X h w (CheckExists cmd)"
    by (rule settles_step) (simp_all add: folder)
qed

lemma settles_dispatch_stage [simp]: "settles X h w (dispatch_stage h1 req json)"
  by (auto simp: dispatch_stage_def query_stage_def delete_stage_def check_stage_def
      split: option.split)

lemma settles_all: "settles X h w st"
proof (cases st)
  case (Begin req)
  have "case micro_step X h w st of (h1, w1, st1) \<Rightarrow> settles X h1 w1 st1"
    by (simp add: Begin begin_request_def split: sum.split)
  then show ?thesis by (rule settles_step [rotated]) (simp add: Begin)
qed simp_all

lemma completes_iff_outcome:
  "completes X h w st v h1 w1 \<longleftrightarrow> outcome X h w st = Returns (v, h1, w1)"
proof
  assume o: "outcome X h w st = Returns (v, h1, w1)"
  then obtain v' h' w' where c: "completes X h w st v' h' w'"
    using settles_all [of X h w st] by (auto simp: settles_def)
  with completes_outcome [OF c] o show "completes X h w st v h1 w1" by simp
qed (rule completes_outcome)

text \<open>Taken one access to the world at a time and not interrupted, a request gives the answer,
  the handler and the world of \<open>handle_request\<close>, and it comes to an end exactly when
  \<open>handle_request\<close> returns.\<close>

lemma handler_steps_equivalent:
  "completes X h w (Begin req) v h1 w1 \<longleftrightarrow> handle_request X h w req = Returns (v, h1, w1)"
  by (simp add: completes_iff_outcome)

section \<open>What a step keeps, whatever happened since the last one\<close>

lemma command_stage_not_Begin [simp]: "command_stage h cmd safe \<noteq> Begin r"
  by (cases cmd) (auto split: option.split)

lemma dispatch_stage_not_Begin [simp]: "dispatch_stage h req json \<noteq> Begin r"
  by (auto simp: dispatch_stage_def query_stage_def delete_stage_def check_stage_def
      split: option.split)

lemma micro_step_not_Begin: "micro_step X h w st = (h1, w1, st1) \<Longrightarrow> st1 \<noteq> Begin r"
  by (cases "(X, h, w, st)" rule: micro_step.cases)
    (auto simp: begin_request_def Let_def
      split: prod.splits sum.splits option.splits if_splits)

lemma micro_step_config: "micro_step X h w st = (h1, w1, st1) \<Longrightarrow> config h1 = config h"
  by (cases "(X, h, w, st)" rule: micro_step.cases)
    (auto simp: begin_request_def Let_def
      split: prod.splits sum.splits option.splits if_splits)

text \<open>The stages that do not touch the world.\<close>

fun outside :: "('c, 's, 'r) stage \<Rightarrow> bool" where
  "outside (Begin req) = True"
| "outside (Done v) = True"
| "outside st = False"

lemma micro_step_authenticated:
  "micro_step X h w st = (h1, w1, st1) \<Longrightarrow> \<not> outside st \<Longrightarrow> authenticated h1 = authenticated h"
  by (cases "(X, h, w, st)" rule: micro_step.cases)
    (auto simp: Let_def split: prod.splits sum.splits option.splits if_splits)

text \<open>The gate: behind it only who is logged in, and the login itself touches nothing.\<close>

lemma micro_step_Begin:
  assumes "micro_step X h w (Begin req) = (h1, w1, st1)" "auth (config h) \<noteq> []"
  shows "w1 = w" "\<not> outside st1 \<Longrightarrow> authenticated h"
    "authenticated h1 \<Longrightarrow> authenticated h \<or> is_login X (config h) req \<and> (\<exists>v. st1 = Done v)"
  using assms by (auto simp: begin_request_def is_login_def split: sum.splits if_splits)

text \<open>The database name a stage will use.\<close>

fun stage_names_ok :: "('c, 's, 'r) stage \<Rightarrow> bool" where
  "stage_names_ok (CheckExists cmd) = name_shape_ok (command_db cmd)"
| "stage_names_ok (CanonicalFolder cmd) = name_shape_ok (command_db cmd)"
| "stage_names_ok (CanonicalFull cmd folder) = name_shape_ok (command_db cmd)"
| "stage_names_ok (OpenDb json db query) = name_shape_ok db"
| "stage_names_ok (Configure json db query conn) = name_shape_ok db"
| "stage_names_ok (RemoveFile db) = name_shape_ok db"
| "stage_names_ok st = True"

lemma command_stage_names_ok [simp]:
  "name_shape_ok (command_db cmd) \<or> \<not> safe \<Longrightarrow> stage_names_ok (command_stage h cmd safe)"
  by (cases cmd) (auto split: option.split)

lemma dispatch_stage_names_ok [simp]: "stage_names_ok (dispatch_stage h req json)"
  by (auto simp: dispatch_stage_def query_stage_def delete_stage_def check_stage_def
      split: option.split)

lemma micro_step_names_ok:
  "micro_step X h w st = (h1, w1, st1) \<Longrightarrow> stage_names_ok st \<Longrightarrow> stage_names_ok st1"
  by (cases "(X, h, w, st)" rule: micro_step.cases)
    (auto simp: begin_request_def Let_def
      split: prod.splits sum.splits option.splits if_splits)

section \<open>The gate, step by step\<close>

text \<open>
  The history of a request: its steps, between which the world may change in any way. A machine
  with a gate lets a request inside only if the gate was open, and opens it only for a login; who
  drives such a machine needs nothing else about it to know what a request in progress may do.
\<close>

inductive step_history ::
  "('h \<Rightarrow> 'w \<Rightarrow> 'st \<Rightarrow> 'h \<times> 'w \<times> 'st) \<Rightarrow> ('st \<Rightarrow> bool) \<Rightarrow> 'h \<Rightarrow> 'st \<Rightarrow> 'h \<Rightarrow> 'st \<Rightarrow> bool"
  for step finished h st where
  none: "step_history step finished h st h st"
| more: "step_history step finished h st h1 st1 \<Longrightarrow> \<not> finished st1 \<Longrightarrow>
    step h1 w st1 = (h2, w2, st2) \<Longrightarrow> step_history step finished h st h2 st2"

locale gated_steps =
  fixes step :: "'h \<Rightarrow> 'w \<Rightarrow> 'st \<Rightarrow> 'h \<times> 'w \<times> 'st"
    and start :: "'req \<Rightarrow> 'st"
    and finished inside safe :: "'st \<Rightarrow> bool"
    and opened :: "'h \<Rightarrow> bool"
    and settings :: "'h \<Rightarrow> 'k"
    and locked :: "'k \<Rightarrow> bool"
    and login :: "'k \<Rightarrow> 'req \<Rightarrow> bool"
  assumes settings_step: "step h w st = (h1, w1, st1) \<Longrightarrow> settings h1 = settings h"
    and safe_start: "safe (start req)"
    and safe_step: "step h w st = (h1, w1, st1) \<Longrightarrow> safe st \<Longrightarrow> safe st1"
    and not_start: "step h w st = (h1, w1, st1) \<Longrightarrow> st1 \<noteq> start req"
    and inside_iff: "inside st \<longleftrightarrow> \<not> finished st \<and> (\<forall>req. st \<noteq> start req)"
    and inside_step: "step h w st = (h1, w1, st1) \<Longrightarrow> inside st \<Longrightarrow> opened h1 \<longleftrightarrow> opened h"
    and gate: "step h w (start req) = (h1, w1, st1) \<Longrightarrow> locked (settings h) \<Longrightarrow>
      (inside st1 \<longrightarrow> opened h) \<and> (opened h1 \<longrightarrow> opened h \<or> login (settings h) req \<and> finished st1)"
begin

lemma history_settings:
  "step_history step finished h st h1 st1 \<Longrightarrow> settings h1 = settings h"
  by (induction rule: step_history.induct) (simp_all add: settings_step)

lemma history_safe: "step_history step finished h st h1 st1 \<Longrightarrow> safe st \<Longrightarrow> safe st1"
  by (induction rule: step_history.induct) (simp_all add: safe_step)

lemma history_start:
  "step_history step finished h (start req) h1 st1 \<Longrightarrow>
     h1 = h \<and> st1 = start req \<or> (\<forall>r. st1 \<noteq> start r)"
  by (induction rule: step_history.induct) (auto dest: not_start)

lemma history_gate:
  assumes "step_history step finished h (start req) h1 st1" "locked (settings h)"
  shows "(inside st1 \<longrightarrow> opened h) \<and> (opened h1 \<longrightarrow> opened h \<or> login (settings h) req \<and> finished st1)"
  using assms
proof (induction rule: step_history.induct)
  case none
  show ?case by (auto simp: inside_iff)
next
  case (more h1 st1 w h2 w2 st2)
  show ?case
  proof (cases "inside st1")
    case True
    with more inside_step [OF more(3)] show ?thesis by blast
  next
    case False
    then have "h1 = h \<and> st1 = start req" using more(2) history_start [OF more(1)] by (auto simp: inside_iff)
    with more(3,5) gate show ?thesis by blast
  qed
qed

end

fun is_done :: "('c, 's, 'r) stage \<Rightarrow> bool" where
  "is_done (Done v) = True"
| "is_done st = False"

lemma is_done_iff: "is_done st \<longleftrightarrow> (\<exists>v. st = Done v)"
  by (cases st) auto

lemma outside_iff: "outside st \<longleftrightarrow> is_done st \<or> (\<exists>req. st = Begin req)"
  by (cases st) auto

interpretation gs: gated_steps "micro_step X" Begin is_done "\<lambda>st. \<not> outside st" stage_names_ok
  authenticated config "\<lambda>c. auth c \<noteq> []" "is_login X"
  for X :: "('q, 'c, 's, 'r, 'w) externals"
proof unfold_locales
  fix h h1 :: "'c request_handler" and w w1 :: "'q world" and st st1 :: "('c, 's, 'r) stage" and req
  show "micro_step X h w st = (h1, w1, st1) \<Longrightarrow> config h1 = config h" by (rule micro_step_config)
  show "stage_names_ok (Begin req :: ('c, 's, 'r) stage)" by simp
  show "micro_step X h w st = (h1, w1, st1) \<Longrightarrow> stage_names_ok st \<Longrightarrow> stage_names_ok st1"
    by (rule micro_step_names_ok)
  show "micro_step X h w st = (h1, w1, st1) \<Longrightarrow> st1 \<noteq> Begin req" by (rule micro_step_not_Begin)
  show "\<not> outside st \<longleftrightarrow> \<not> is_done st \<and> (\<forall>req. st \<noteq> Begin req)" by (simp add: outside_iff)
  show "micro_step X h w st = (h1, w1, st1) \<Longrightarrow> \<not> outside st \<Longrightarrow>
      authenticated h1 = authenticated h"
    by (rule micro_step_authenticated)
  show "micro_step X h w (Begin req) = (h1, w1, st1) \<Longrightarrow> auth (config h) \<noteq> [] \<Longrightarrow>
      (\<not> outside st1 \<longrightarrow> authenticated h) \<and>
      (authenticated h1 \<longrightarrow> authenticated h \<or> is_login X (config h) req \<and> is_done st1)"
    using micro_step_Begin [of X h w req h1 w1 st1] by (auto simp: is_done_iff)
qed

end
