(* ===== verification/Handler_Interleaved.thy ===== *)
theory Handler_Interleaved
  imports Handler_Micro
begin

text \<open>
  What a \<open>QUERY\<close> (\<open>src/src/handler.rs\<close>, \<open>run_query\<close>) answers when other connections and other
  programs run between its accesses to the world, so that no two of its calls of the engine need
  to see the same world.
\<close>

section \<open>A pass of a cursor\<close>

text \<open>The rows a cursor gave up to now, each call of \<open>Rows::next\<close> in a world of its own.\<close>

inductive cursor_gave ::
  "('q, 'c, 's, 'r, 'w) rusqlite \<Rightarrow> 'r \<Rightarrow> 'w list \<Rightarrow> 'r \<Rightarrow> bool" for sq rows0 where
  fresh: "cursor_gave sq rows0 [] rows0"
| row: "cursor_gave sq rows0 xs rows \<Longrightarrow> sq_next sq rows w = (Inr (Some x), rows1, w1) \<Longrightarrow>
    cursor_gave sq rows0 (xs @ [x]) rows1"

text \<open>A row and the object sent for it: every cell was read, and stands under its column.\<close>

definition row_sent ::
  "('q, 'c, 's, 'r, 'w) rusqlite \<Rightarrow> string list \<Rightarrow> 'w \<Rightarrow> (string \<times> json) list \<Rightarrow> bool" where
  "row_sent sq columns x obj \<longleftrightarrow>
     (\<exists>cell. (\<forall>i < length columns. sq_get_ref sq x i = Inr (cell i)) \<and> row_matches columns cell obj)"

lemma row_object_cells:
  "row_object sq x i names obj = Inr obj1 \<Longrightarrow> k < length names \<Longrightarrow> \<exists>v. sq_get_ref sq x (i + k) = Inr v"
proof (induction names arbitrary: i k obj)
  case (Cons n ns)
  then show ?case
    using Cons.IH [of "Suc i" _ "k - 1"] by (cases k) (auto split: sum.splits)
qed simp

lemma row_object_sent:
  assumes "row_object sq x 0 columns [] = Inr obj"
  shows "row_sent sq columns x obj"
proof -
  define cell where "cell i = projr (sq_get_ref sq x i)" for i
  have c: "sq_get_ref sq x i = Inr (cell i)" if "i < length columns" for i
    using row_object_cells [OF assms that] by (auto simp: cell_def)
  with row_object_matches [of columns sq x cell] assms show ?thesis
    by (auto simp: row_sent_def)
qed

section \<open>How a request came to its stage\<close>

text \<open>The request is a \<open>QUERY\<close> for this database with this text.\<close>

definition asks ::
  "('q, 'c, 's, 'r, 'w) externals \<Rightarrow> string \<Rightarrow> json \<Rightarrow> string \<Rightarrow> string \<Rightarrow> bool" where
  "asks X req json db query \<longleftrightarrow>
     parse_request X req = Inr json \<and>
     (\<exists>cmd. get_str json ''cmd'' = Some cmd \<and> eq_ignore_ascii_case cmd ''QUERY'') \<and>
     get_str json ''db'' = Some db \<and> get_str json ''query'' = Some query"

fun command_asked ::
  "('q, 'c, 's, 'r, 'w) externals \<Rightarrow> string \<Rightarrow> command \<Rightarrow> bool" where
  "command_asked X req (QueryCommand json db query) = asks X req json db query"
| "command_asked X req (DeleteCommand json db) = True"

text \<open>The statement was prepared from the text of the query on the connection of its database.\<close>

definition prepared ::
  "('q, 'c, 's, 'r, 'w) externals \<Rightarrow> string \<Rightarrow> 'c request_handler \<Rightarrow> 's \<Rightarrow> bool" where
  "prepared X req h stmt \<longleftrightarrow>
     (\<exists>json db query conn w w1. asks X req json db query \<and> map_of (databases h) db = Some conn \<and>
        sq_prepare (sqlite X) conn query w = (Inr stmt, w1))"

text \<open>The objects stand for the rows one execution of the statement gave, the last cursor being
  \<open>rows\<close>.\<close>

definition fetched ::
  "('q, 'c, 's, 'r, 'w) externals \<Rightarrow> 's \<Rightarrow> (string \<times> json) list list \<Rightarrow> 'r \<Rightarrow> bool" where
  "fetched X stmt objs rows \<longleftrightarrow>
     (\<exists>w rows0 w1 xs. sq_query (sqlite X) stmt w = (Inr rows0, w1) \<and>
        cursor_gave (sqlite X) rows0 xs rows \<and>
        list_all2 (row_sent (sqlite X) (sq_column_names (sqlite X) stmt)) xs objs)"

text \<open>An answer with data is the whole of such a pass.\<close>

definition whole_answer ::
  "('q, 'c, 's, 'r, 'w) externals \<Rightarrow> string \<Rightarrow> 'c request_handler \<Rightarrow> json \<Rightarrow> bool" where
  "whole_answer X req h v \<longleftrightarrow>
     (\<exists>stmt objs rows w rows1 w1. prepared X req h stmt \<and> fetched X stmt objs rows \<and>
        sq_next (sqlite X) rows w = (Inr None, rows1, w1) \<and>
        v = query_result (sq_column_names (sqlite X) stmt) (map Object objs))"

fun came_to ::
  "('q, 'c, 's, 'r, 'w) externals \<Rightarrow> string \<Rightarrow> 'c request_handler \<Rightarrow> ('c, 's, 'r) stage \<Rightarrow> bool" where
  "came_to X req h (Begin r) = (r = req)"
| "came_to X req h (CheckExists cmd) = command_asked X req cmd"
| "came_to X req h (CanonicalFolder cmd) = command_asked X req cmd"
| "came_to X req h (CanonicalFull cmd folder) = command_asked X req cmd"
| "came_to X req h (OpenDb json db query) = asks X req json db query"
| "came_to X req h (Configure json db query conn) = asks X req json db query"
| "came_to X req h (Prepare json conn query) =
     (\<exists>db. asks X req json db query \<and> map_of (databases h) db = Some conn)"
| "came_to X req h (StartRows json stmt) = prepared X req h stmt"
| "came_to X req h (FetchRow json stmt rows_data rows) =
     (prepared X req h stmt \<and> (\<exists>objs. rows_data = map Object objs \<and> fetched X stmt objs rows))"
| "came_to X req h (Finalize stmt v) = (value_get v ''data'' = None \<or> whole_answer X req h v)"
| "came_to X req h (Done v) = (value_get v ''data'' = None \<or> whole_answer X req h v)"
| "came_to X req h st = True"

section \<open>Every step keeps it\<close>

lemma preparedI:
  "asks X req json db query \<Longrightarrow> map_of (databases h) db = Some conn \<Longrightarrow>
     sq_prepare (sqlite X) conn query w = (Inr stmt, w1) \<Longrightarrow> prepared X req h stmt"
  unfolding prepared_def by (intro exI conjI)

lemma whole_answerI:
  "prepared X req h stmt \<Longrightarrow> fetched X stmt objs rows \<Longrightarrow>
     sq_next (sqlite X) rows w = (Inr None, rows1, w1) \<Longrightarrow>
     whole_answer X req h (query_result (sq_column_names (sqlite X) stmt) (map Object objs))"
  unfolding whole_answer_def by (intro exI conjI) simp_all

lemma no_data [simp]:
  "value_get (generic_error code r) ''data'' = None"
  "value_get (invalid_format message req) ''data'' = None"
  "value_get (result_json ok) ''data'' = None"
  "value_get (sql_error e r) ''data'' = None"
  "value_get (listed names) ''data'' = None"
  by (simp_all add: generic_error_def invalid_format_def result_json_def sql_error_def listed_def)

lemma came_to_command_stage:
  "command_asked X req cmd \<Longrightarrow> came_to X req h (command_stage h cmd safe)"
  by (cases cmd) (auto split: option.split)

lemma came_to_begin:
  assumes "begin_request X h req = (h1, st1)"
  shows "came_to X req h1 st1"
proof -
  have "came_to X req h (check_stage h cmd)" if "command_asked X req cmd" for cmd
    using that came_to_command_stage [OF that, of h False] by (simp add: check_stage_def)
  moreover have "command_asked X req (QueryCommand json db query)"
    if "parse_request X req = Inr json" "get_str json ''cmd'' = Some cmd"
      "eq_ignore_ascii_case cmd ''QUERY''" "get_str json ''db'' = Some db" "get_str json ''query'' = Some query"
    for json cmd db query
    using that by (auto simp: asks_def)
  ultimately have "came_to X req h (dispatch_stage h req json)" if "parse_request X req = Inr json" for json
    using that by (auto simp: dispatch_stage_def query_stage_def delete_stage_def split: option.split)
  then show ?thesis
    using assms by (auto simp: begin_request_def split: sum.splits if_splits)
qed

lemma fetched_more:
  assumes "fetched X stmt objs rows" "sq_next (sqlite X) rows w = (Inr (Some x), rows1, w1)"
    and "row_object (sqlite X) x 0 (sq_column_names (sqlite X) stmt) [] = Inr obj"
  shows "fetched X stmt (objs @ [obj]) rows1"
proof -
  obtain w0 rows0 w2 xs where f: "sq_query (sqlite X) stmt w0 = (Inr rows0, w2)"
    "cursor_gave (sqlite X) rows0 xs rows"
    "list_all2 (row_sent (sqlite X) (sq_column_names (sqlite X) stmt)) xs objs"
    using assms(1) by (auto simp: fetched_def)
  have "list_all2 (row_sent (sqlite X) (sq_column_names (sqlite X) stmt)) (xs @ [x]) (objs @ [obj])"
    using f(3) row_object_sent [OF assms(3)] by (simp add: list_all2_appendI)
  with f(1) cursor_gave.row [OF f(2) assms(2)] show ?thesis
    unfolding fetched_def by blast
qed

lemma came_to_fetch:
  assumes "micro_step X h w (FetchRow json stmt rows_data rows) = (h1, w1, st1)"
    and "came_to X req h (FetchRow json stmt rows_data rows)"
  shows "came_to X req h1 st1"
proof -
  obtain objs where p: "prepared X req h stmt" "rows_data = map Object objs" "fetched X stmt objs rows"
    using assms(2) by auto
  obtain r rows1 w2 where n: "sq_next (sqlite X) rows w = (r, rows1, w2)"
    by (cases "sq_next (sqlite X) rows w")
  show ?thesis
  proof (cases r rule: sum_option_cases)
    case 2
    then have "whole_answer X req h (query_result (sq_column_names (sqlite X) stmt) rows_data)"
      using n p whole_answerI [OF p(1,3)] by simp
    then show ?thesis using assms(1) n 2 by (auto simp: Let_def)
  next
    case (3 x)
    show ?thesis
    proof (cases "row_object (sqlite X) x 0 (sq_column_names (sqlite X) stmt) []")
      case (Inr obj)
      then have "rows_data @ [Object obj] = map Object (objs @ [obj]) \<and> fetched X stmt (objs @ [obj]) rows1"
        using fetched_more [OF p(3)] n 3 p(2) by simp
      then show ?thesis using assms(1) n 3 Inr p(1) by (auto simp: Let_def simp del: map_append)
    qed (use assms(1) n 3 in \<open>auto simp: Let_def\<close>)
  qed (use assms(1) n in \<open>auto simp: Let_def\<close>)
qed

lemma fetched_fresh:
  "sq_query (sqlite X) stmt w = (Inr rows, w1) \<Longrightarrow> fetched X stmt [] rows"
  unfolding fetched_def by (intro exI conjI, assumption, rule cursor_gave.fresh, simp)

lemma came_to_step:
  assumes "micro_step X h w st = (h1, w1, st1)" "came_to X req h st"
  shows "came_to X req h1 st1"
  using assms
proof (cases "(X, h, w, st)" rule: micro_step.cases)
  case (1 X' h' w' r)
  then show ?thesis using assms came_to_begin [of X h r h1 st1] by (auto split: prod.splits)
next
  case (6 X' h' w' json db query conn)
  then show ?thesis
    using assms by (auto simp: update_conv' split: prod.splits sum.splits)
next
  case (8 X' h' w' json conn query)
  then show ?thesis using assms by (auto split: prod.splits sum.splits intro: preparedI)
next
  case (9 X' h' w' json stmt)
  then show ?thesis
    using assms by (auto split: prod.splits sum.splits intro: fetched_fresh)
next
  case (10 X' h' w' json stmt rows_data rows)
  then have st: "st = FetchRow json stmt rows_data rows" by simp
  from assms show ?thesis unfolding st by (rule came_to_fetch)
qed (auto simp: came_to_command_stage split: prod.splits sum.splits option.splits if_splits)

lemma came_to_history:
  "step_history (micro_step X) is_done h (Begin req) h1 st1 \<Longrightarrow> came_to X req h1 st1"
  by (induction rule: step_history.induct) (auto dest: came_to_step)

section \<open>Properties\<close>

text \<open>C7: An answer with data is never torn: whatever other connections and programs do to the world
  between the accesses of a request, an answer that carries data comes from one statement,
  prepared from the text of the query on the cached connection of its database, and from one
  complete pass of its cursor: the column names in order, and one object for every row the cursor
  gave, in that order, each with the value of every cell under its column.\<close>

theorem interleaved_query_rows:
  assumes "step_history (micro_step X) is_done h (Begin req) h1 (Done v)" "value_get v ''data'' \<noteq> None"
  shows "\<exists>json db query conn stmt w0 w1 w2 rows0 w3 xs rows w4 rows1 w5 objs.
    asks X req json db query \<and> map_of (databases h1) db = Some conn \<and>
    sq_prepare (sqlite X) conn query w0 = (Inr stmt, w1) \<and>
    sq_query (sqlite X) stmt w2 = (Inr rows0, w3) \<and>
    cursor_gave (sqlite X) rows0 xs rows \<and> sq_next (sqlite X) rows w4 = (Inr None, rows1, w5) \<and>
    list_all2 (row_sent (sqlite X) (sq_column_names (sqlite X) stmt)) xs objs \<and>
    v = query_result (sq_column_names (sqlite X) stmt) (map Object objs)"
proof -
  have "whole_answer X req h1 v" using came_to_history [OF assms(1)] assms(2) by simp
  then obtain stmt objs rows w4 rows1 w5 where p: "prepared X req h1 stmt" and f: "fetched X stmt objs rows"
    and e: "sq_next (sqlite X) rows w4 = (Inr None, rows1, w5)"
      "v = query_result (sq_column_names (sqlite X) stmt) (map Object objs)"
    unfolding whole_answer_def by blast
  from p obtain json db query conn w0 w1 where q: "asks X req json db query"
    "map_of (databases h1) db = Some conn" "sq_prepare (sqlite X) conn query w0 = (Inr stmt, w1)"
    unfolding prepared_def by blast
  from f obtain w2 rows0 w3 xs where r: "sq_query (sqlite X) stmt w2 = (Inr rows0, w3)"
    "cursor_gave (sqlite X) rows0 xs rows"
    "list_all2 (row_sent (sqlite X) (sq_column_names (sqlite X) stmt)) xs objs"
    unfolding fetched_def by blast
  show ?thesis by (intro exI conjI) (rule q r e)+
qed

text \<open>A history from the worlds its steps find.\<close>

fun drive ::
  "('h \<Rightarrow> 'w \<Rightarrow> 'st \<Rightarrow> 'h \<times> 'w \<times> 'st) \<Rightarrow> ('st \<Rightarrow> bool) \<Rightarrow> 'h \<Rightarrow> 'st \<Rightarrow> 'w list \<Rightarrow> 'h \<times> 'st" where
  "drive step finished h st [] = (h, st)"
| "drive step finished h st (w # ws) =
     (if finished st then (h, st)
      else case step h w st of (h1, w1, st1) \<Rightarrow> drive step finished h1 st1 ws)"

lemma step_history_trans:
  "step_history step finished h1 st1 h2 st2 \<Longrightarrow> step_history step finished h st h1 st1 \<Longrightarrow>
     step_history step finished h st h2 st2"
  by (induction rule: step_history.induct) (auto intro: step_history.more)

lemma drive_history: "drive step finished h st ws = (h1, st1) \<Longrightarrow> step_history step finished h st h1 st1"
proof (induction ws arbitrary: h st)
  case Nil
  then show ?case by (auto intro: step_history.none)
next
  case (Cons w ws)
  show ?case
  proof (cases "finished st")
    case True
    with Cons.prems show ?thesis by (auto intro: step_history.none)
  next
    case False
    obtain h2 w2 st2 where s: "step h w st = (h2, w2, st2)" by (cases "step h w st")
    then have "step_history step finished h2 st2 h1 st1" using Cons.IH Cons.prems False by simp
    moreover have "step_history step finished h st h2 st2"
      by (rule step_history.more [where w = w, OF step_history.none [of step finished h st] False s])
    ultimately show ?thesis by (rule step_history_trans)
  qed
qed

text \<open>Twelve steps of a query; after its name is checked, another program has removed the file and
  used the engine before every step.\<close>

definition demo_worlds :: "string list world list" where
  "demo_worlds =
     demo_world # demo_world # demo_world # demo_world #
     replicate 8 (demo_world\<lparr>files := demo_files\<lparr>entries := [([''data''], Dir)]\<rparr>, engine := [''other'']\<rparr>)"

theorem interleaved_query_rows_witness:
  "\<exists>h1 v xs objs. drive (micro_step demo_externals) is_done (new_handler (demo_server []))
      (Begin ''select'') demo_worlds = (h1, Done v) \<and>
    cursor_gave demo_sqlite 2 xs 0 \<and> list_all2 (row_sent demo_sqlite [''n'', ''b'', ''n'']) xs objs \<and>
    v = query_result [''n'', ''b'', ''n''] (map Object objs)"
proof -
  let ?d = "drive (micro_step demo_externals) is_done (new_handler (demo_server [])) (Begin ''select'') demo_worlds"
  have d: "case snd ?d of Done v \<Rightarrow> value_get v ''data'' \<noteq> None | _ \<Rightarrow> False" by code_simp
  obtain h1 st where e: "?d = (h1, st)" by (cases ?d)
  with d obtain v where v: "?d = (h1, Done v)" "value_get v ''data'' \<noteq> None"
    by (cases st) simp_all
  obtain json db query conn stmt w0 w1 w2 rows0 w3 xs rows w4 rows1 w5 objs where r:
    "asks demo_externals ''select'' json db query" "sq_prepare (sqlite demo_externals) conn query w0 = (Inr stmt, w1)"
    "sq_query (sqlite demo_externals) stmt w2 = (Inr rows0, w3)"
    "cursor_gave (sqlite demo_externals) rows0 xs rows"
    "sq_next (sqlite demo_externals) rows w4 = (Inr None, rows1, w5)"
    "list_all2 (row_sent (sqlite demo_externals) (sq_column_names (sqlite demo_externals) stmt)) xs objs"
    "v = query_result (sq_column_names (sqlite demo_externals) stmt) (map Object objs)"
    using interleaved_query_rows [OF drive_history [OF v(1)] v(2)] by blast
  have p: "parse_request demo_externals ''select'' = Inr (demo_request ''QUERY'' ''a'' ''SELECT'')" by code_simp
  have "query = ''SELECT''" using r(1) by (auto simp: asks_def p demo_request_get)
  then have "stmt = ''SELECT''" using r(2) by (simp add: demo_sqlite_def)
  then have "rows0 = 2" "rows = 0" "sq_column_names demo_sqlite stmt = [''n'', ''b'', ''n'']"
    using r(3,5) by (simp_all add: demo_sqlite_def split: if_splits)
  with r(4,6,7) v(1) show ?thesis by auto
qed

end
