(* ===== verification/Connection.thy ===== *)
theory Connection
  imports Handler_Session
begin

text \<open>
  One connection (\<open>src/src/connection.rs\<close>): the length-prefixed framing over a byte stream and
  the loop that reads a request, hands it to the connection's own handler and writes the
  response. The stream is what the client will send before it closes, what was written to it, and
  how many bytes the peer still takes before a write fails.
\<close>

section \<open>The stream\<close>

record stream =
  inbox :: "u8 list"
  outbox :: "u8 list"
  accepts :: nat

datatype io_error = UnexpectedEof | BrokenPipe

text \<open>\<open>read_exact\<close>: all the bytes, or an error once the input has ended.\<close>

definition read_exact :: "nat \<Rightarrow> stream \<Rightarrow> (io_error + u8 list) \<times> stream" where
  "read_exact n s =
     (if n \<le> length (inbox s) then (Inr (take n (inbox s)), s\<lparr>inbox := drop n (inbox s)\<rparr>)
      else (Inl UnexpectedEof, s\<lparr>inbox := []\<rparr>))"

definition write_all :: "u8 list \<Rightarrow> stream \<Rightarrow> (io_error + unit) \<times> stream" where
  "write_all bs s =
     (let sent = take (accepts s) bs;
          s' = s\<lparr>outbox := outbox s @ sent, accepts := accepts s - length sent\<rparr>
      in if length bs \<le> accepts s then (Inr (), s') else (Inl BrokenPipe, s'))"

section \<open>Little-endian lengths\<close>

definition to_le_bytes :: "u32 \<Rightarrow> u8 list" where
  "to_le_bytes n = map (\<lambda>i. ucast (drop_bit (8 * i) n)) [0, 1, 2, 3]"

definition from_le_bytes :: "u8 list \<Rightarrow> u32" where
  "from_le_bytes bs = foldr (\<lambda>b n. ucast b OR push_bit 8 n) bs 0"

text \<open>A frame: the length as a \<open>u32\<close>, then the body.\<close>

definition frame :: "u8 list \<Rightarrow> u8 list" where
  "frame body = to_le_bytes (word_of_nat (length body)) @ body"

definition unframe :: "u8 list \<Rightarrow> (u8 list \<times> u8 list) option" where
  "unframe bs =
     (if length bs < 4 then None
      else
        let n = unat (from_le_bytes (take 4 bs)); rest = drop 4 bs in
        if length rest < n then None else Some (take n rest, drop n rest))"

section \<open>The loop\<close>

text \<open>The handler goes out of scope: its cached connections are closed.\<close>

definition drop_handler ::
  "('q, 'c, 's, 'r, 'w) externals \<Rightarrow> 'c request_handler \<Rightarrow> 'q world \<Rightarrow> 'q world" where
  "drop_handler X h w = fold (\<lambda>(_, conn). sq_close (sqlite X) conn) (databases h) w"

definition response_body :: "('q, 'c, 's, 'r, 'w) externals \<Rightarrow> json \<Rightarrow> u8 list" where
  "response_body X response =
     bytes_of_str (case json_to_string X response of Some s \<Rightarrow> s | None \<Rightarrow> ''{}'')"

lemma run_bind_cong [fundef_cong]:
  "r = r' \<Longrightarrow> (\<And>x. r' = Returns x \<Longrightarrow> f x = g x) \<Longrightarrow> run_bind r f = run_bind r' g"
  by (cases r') auto

function connection_loop ::
  "('q, 'c, 's, 'r, 'w) externals \<Rightarrow> 'c request_handler \<Rightarrow> 'q world \<Rightarrow> stream \<Rightarrow>
     ((io_error + unit) \<times> 'c request_handler \<times> 'q world \<times> stream) run" where
  "connection_loop X h w s =
     (case read_exact 4 s of
        (Inl e, s1) \<Rightarrow> Returns (Inr (), h, w, s1)
      | (Inr header, s1) \<Rightarrow>
          let packet_size = from_le_bytes header in
          if client_max_packet_size (config h) < packet_size then Returns (Inr (), h, w, s1)
          else
            (case read_exact (unat packet_size) s1 of
               (Inl e, s2) \<Rightarrow> Returns (Inr (), h, w, s2)
             | (Inr buf, s2) \<Rightarrow>
                 run_bind (handle_request X h w (from_utf8_lossy buf)) (\<lambda>(response, h1, w1).
                   case write_all (frame (response_body X response)) s2 of
                     (Inl e, s3) \<Rightarrow> Returns (Inl e, h1, w1, s3)
                   | (Inr _, s3) \<Rightarrow> connection_loop X h1 w1 s3)))"
  by pat_completeness auto
termination
  by (relation "measure (\<lambda>(X, h, w, s). length (inbox s))")
    (auto simp: read_exact_def write_all_def Let_def split: if_splits)

declare connection_loop.simps [simp del]

definition handle ::
  "('q, 'c, 's, 'r, 'w) externals \<Rightarrow> config \<Rightarrow> 'q world \<Rightarrow> stream \<Rightarrow>
     ((io_error + unit) \<times> 'q world \<times> stream) run" where
  "handle X c w s =
     run_bind (connection_loop X (new_handler c) w s)
       (\<lambda>(r, h, w, s). Returns (r, drop_handler X h w, s))"

section \<open>Framing\<close>

lemma length_to_le_bytes [simp]: "length (to_le_bytes n) = 4"
  by (simp add: to_le_bytes_def)

lemma from_to_le_bytes: "from_le_bytes (to_le_bytes n) = n"
proof (rule bit_word_eqI)
  fix i
  assume "i < LENGTH(32)"
  then have "(i < 8 \<or> 8 \<le> i \<and> i - 8 < 8 \<or> 16 \<le> i \<and> i - 16 < 8 \<or> 24 \<le> i \<and> i - 24 < 8)"
    by auto
  then show "bit (from_le_bytes (to_le_bytes n)) i = bit n i"
    by (auto simp: from_le_bytes_def to_le_bytes_def bit_simps)
qed

lemma length_frame [simp]: "length (frame body) = 4 + length body"
  by (simp add: frame_def)

lemma unat_frame_length: "unat (word_of_nat n :: u32) = n mod 2 ^ 32"
  by (simp add: unat_of_nat)

lemma unframe_frame:
  "unframe (frame body @ rest) =
     Some (take (length body mod 2 ^ 32) body, drop (length body mod 2 ^ 32) body @ rest)"
proof -
  have "length body mod 2 ^ 32 \<le> length body" by simp
  then have "\<not> length body + length rest < length body mod 2 ^ 32" by linarith
  then show ?thesis
    by (simp add: unframe_def frame_def from_to_le_bytes unat_frame_length Let_def)
qed

lemma unframe_frame_fits: "length b < 2 ^ 32 \<Longrightarrow> unframe (frame b @ rest) = Some (b, rest)"
  by (simp add: unframe_frame)

lemma unframe_consumes: "unframe bs = Some (b, rest) \<Longrightarrow> length rest < length bs"
  by (auto simp: unframe_def Let_def split: if_splits)

text \<open>
  What either side of a connection may assume of the framing. The client and the server both
  use it on byte streams of several frames.
\<close>

locale frame_codec =
  fixes enc :: "'b list \<Rightarrow> 'b list"
    and dec :: "'b list \<Rightarrow> ('b list \<times> 'b list) option"
    and fits :: "'b list \<Rightarrow> bool"
  assumes dec_enc: "fits b \<Longrightarrow> dec (enc b @ rest) = Some (b, rest)"
    and dec_consumes: "dec bs = Some (b, rest) \<Longrightarrow> length rest < length bs"
begin

lemma enc_nonempty: "fits b \<Longrightarrow> enc b \<noteq> []"
  using dec_enc [of b "[]"] dec_consumes by force

lemma enc_append_inject:
  "fits b \<Longrightarrow> fits b' \<Longrightarrow> enc b @ rest = enc b' @ rest' \<longleftrightarrow> b = b' \<and> rest = rest'"
  by (metis dec_enc option.inject prod.inject)

text \<open>A stream of frames has only one reading.\<close>

lemma concat_enc_inject:
  "\<forall>b \<in> set bs \<union> set bs'. fits b \<Longrightarrow> concat (map enc bs) = concat (map enc bs') \<longleftrightarrow> bs = bs'"
proof (induction bs arbitrary: bs')
  case Nil
  then show ?case using enc_nonempty by (cases bs') auto
next
  case (Cons b bs)
  show ?case
  proof (cases bs')
    case Nil
    with Cons.prems enc_nonempty show ?thesis by auto
  next
    case (Cons b' bs'')
    with Cons.prems Cons.IH [of bs''] show ?thesis by (simp add: enc_append_inject)
  qed
qed

end

interpretation wire: frame_codec frame unframe "\<lambda>b. length b < 2 ^ 32"
  by unfold_locales (rule unframe_frame_fits unframe_consumes, assumption)+

section \<open>The loop, frame by frame\<close>

text \<open>An input on which the loop stops: no whole header, an oversized length, or a short body.\<close>

definition stops_at :: "config \<Rightarrow> u8 list \<Rightarrow> bool" where
  "stops_at c bs \<longleftrightarrow> length bs < 4 \<or> client_max_packet_size c < from_le_bytes (take 4 bs) \<or>
     length bs - 4 < unat (from_le_bytes (take 4 bs))"

lemma connection_loop_stops:
  assumes "stops_at (config h) (inbox s)"
  shows "\<exists>rest. connection_loop X h w s = Returns (Inr (), h, w, s\<lparr>inbox := rest\<rparr>)"
  using assms by (subst connection_loop.simps) (auto simp: stops_at_def read_exact_def Let_def)

lemma connection_loop_frame:
  assumes "inbox s = frame b @ rest" "length b \<le> unat (client_max_packet_size (config h))"
  shows "connection_loop X h w s =
    run_bind (handle_request X h w (from_utf8_lossy b)) (\<lambda>(response, h1, w1).
      case write_all (frame (response_body X response)) (s\<lparr>inbox := rest\<rparr>) of
        (Inl e, s3) \<Rightarrow> Returns (Inl e, h1, w1, s3)
      | (Inr _, s3) \<Rightarrow> connection_loop X h1 w1 s3)"
proof -
  let ?n = "word_of_nat (length b) :: u32"
  have "length b < 2 ^ 32"
    using assms(2) unsigned_less [of "client_max_packet_size (config h)", where ?'a = nat] by simp
  then have n: "unat ?n = length b" by (simp add: unat_of_nat)
  then have fits: "\<not> client_max_packet_size (config h) < ?n"
    using assms(2) by (simp add: word_less_nat_alt)
  have r1: "read_exact 4 s = (Inr (to_le_bytes ?n), s\<lparr>inbox := b @ rest\<rparr>)"
    using assms(1) by (simp add: read_exact_def frame_def)
  have r2: "read_exact (length b) (s\<lparr>inbox := b @ rest\<rparr>) = (Inr b, s\<lparr>inbox := rest\<rparr>)"
    by (simp add: read_exact_def)
  show ?thesis
    by (subst connection_loop.simps) (simp add: r1 from_to_le_bytes fits n r2)
qed

lemma write_all_fits:
  "length bs \<le> accepts s \<Longrightarrow>
     write_all bs s = (Inr (), s\<lparr>outbox := outbox s @ bs, accepts := accepts s - length bs\<rparr>)"
  by (simp add: write_all_def)

lemma connection_loop_frames:
  assumes "inbox s = concat (map frame bodies) @ tail" "stops_at (config h) tail"
    and "\<forall>b \<in> set bodies. length b \<le> unat (client_max_packet_size (config h))"
    and "handle_all X h w (map from_utf8_lossy bodies) = Returns (vs, h1, w1)" "handler_ok h"
    and "length (concat (map (\<lambda>v. frame (response_body X v)) vs)) \<le> accepts s"
  shows "\<exists>s1. connection_loop X h w s = Returns (Inr (), h1, w1, s1) \<and>
    outbox s1 = outbox s @ concat (map (\<lambda>v. frame (response_body X v)) vs)"
  using assms
proof (induction bodies arbitrary: s h w vs)
  case Nil
  then show ?case using connection_loop_stops [of h s X w] by auto
next
  case (Cons b bodies)
  obtain v vs' h' w' where step: "handle_request X h w (from_utf8_lossy b) = Returns (v, h', w')"
    and rest: "handle_all X h' w' (map from_utf8_lossy bodies) = Returns (vs', h1, w1)"
    and vs: "vs = v # vs'"
    using Cons.prems(4) unfolding list.map handle_all_Cons_Returns by blast
  have h': "handler_ok h'" "config h' = config h"
    using handle_request_handler [OF step Cons.prems(5)] by auto
  let ?out = "frame (response_body X v)"
  define s' where "s' = s\<lparr>inbox := concat (map frame bodies) @ tail,
    outbox := outbox s @ ?out, accepts := accepts s - length ?out\<rparr>"
  have fits: "length ?out \<le> accepts s" "length (concat (map (\<lambda>v. frame (response_body X v)) vs')) \<le> accepts s'"
    using Cons.prems(6) vs by (simp_all add: s'_def)
  have "connection_loop X h w s = connection_loop X h' w' s'"
    using connection_loop_frame [of s b "concat (map frame bodies) @ tail" h X w] Cons.prems(1,3) fits(1)
    by (simp add: step write_all_fits s'_def)
  moreover obtain s1 where "connection_loop X h' w' s' = Returns (Inr (), h1, w1, s1)"
    "outbox s1 = outbox s' @ concat (map (\<lambda>v. frame (response_body X v)) vs')"
    using Cons.IH [of s' h' w' vs'] Cons.prems(2,3) rest h' fits(2) by (auto simp: s'_def)
  ultimately show ?case by (simp add: vs s'_def)
qed

text \<open>One round of the loop on any input.\<close>

lemma connection_loop_round:
  obtains (closed) s1 where "connection_loop X h w s = Returns (Inr (), h, w, s1)"
      "outbox s1 = outbox s"
  | (request) n s2 where
      "connection_loop X h w s =
        run_bind (handle_request X h w (from_utf8_lossy (take n (drop 4 (inbox s))))) (\<lambda>(response, h1, w1).
          case write_all (frame (response_body X response)) s2 of
            (Inl e, s3) \<Rightarrow> Returns (Inl e, h1, w1, s3)
          | (Inr _, s3) \<Rightarrow> connection_loop X h1 w1 s3)"
      "inbox s2 = drop (4 + n) (inbox s)" "4 \<le> length (inbox s)" "outbox s2 = outbox s"
      "n \<le> unat (client_max_packet_size (config h))"
proof (cases "stops_at (config h) (inbox s)")
  case True
  with connection_loop_stops [OF this, of X w] closed show thesis by fastforce
next
  case False
  let ?n = "unat (from_le_bytes (take 4 (inbox s)))"
  from False have ok: "4 \<le> length (inbox s)" "?n \<le> length (inbox s) - 4"
    "\<not> client_max_packet_size (config h) < from_le_bytes (take 4 (inbox s))"
    by (auto simp: stops_at_def)
  have r: "read_exact 4 s = (Inr (take 4 (inbox s)), s\<lparr>inbox := drop 4 (inbox s)\<rparr>)"
    "read_exact ?n (s\<lparr>inbox := drop 4 (inbox s)\<rparr>) =
      (Inr (take ?n (drop 4 (inbox s))), s\<lparr>inbox := drop (?n + 4) (inbox s)\<rparr>)"
    using ok by (simp_all add: read_exact_def)
  show thesis
    by (rule request [of ?n "s\<lparr>inbox := drop (4 + ?n) (inbox s)\<rparr>"])
      (use ok in \<open>simp_all add: connection_loop.simps [of X h w s] r add.commute word_less_nat_alt\<close>)
qed

lemma inbox_write_all: "write_all bs s = (r, s') \<Longrightarrow> inbox s' = inbox s"
  by (auto simp: write_all_def Let_def split: if_splits)

lemma connection_loop_outcome:
  "connection_loop X h w s \<noteq> Panics \<and>
   ((\<forall>stmt w rows w'. sq_query (sqlite X) stmt w = (Inr rows, w') \<longrightarrow> cursor_ends (sqlite X) rows w') \<longrightarrow>
      connection_loop X h w s \<noteq> Diverges)"
proof (induction "length (inbox s)" arbitrary: h w s rule: less_induct)
  case less
  show ?case
  proof (rule connection_loop_round [of X h w s])
    fix n s2
    let ?req = "from_utf8_lossy (take n (drop 4 (inbox s)))"
    assume round: "connection_loop X h w s = run_bind (handle_request X h w ?req) (\<lambda>(response, h1, w1).
          case write_all (frame (response_body X response)) s2 of
            (Inl e, s3) \<Rightarrow> Returns (Inl e, h1, w1, s3)
          | (Inr _, s3) \<Rightarrow> connection_loop X h1 w1 s3)"
      "inbox s2 = drop (4 + n) (inbox s)" "4 \<le> length (inbox s)"
    show ?thesis
    proof (cases "handle_request X h w ?req")
      case (Returns t)
      obtain v h1 w1 where t: "t = (v, h1, w1)" by (cases t)
      obtain r3 s3 where w3: "write_all (frame (response_body X v)) s2 = (r3, s3)"
        by (cases "write_all (frame (response_body X v)) s2")
      have "length (inbox s3) < length (inbox s)" using round(2,3) inbox_write_all [OF w3] by simp
      from less [OF this, of h1 w1] show ?thesis
        by (cases r3) (simp_all add: round(1) Returns t w3)
    qed (use handle_request_not_Panics [of X h w ?req] handle_request_Diverges [of X h w ?req]
        in \<open>auto simp: round(1)\<close>)
  qed auto
qed

lemma connection_loop_denied:
  assumes "auth (config h) \<noteq> []" "\<not> authenticated h"
    and "\<And>m n. \<not> is_login X (config h) (from_utf8_lossy (take n (drop m (inbox s))))"
  shows "\<exists>r s1. connection_loop X h w s = Returns (r, h, w, s1)"
  using assms(3)
proof (induction "length (inbox s)" arbitrary: s rule: less_induct)
  case less
  show ?case
  proof (rule connection_loop_round [of X h w s])
    fix n s2
    let ?req = "from_utf8_lossy (take n (drop 4 (inbox s)))"
    assume round: "connection_loop X h w s = run_bind (handle_request X h w ?req) (\<lambda>(response, h1, w1).
          case write_all (frame (response_body X response)) s2 of
            (Inl e, s3) \<Rightarrow> Returns (Inl e, h1, w1, s3)
          | (Inr _, s3) \<Rightarrow> connection_loop X h1 w1 s3)"
      "inbox s2 = drop (4 + n) (inbox s)" "4 \<le> length (inbox s)"
    obtain v where v: "handle_request X h w ?req = Returns (v, h, w)"
      using handle_request_denied [OF assms(1,2) less.prems [of n 4], of w] by blast
    obtain r3 s3 where w3: "write_all (frame (response_body X v)) s2 = (r3, s3)"
      by (cases "write_all (frame (response_body X v)) s2")
    have s3: "inbox s3 = drop (4 + n) (inbox s)" using round(2) inbox_write_all [OF w3] by simp
    then have "length (inbox s3) < length (inbox s)" using round(3) by simp
    from less.hyps [OF this] less.prems [of _ "_ + (4 + n)"]
    have "\<exists>r s1. connection_loop X h w s3 = Returns (r, h, w, s1)" by (simp add: s3)
    then show ?thesis
      by (cases r3) (simp_all add: round(1) v w3)
  qed auto
qed

section \<open>Properties\<close>

text \<open>C8: A connection is the framing of its handler: on a stream of frames, none larger than the
  packet limit, followed by anything that is not one more such frame (nothing, a cut-off frame, an
  oversized length), it answers the requests in order, one framed response each and nothing for
  the rest, and then closes, dropping its own cached database connections.\<close>

theorem handle_serves_frames:
  assumes "inbox s = concat (map frame bodies) @ tail" "stops_at c tail"
    and "\<forall>b \<in> set bodies. length b \<le> unat (client_max_packet_size c)"
    and "handle_all X (new_handler c) w (map from_utf8_lossy bodies) = Returns (vs, h1, w1)"
    and "length (concat (map (\<lambda>v. frame (response_body X v)) vs)) \<le> accepts s"
  shows "\<exists>s1. handle X c w s = Returns (Inr (), drop_handler X h1 w1, s1) \<and>
    outbox s1 = outbox s @ concat (map (\<lambda>v. frame (response_body X v)) vs)"
proof -
  have "config (new_handler c) = c" by (simp add: new_handler_def)
  then show ?thesis
    using connection_loop_frames [of s bodies tail "new_handler c" X w vs h1 w1] assms
    by (auto simp: handle_def handler_ok_new)
qed

definition demo_stream :: "string list \<Rightarrow> stream" where
  "demo_stream bodies =
     \<lparr>inbox = concat (map (frame \<circ> bytes_of_str) bodies), outbox = [], accepts = 100\<rparr>"

theorem handle_serves_frames_witness:
  "\<exists>w1 s1. handle demo_externals (demo_server ''pw'') demo_world (demo_stream [''wrong'', ''login'']) =
      Returns (Inr (), w1, s1) \<and>
    outbox s1 = frame (bytes_of_str ''other'') @ frame (bytes_of_str ''ok'')"
proof -
  let ?bodies = "[bytes_of_str ''wrong'', bytes_of_str ''login'']"
  have r: "case handle_all demo_externals (new_handler (demo_server ''pw'')) demo_world
        (map from_utf8_lossy ?bodies) of
      Returns (vs, _, _) \<Rightarrow> map (json_to_string demo_externals) vs = [Some ''other'', Some ''ok'']
    | _ \<Rightarrow> False"
    by code_simp
  then obtain vs h1 w1 where all: "handle_all demo_externals (new_handler (demo_server ''pw'')) demo_world
      (map from_utf8_lossy ?bodies) = Returns (vs, h1, w1)"
    and vs: "map (json_to_string demo_externals) vs = [Some ''other'', Some ''ok'']"
    by (auto split: run.splits)
  have out: "concat (map (\<lambda>v. frame (response_body demo_externals v)) vs) =
      frame (bytes_of_str ''other'') @ frame (bytes_of_str ''ok'')"
    using vs by (auto simp: response_body_def)
  show ?thesis
    using handle_serves_frames [of "demo_stream [''wrong'', ''login'']" ?bodies "[]" "demo_server ''pw''"
        demo_externals demo_world vs h1 w1] all
    by (auto simp: out demo_stream_def stops_at_def demo_server_def)
qed

text \<open>C28: A connection never panics, and it ends if the engine's cursors do: whatever the client
  sends, the loop stops after finitely many requests.\<close>

theorem handle_total:
  "handle X c w s \<noteq> Panics \<and>
   ((\<forall>stmt w rows w'. sq_query (sqlite X) stmt w = (Inr rows, w') \<longrightarrow> cursor_ends (sqlite X) rows w') \<longrightarrow>
      (\<exists>r. handle X c w s = Returns r))"
  using connection_loop_outcome [of X "new_handler c" w s]
  by (cases "connection_loop X (new_handler c) w s") (auto simp: handle_def)

theorem handle_total_witness:
  "\<exists>r. handle finite_externals (demo_server []) demo_world (demo_stream [''loop'', ''list'']) = Returns r"
  using handle_total [of finite_externals "demo_server []" demo_world "demo_stream [''loop'', ''list'']"]
    finite_cursors by blast

text \<open>The framing is unambiguous below 4 GiB: a stream of such frames has one reading.\<close>

theorem frames_inject:
  assumes "\<forall>b \<in> set bs \<union> set bs'. length b < 2 ^ 32"
  shows "concat (map frame bs) = concat (map frame bs') \<longleftrightarrow> bs = bs'"
  using assms by (rule wire.concat_enc_inject)

theorem frames_inject_witness:
  "concat (map frame [[1, 2], []]) \<noteq> concat (map frame [[1], [2]])"
  using frames_inject [of "[[1, 2], []]" "[[1], [2]]"] by simp

text \<open>A response of 4 GiB or more breaks it: the length is cut to 32 bits, so the peer reads
  the body modulo 4 GiB, and takes the remainder for the next header.\<close>

theorem frame_length_wraps:
  "unframe (frame body @ rest) =
     Some (take (length body mod 2 ^ 32) body, drop (length body mod 2 ^ 32) body @ rest)"
  by (rule unframe_frame)

text \<open>A client that never sends the password changes nothing, whatever bytes it sends and
  however the connection ends: neither a file nor the engine is touched.\<close>

theorem unauthenticated_connection:
  assumes "auth c \<noteq> []" "\<And>m n. \<not> is_login X c (from_utf8_lossy (take n (drop m (inbox s))))"
  shows "\<exists>r s1. handle X c w s = Returns (r, w, s1)"
proof -
  have "config (new_handler c) = c" "\<not> authenticated (new_handler c)" "databases (new_handler c) = []"
    by (simp_all add: new_handler_def)
  then show ?thesis
    using connection_loop_denied [of "new_handler c" X s w] assms
    by (auto simp: handle_def drop_handler_def)
qed

theorem unauthenticated_connection_witness:
  "\<exists>r s1. handle demo_externals (demo_server ''secret'') demo_world (demo_stream [''login'', ''drop'']) =
     Returns (r, demo_world, s1)"
proof -
  have "\<forall>p \<in> set demo_requests. get_str (snd p) ''auth'' \<noteq> Some ''secret''" by code_simp
  then have "get_str v ''auth'' \<noteq> Some ''secret''" if "parse_request demo_externals req = Inr v" for req v
    using that
    by (auto simp: parse_request_def demo_externals_def ok_or_Inr_iff split: sum.splits dest!: map_of_SomeD)
  then have "\<not> is_login demo_externals (demo_server ''secret'') req" for req
    by (auto simp: is_login_def split: sum.splits)
  with unauthenticated_connection [of "demo_server ''secret''" demo_externals] show ?thesis by simp
qed

end
