(* ===== verification/Server.thy ===== *)
theory Server
  imports Connection Config
begin

text \<open>
  The accept loop and its connections (\<open>src/src/server.rs\<close>): a step relation whose steps are
  those of the accept loop and of the connection tasks it spawns, in any order. The shutdown ends
  the accept loop only; the tasks go on until the process ends (theory Program). A task is where
  \<open>connection::handle\<close> can be waiting: reading a request, waiting for a permit of the query
  limiter, running the handler with the permit, or writing the response.
\<close>

section \<open>The state\<close>

datatype phase = Reading | Waiting string | Running string | Writing json

record 'c conn =
  peer :: ip_addr
  handler :: "'c request_handler"
  socket :: stream
  phase :: phase

text \<open>Connection numbers are never used twice.\<close>

record ('c, 'q) server =
  accepting :: bool
  permits :: nat
  next_id :: nat
  conns :: "nat \<Rightarrow> 'c conn option"
  world :: "'q world"

definition query_limit :: "config \<Rightarrow> nat" where
  "query_limit c = max (unat (workers c)) 1"

definition start_server :: "config \<Rightarrow> 'q world \<Rightarrow> ('c, 'q) server" where
  "start_server c w =
     \<lparr>accepting = True, permits = query_limit c, next_id = 0, conns = Map.empty, world = w\<rparr>"

section \<open>Steps\<close>

datatype event =
    Rejected ip_addr
  | Accepted nat ip_addr
  | AcceptFailed
  | Received nat string
  | Acquired nat
  | Ran nat string
  | Wrote nat
  | Closed nat
  | Shutdown

text \<open>The first half of a round of \<open>connection::handle\<close>: the next request, or the end.\<close>

definition read_request :: "config \<Rightarrow> stream \<Rightarrow> string option \<times> stream" where
  "read_request c s =
     (case read_exact 4 s of
        (Inl e, s1) \<Rightarrow> (None, s1)
      | (Inr header, s1) \<Rightarrow>
          let packet_size = from_le_bytes header in
          if client_max_packet_size c < packet_size then (None, s1)
          else
            (case read_exact (unat packet_size) s1 of
               (Inl e, s2) \<Rightarrow> (None, s2)
             | (Inr buf, s2) \<Rightarrow> (Some (from_utf8_lossy buf), s2)))"

definition spawn :: "config \<Rightarrow> ip_addr \<Rightarrow> stream \<Rightarrow> ('c, 'q) server \<Rightarrow> ('c, 'q) server" where
  "spawn c ip st s =
     s\<lparr>conns := (conns s)(next_id s \<mapsto>
          \<lparr>peer = ip, handler = new_handler c, socket = st, phase = Reading\<rparr>),
       next_id := Suc (next_id s)\<rparr>"

definition set_conn :: "nat \<Rightarrow> 'c conn \<Rightarrow> ('c, 'q) server \<Rightarrow> ('c, 'q) server" where
  "set_conn i cn s = s\<lparr>conns := (conns s)(i \<mapsto> cn)\<rparr>"

text \<open>The task returns: its handler is dropped, and the socket with it.\<close>

definition close_conn ::
  "('q, 'c, 's, 'r, 'w) externals \<Rightarrow> nat \<Rightarrow> 'c conn \<Rightarrow> ('c, 'q) server \<Rightarrow> ('c, 'q) server" where
  "close_conn X i cn s =
     s\<lparr>conns := (conns s)(i := None), world := drop_handler X (handler cn) (world s)\<rparr>"

inductive server_step ::
  "('q, 'c, 's, 'r, 'w) externals \<Rightarrow> config \<Rightarrow> ('c, 'q) server \<Rightarrow> event \<Rightarrow> ('c, 'q) server \<Rightarrow> bool"
  for X c where
  rejected:
    "accepting s \<Longrightarrow> is_ip_allowed c ip = Returns False \<Longrightarrow> server_step X c s (Rejected ip) s"
| accepted:
    "accepting s \<Longrightarrow> is_ip_allowed c ip = Returns True \<Longrightarrow> outbox st = [] \<Longrightarrow>
       server_step X c s (Accepted (next_id s) ip) (spawn c ip st s)"
| accept_failed: "accepting s \<Longrightarrow> server_step X c s AcceptFailed s"
| received:
    "conns s i = Some cn \<Longrightarrow> phase cn = Reading \<Longrightarrow>
       read_request c (socket cn) = (Some req, st) \<Longrightarrow>
       server_step X c s (Received i req) (set_conn i (cn\<lparr>socket := st, phase := Waiting req\<rparr>) s)"
| ended:
    "conns s i = Some cn \<Longrightarrow> phase cn = Reading \<Longrightarrow>
       read_request c (socket cn) = (None, st) \<Longrightarrow>
       server_step X c s (Closed i) (close_conn X i cn s)"
| acquired:
    "conns s i = Some cn \<Longrightarrow> phase cn = Waiting req \<Longrightarrow> 0 < permits s \<Longrightarrow>
       server_step X c s (Acquired i)
         ((set_conn i (cn\<lparr>phase := Running req\<rparr>) s)\<lparr>permits := permits s - 1\<rparr>)"
| ran:
    "conns s i = Some cn \<Longrightarrow> phase cn = Running req \<Longrightarrow>
       handle_request X (handler cn) (world s) req = Returns (v, h1, w1) \<Longrightarrow>
       server_step X c s (Ran i req)
         ((set_conn i (cn\<lparr>handler := h1, phase := Writing v\<rparr>) s)
            \<lparr>permits := Suc (permits s), world := w1\<rparr>)"
| wrote:
    "conns s i = Some cn \<Longrightarrow> phase cn = Writing v \<Longrightarrow>
       write_all (frame (response_body X v)) (socket cn) = (Inr u, st) \<Longrightarrow>
       server_step X c s (Wrote i) (set_conn i (cn\<lparr>socket := st, phase := Reading\<rparr>) s)"
| write_failed:
    "conns s i = Some cn \<Longrightarrow> phase cn = Writing v \<Longrightarrow>
       write_all (frame (response_body X v)) (socket cn) = (Inl e, st) \<Longrightarrow>
       server_step X c s (Closed i) (close_conn X i cn s)"
| shutdown: "accepting s \<Longrightarrow> server_step X c s Shutdown (s\<lparr>accepting := False\<rparr>)"

text \<open>A run with its events, the last one last.\<close>

inductive server_run ::
  "('q, 'c, 's, 'r, 'w) externals \<Rightarrow> config \<Rightarrow> ('c, 'q) server \<Rightarrow> event list \<Rightarrow> ('c, 'q) server \<Rightarrow> bool"
  for X c where
  start: "server_run X c s [] s"
| step: "server_run X c s tr s1 \<Longrightarrow> server_step X c s1 e s2 \<Longrightarrow> server_run X c s (tr @ [e]) s2"

inductive_simps server_run_Nil [simp]: "server_run X c s [] s'"

section \<open>Requests of one handler, whatever happens in between\<close>

text \<open>
  What the server relies on in a request handler: an invariant, a login flag that only a login
  message of its own sets. The world may change between two requests in any way. The history of a
  handler is its requests with their responses.
\<close>

inductive handler_history ::
  "('h \<Rightarrow> 'w \<Rightarrow> string \<Rightarrow> ('v \<times> 'h \<times> 'w) run) \<Rightarrow> 'h \<Rightarrow> string list \<Rightarrow> 'v list \<Rightarrow> 'h \<Rightarrow> bool"
  for exec where
  none: "handler_history exec h [] [] h"
| more: "handler_history exec h reqs vs h1 \<Longrightarrow> exec h1 w req = Returns (v, h2, w2) \<Longrightarrow>
    handler_history exec h (reqs @ [req]) (vs @ [v]) h2"

locale request_machine =
  fixes exec :: "'h \<Rightarrow> 'w \<Rightarrow> string \<Rightarrow> ('v \<times> 'h \<times> 'w) run"
    and ok :: "'h \<Rightarrow> bool"
    and logged_in :: "'h \<Rightarrow> bool"
    and login :: "string \<Rightarrow> bool"
  assumes ok_exec: "exec h w req = Returns (v, h1, w1) \<Longrightarrow> ok h \<Longrightarrow> ok h1"
    and logged_in_exec: "exec h w req = Returns (v, h1, w1) \<Longrightarrow> ok h \<Longrightarrow>
      logged_in h1 \<longleftrightarrow> logged_in h \<or> login req"
    and exec_no_panic: "exec h w req \<noteq> Panics"
begin

lemma history_ok:
  "handler_history exec h reqs vs h1 \<Longrightarrow> ok h \<Longrightarrow> ok h1"
  by (induction rule: handler_history.induct) (auto dest: ok_exec)

lemma history_logged_in:
  "handler_history exec h reqs vs h1 \<Longrightarrow> ok h \<Longrightarrow>
     logged_in h1 \<longleftrightarrow> logged_in h \<or> (\<exists>req \<in> set reqs. login req)"
  by (induction rule: handler_history.induct) (auto simp: logged_in_exec history_ok)

lemma history_length: "handler_history exec h reqs vs h1 \<Longrightarrow> length vs = length reqs"
  by (induction rule: handler_history.induct) auto

end

text \<open>The invariant of a connection's handler: without the login, no open database.\<close>

definition session_ok :: "config \<Rightarrow> 'c request_handler \<Rightarrow> bool" where
  "session_ok c h \<longleftrightarrow> handler_ok h \<and> config h = c \<and>
     (auth c \<noteq> [] \<and> \<not> authenticated h \<longrightarrow> databases h = [])"

lemma session_ok_new [wf_intros]: "session_ok c (new_handler c)"
  using handler_ok_new by (auto simp: session_ok_def new_handler_def)

lemma session_ok_handle_request:
  assumes "handle_request X h w req = Returns (v, h1, w1)" "session_ok c h"
  shows "session_ok c h1"
proof -
  have h: "handler_ok h" "config h = c" using assms(2) by (auto simp: session_ok_def)
  have "databases h1 = []" if "auth c \<noteq> []" "\<not> authenticated h1"
  proof -
    have "\<not> authenticated h" "\<not> is_login X c req"
      using handle_request_authenticated [OF assms(1) h(1)] h(2) that by auto
    then have "h1 = h" using handle_request_denied [of h X req w] assms(1) h(2) that(1) by simp
    then show ?thesis using assms(2) that by (simp add: session_ok_def)
  qed
  with handle_request_handler [OF assms(1) h(1)] h(2) show ?thesis by (simp add: session_ok_def)
qed

interpretation rm: request_machine "handle_request X" "session_ok c" authenticated
  "\<lambda>req. auth c \<noteq> [] \<and> is_login X c req"
  for X :: "('q, 'c, 's, 'r, 'w) externals" and c
proof unfold_locales
  fix h :: "'c request_handler" and w :: "'q world" and req v h1 w1
  assume r: "handle_request X h w req = Returns (v, h1, w1)" and ok: "session_ok c h"
  show "session_ok c h1" by (rule session_ok_handle_request [OF r ok])
  show "authenticated h1 \<longleftrightarrow> authenticated h \<or> auth c \<noteq> [] \<and> is_login X c req"
    using handle_request_authenticated [OF r] ok by (auto simp: session_ok_def)
qed (rule handle_request_not_Panics)

end
