(* ===== verification/Server_Safety.thy ===== *)
theory Server_Safety
  imports Server
begin

text \<open>
  What holds in every state the server of theory \<open>Server\<close> reaches: the query limit, the
  whitelist, and that the login of a connection is its own.
\<close>

section \<open>Reading a request\<close>

lemma read_request_frame:
  assumes "is_str req" "length (bytes_of_str req) \<le> unat (client_max_packet_size c)"
    and "inbox st = frame (bytes_of_str req) @ rest"
  shows "read_request c st = (Some req, st\<lparr>inbox := rest\<rparr>)"
proof -
  let ?n = "word_of_nat (length (bytes_of_str req)) :: u32"
  have "length (bytes_of_str req) < 2 ^ 32"
    using assms(2) unsigned_less [of "client_max_packet_size c", where ?'a = nat] by simp
  then have n: "unat ?n = length (bytes_of_str req)" by (simp add: unat_of_nat)
  then have "\<not> client_max_packet_size c < ?n" using assms(2) by (simp add: word_less_nat_alt)
  with assms(1,3) n show ?thesis
    by (simp add: read_request_def read_exact_def frame_def from_to_le_bytes from_utf8_lossy_str Let_def)
qed

section \<open>Counting over connections\<close>

text \<open>The total of a weight over the connections, and how one connection's change moves it.\<close>

definition total :: "('c conn option \<Rightarrow> nat) \<Rightarrow> ('c, 'q) server \<Rightarrow> nat" where
  "total f s = (\<Sum>i < next_id s. f (conns s i))"

definition numbered :: "('c, 'q) server \<Rightarrow> bool" where
  "numbered s \<longleftrightarrow> (\<forall>i. conns s i \<noteq> None \<longrightarrow> i < next_id s)"

lemma sum_update:
  fixes f :: "'b \<Rightarrow> nat"
  assumes "(i :: nat) < n"
  shows "(\<Sum>j < n. f ((g(i := x)) j)) + f (g i) = (\<Sum>j < n. f (g j)) + f x"
proof -
  have "(\<Sum>j < n. f (g' j)) = f (g' i) + (\<Sum>j \<in> {..<n} - {i}. f (g' j))" for g' :: "nat \<Rightarrow> 'b"
    using assms by (simp add: sum.remove)
  from this [of "g(i := x)"] this [of g] show ?thesis by simp
qed

lemma total_update:
  assumes "numbered s" "conns s i = Some cn" "conns s' = (conns s)(i := x)" "next_id s' = next_id s"
  shows "total f s' + f (Some cn) = total f s + f x"
  using sum_update [of i "next_id s" f "conns s" x] assms by (auto simp: total_def numbered_def)

lemma total_spawn:
  "total f (spawn c ip st s) =
     total f s + f (Some \<lparr>peer = ip, handler = new_handler c, socket = st, phase = Reading\<rparr>)"
proof -
  have "(\<Sum>j < next_id s. f (((conns s)(next_id s \<mapsto> cn)) j)) = (\<Sum>j < next_id s. f (conns s j))" for cn
    by (rule sum.cong) auto
  then show ?thesis by (simp add: total_def spawn_def)
qed

lemma total_frame [simp]:
  "total f (s\<lparr>permits := p\<rparr>) = total f s" "total f (s\<lparr>world := w\<rparr>) = total f s"
  "total f (s\<lparr>accepting := b\<rparr>) = total f s"
  by (simp_all add: total_def)

lemma total_set_conn:
  "numbered s \<Longrightarrow> conns s i = Some cn \<Longrightarrow>
     total f (set_conn i cn' s) + f (Some cn) = total f s + f (Some cn')"
  by (rule total_update) (simp_all add: set_conn_def)

lemma total_close_conn:
  "numbered s \<Longrightarrow> conns s i = Some cn \<Longrightarrow>
     total f (close_conn X i cn s) + f (Some cn) = total f s + f None"
  by (rule total_update) (simp_all add: close_conn_def)

lemma permits_frame [simp]:
  "permits (set_conn i cn s) = permits s" "permits (close_conn X i cn s) = permits s"
  "permits (spawn c ip st s) = permits s"
  by (simp_all add: set_conn_def close_conn_def spawn_def)

lemmas server_sels = set_conn_def close_conn_def spawn_def

lemma numbered_step: "server_step X c s e s' \<Longrightarrow> numbered s \<Longrightarrow> numbered s'"
  by (induction rule: server_step.induct) (auto simp: server_sels numbered_def less_Suc_eq)

section \<open>The query limit\<close>

fun running :: "'c conn option \<Rightarrow> nat" where
  "running None = 0"
| "running (Some cn) = (case phase cn of Running _ \<Rightarrow> 1 | _ \<Rightarrow> 0)"

lemma permits_step:
  assumes "server_step X c s e s'" "numbered s"
  shows "total running s' + permits s' = total running s + permits s"
  using assms
proof (induction rule: server_step.induct)
  case (received s i cn req st)
  show ?case
    using total_set_conn [OF received(4,1), of running "cn\<lparr>socket := st, phase := Waiting req\<rparr>"] received
    by simp
next
  case (ended s i cn st)
  then show ?case using total_close_conn [OF ended(4,1), of running X] by simp
next
  case (acquired s i cn req)
  then show ?case
    using total_set_conn [OF acquired(4,1), of running "cn\<lparr>phase := Running req\<rparr>"] by simp
next
  case (ran s i cn req v h1 w1)
  then show ?case
    using total_set_conn [OF ran(4,1), of running "cn\<lparr>handler := h1, phase := Writing v\<rparr>"] by simp
next
  case (wrote s i cn v u st)
  then show ?case
    using total_set_conn [OF wrote(4,1), of running "cn\<lparr>socket := st, phase := Reading\<rparr>"] by simp
next
  case (write_failed s i cn v e st)
  then show ?case using total_close_conn [OF write_failed(4,1), of running X] by simp
qed (simp_all add: total_spawn)

section \<open>The invariant\<close>

text \<open>The requests a connection has had answered, in order.\<close>

fun requests_of :: "nat \<Rightarrow> event list \<Rightarrow> string list" where
  "requests_of i [] = []"
| "requests_of i (Ran j req # tr) = (if j = i then req # requests_of i tr else requests_of i tr)"
| "requests_of i (e # tr) = requests_of i tr"

lemma requests_of_append [simp]: "requests_of i (tr @ tr') = requests_of i tr @ requests_of i tr'"
  by (induction i tr rule: requests_of.induct) auto

lemma set_requests_of: "req \<in> set (requests_of i tr) \<longleftrightarrow> Ran i req \<in> set tr"
  by (induction i tr rule: requests_of.induct) auto

text \<open>The responses that have been written.\<close>

fun sent :: "phase \<Rightarrow> json list \<Rightarrow> json list" where
  "sent (Writing v) vs = butlast vs"
| "sent ph vs = vs"

text \<open>What was written to a connection that has had these answers.\<close>

definition transcript ::
  "('q, 'c, 's, 'r, 'w) externals \<Rightarrow> json list \<Rightarrow> phase \<Rightarrow> stream \<Rightarrow> bool" where
  "transcript X vs ph st \<longleftrightarrow>
     outbox st = concat (map (\<lambda>v. frame (response_body X v)) (sent ph vs)) \<and>
     (\<forall>v. ph = Writing v \<longrightarrow> vs \<noteq> [] \<and> last vs = v)"

definition conn_ok ::
  "('q, 'c, 's, 'r, 'w) externals \<Rightarrow> config \<Rightarrow> event list \<Rightarrow> nat \<Rightarrow> 'c conn \<Rightarrow> bool" where
  "conn_ok X c tr i cn \<longleftrightarrow> is_ip_allowed c (peer cn) = Returns True \<and>
     (\<exists>vs. handler_history (handle_request X) (new_handler c) (requests_of i tr) vs (handler cn) \<and>
        transcript X vs (phase cn) (socket cn))"

definition server_inv ::
  "('q, 'c, 's, 'r, 'w) externals \<Rightarrow> config \<Rightarrow> event list \<Rightarrow> ('c, 'q) server \<Rightarrow> bool" where
  "server_inv X c tr s \<longleftrightarrow> numbered s \<and> total running s + permits s = query_limit c \<and>
     (\<forall>i cn. conns s i = Some cn \<longrightarrow> conn_ok X c tr i cn) \<and>
     (\<forall>i \<ge> next_id s. requests_of i tr = [])"

lemma server_inv_start: "server_inv X c [] (start_server c w)"
  by (simp add: server_inv_def start_server_def numbered_def total_def)

lemma outbox_read_request: "read_request c s = (r, s') \<Longrightarrow> outbox s' = outbox s"
  by (auto simp: read_request_def read_exact_def Let_def split: if_splits)

lemma outbox_write_all: "write_all bs s = (Inr u, s') \<Longrightarrow> outbox s' = outbox s @ bs"
  by (auto simp: write_all_def Let_def split: if_splits)

lemma concat_map_butlast: "xs \<noteq> [] \<Longrightarrow> concat (map f (butlast xs)) @ f (last xs) = concat (map f xs)"
  by (induction xs rule: rev_induct) simp_all

text \<open>The steps that execute no request: new handlers are fresh and for peers that may connect, the
  others stay, and what is sent stays a transcript of the same answers.\<close>

lemma step_transcript:
  assumes "server_step X c s e s1" "\<And>i req. e \<noteq> Ran i req" "conns s1 i = Some cn1"
  shows "(i = next_id s \<and> is_ip_allowed c (peer cn1) = Returns True \<and> handler cn1 = new_handler c \<and>
      phase cn1 = Reading \<and> outbox (socket cn1) = []) \<or>
    (\<exists>cn. conns s i = Some cn \<and> peer cn1 = peer cn \<and> handler cn1 = handler cn \<and>
       (phase cn1 = phase cn \<or> (\<forall>req. phase cn \<noteq> Running req)) \<and>
       (\<forall>vs. transcript X vs (phase cn) (socket cn) \<longrightarrow> transcript X vs (phase cn1) (socket cn1)))"
  using assms
proof (induction rule: server_step.induct)
  case (received s j cn req st)
  then show ?case
    using outbox_read_request [OF received(3)] by (auto simp: set_conn_def transcript_def split: if_splits)
next
  case (wrote s j cn v u st)
  have "transcript X vs Reading st" if "transcript X vs (Writing v) (socket cn)" for vs
    using that outbox_write_all [OF wrote(3)] concat_map_butlast [of vs "\<lambda>v. frame (response_body X v)"]
    by (auto simp: transcript_def)
  with wrote show ?case by (auto simp: set_conn_def split: if_splits)
next
  case (acquired s j cn req)
  then show ?case by (auto simp: set_conn_def transcript_def split: if_splits)
qed (auto simp: server_sels split: if_splits)

lemma next_id_step: "server_step X c s e s1 \<Longrightarrow> next_id s \<le> next_id s1"
  by (induction rule: server_step.induct) (auto simp: server_sels)

lemma conns_step_other:
  assumes "server_step X c s e s'" "\<And>i req. e \<noteq> Ran i req" "server_inv X c tr s"
    "conns s' i = Some cn"
  shows "conn_ok X c tr i cn"
proof -
  from step_transcript [OF assms(1,2,4)]
  consider "i = next_id s" "is_ip_allowed c (peer cn) = Returns True" "handler cn = new_handler c"
      "phase cn = Reading" "outbox (socket cn) = []"
    | cn0 where "conns s i = Some cn0" "peer cn = peer cn0" "handler cn = handler cn0"
      "\<And>vs. transcript X vs (phase cn0) (socket cn0) \<Longrightarrow> transcript X vs (phase cn) (socket cn)"
    by metis
  then show ?thesis
  proof cases
    case 1
    then have "requests_of i tr = []" using assms(3) by (simp add: server_inv_def)
    with 1 show ?thesis
      by (auto simp: conn_ok_def transcript_def intro!: exI [of _ "[]"] handler_history.none)
  next
    case 2
    then have "conn_ok X c tr i cn0" using assms(3) by (simp add: server_inv_def)
    with 2(2-4) show ?thesis by (auto simp: conn_ok_def)
  qed
qed

lemma conns_step:
  assumes "server_step X c s e s'" "server_inv X c tr s"
  shows "(\<forall>i cn. conns s' i = Some cn \<longrightarrow> conn_ok X c (tr @ [e]) i cn) \<and>
    (\<forall>i \<ge> next_id s'. requests_of i (tr @ [e]) = [])"
proof (cases "\<exists>i req. e = Ran i req")
  case False
  then have "requests_of i [e] = []" for i by (cases e) auto
  with False conns_step_other [OF assms(1) _ assms(2)] next_id_step [OF assms(1)] assms(2) show ?thesis
    by (auto simp: conn_ok_def server_inv_def)
next
  case True
  then obtain i req cn v h1 w1 where r: "e = Ran i req" "conns s i = Some cn" "phase cn = Running req"
    "handle_request X (handler cn) (world s) req = Returns (v, h1, w1)"
    "s' = (set_conn i (cn\<lparr>handler := h1, phase := Writing v\<rparr>) s)\<lparr>permits := Suc (permits s), world := w1\<rparr>"
    using assms(1) by (auto elim: server_step.cases)
  have ok: "conn_ok X c tr i cn" using assms(2) r(2) by (simp add: server_inv_def)
  then obtain vs where vs:
    "handler_history (handle_request X) (new_handler c) (requests_of i tr) vs (handler cn)"
    "transcript X vs (phase cn) (socket cn)"
    by (auto simp: conn_ok_def)
  have "transcript X (vs @ [v]) (Writing v) (socket cn)"
    using vs(2) r(3) by (simp add: transcript_def)
  with handler_history.more [OF vs(1) r(4)]
  have "conn_ok X c (tr @ [e]) i (cn\<lparr>handler := h1, phase := Writing v\<rparr>)"
    using ok r(1) by (auto simp: conn_ok_def intro!: exI [of _ "vs @ [v]"])
  moreover have "i < next_id s" using assms(2) r(2) by (auto simp: server_inv_def numbered_def)
  ultimately show ?thesis
    using assms(2) r(1,5) by (auto simp: server_inv_def set_conn_def conn_ok_def)
qed

lemma server_inv_step:
  "server_step X c s e s' \<Longrightarrow> server_inv X c tr s \<Longrightarrow> server_inv X c (tr @ [e]) s'"
  using conns_step [of X c s e s' tr] numbered_step [of X c s e s'] permits_step [of X c s e s']
  by (simp add: server_inv_def)

lemma server_inv_run: "server_run X c s0 tr s \<Longrightarrow> server_inv X c [] s0 \<Longrightarrow> server_inv X c tr s"
  by (induction rule: server_run.induct) (auto intro: server_inv_step)

lemma server_reached:
  "server_run X c (start_server c w) tr s \<Longrightarrow> server_inv X c tr s"
  using server_inv_run server_inv_start by blast

lemma reached_conn_ok:
  "server_run X c (start_server c w) tr s \<Longrightarrow> conns s i = Some cn \<Longrightarrow> conn_ok X c tr i cn"
  using server_reached [of X c w tr s] by (simp add: server_inv_def)

definition running_conns :: "('c, 'q) server \<Rightarrow> nat set" where
  "running_conns s = {i. \<exists>cn req. conns s i = Some cn \<and> phase cn = Running req}"

lemma running_eq: "running (conns s i) = (if i \<in> running_conns s then 1 else 0)"
  by (cases "conns s i") (auto simp: running_conns_def split: phase.splits)

lemma total_running: "numbered s \<Longrightarrow> total running s = card (running_conns s)"
proof -
  assume "numbered s"
  then have "running_conns s = {..<next_id s} \<inter> running_conns s"
    by (auto simp: numbered_def running_conns_def)
  moreover have "total running s = card ({..<next_id s} \<inter> running_conns s)"
    by (simp add: total_def running_eq sum.If_cases)
  ultimately show ?thesis by metis
qed

section \<open>A small run\<close>

text \<open>One peer connects and logs in; it is the run of the witnesses.\<close>

definition demo_task :: "phase \<Rightarrow> stream \<Rightarrow> string request_handler \<Rightarrow> string conn" where
  "demo_task ph st h = \<lparr>peer = V4 0x7F000001, handler = h, socket = st, phase = ph\<rparr>"

definition demo_conn_server :: "string conn \<Rightarrow> nat \<Rightarrow> (string, string list) server" where
  "demo_conn_server cn p =
     \<lparr>accepting = True, permits = p, next_id = 1, conns = [0 \<mapsto> cn], world = demo_world\<rparr>"

lemma demo_login:
  "handle_request demo_externals (new_handler (demo_server ''pw'')) demo_world ''login'' =
     Returns (result_json True, (new_handler (demo_server ''pw''))\<lparr>authenticated := True\<rparr>, demo_world)"
proof -
  have "parse_request demo_externals ''login'' =
      Inr (json_object [(''auth'', String ''pw''), (''cmd'', String ''LIST'')])"
    by code_simp
  then show ?thesis by (simp add: handle_request_def get_str_def)
qed

lemma demo_run:
  "\<exists>cn st. server_run demo_externals (demo_server ''pw'') (start_server (demo_server ''pw'') demo_world)
     [Accepted 0 (V4 0x7F000001), Received 0 ''login'', Acquired 0, Ran 0 ''login'']
     (demo_conn_server cn 4) \<and>
   cn = demo_task (Writing (result_json True)) st ((new_handler (demo_server ''pw''))\<lparr>authenticated := True\<rparr>)"
proof -
  let ?c = "demo_server ''pw''" and ?h = "new_handler (demo_server ''pw'') :: string request_handler"
  let ?in = "demo_stream [''login'']"
  let ?st = "?in\<lparr>inbox := []\<rparr>"
  have r: "read_request ?c ?in = (Some ''login'', ?st)"
  proof -
    have "fst (read_request ?c ?in) = Some ''login''" "inbox (snd (read_request ?c ?in)) = []"
      "outbox (snd (read_request ?c ?in)) = outbox ?in" "accepts (snd (read_request ?c ?in)) = accepts ?in"
      by code_simp+
    then show ?thesis by (cases "read_request ?c ?in") simp
  qed
  have a: "server_step demo_externals ?c (start_server ?c demo_world) (Accepted 0 (V4 0x7F000001))
      (demo_conn_server (demo_task Reading ?in ?h) 4)"
    using server_step.accepted [of "start_server ?c demo_world" ?c "V4 0x7F000001" ?in demo_externals]
    by (simp add: start_server_def spawn_def is_ip_allowed_def demo_server_def demo_conn_server_def
        demo_task_def query_limit_def demo_stream_def)
  have b: "server_step demo_externals ?c (demo_conn_server (demo_task Reading ?in ?h) 4)
      (Received 0 ''login'') (demo_conn_server (demo_task (Waiting ''login'') ?st ?h) 4)"
    using server_step.received [of "demo_conn_server (demo_task Reading ?in ?h) 4" 0
        "demo_task Reading ?in ?h" ?c "''login''" ?st demo_externals] r
    by (simp add: demo_conn_server_def demo_task_def set_conn_def)
  have d: "server_step demo_externals ?c (demo_conn_server (demo_task (Waiting ''login'') ?st ?h) 4)
      (Acquired 0) (demo_conn_server (demo_task (Running ''login'') ?st ?h) 3)"
    using server_step.acquired [of "demo_conn_server (demo_task (Waiting ''login'') ?st ?h) 4" 0
        "demo_task (Waiting ''login'') ?st ?h" "''login''" demo_externals ?c]
    by (simp add: demo_conn_server_def demo_task_def set_conn_def)
  have e: "server_step demo_externals ?c (demo_conn_server (demo_task (Running ''login'') ?st ?h) 3)
      (Ran 0 ''login'') (demo_conn_server (demo_task (Writing (result_json True)) ?st (?h\<lparr>authenticated := True\<rparr>)) 4)"
    using server_step.ran [of "demo_conn_server (demo_task (Running ''login'') ?st ?h) 3" 0
        "demo_task (Running ''login'') ?st ?h" "''login''" demo_externals] demo_login
    by (simp add: demo_conn_server_def demo_task_def set_conn_def)
  have "server_run demo_externals ?c (start_server ?c demo_world)
      ((([] @ [Accepted 0 (V4 0x7F000001)]) @ [Received 0 ''login'']) @ [Acquired 0] @ [Ran 0 ''login''])
      (demo_conn_server (demo_task (Writing (result_json True)) ?st (?h\<lparr>authenticated := True\<rparr>)) 4)"
    unfolding append_assoc [symmetric]
    by (rule server_run.step [OF server_run.step [OF server_run.step [OF server_run.step [OF server_run.start a] b] d] e])
  then show ?thesis by auto
qed

section \<open>Properties\<close>

text \<open>However requests, connections and shutdown interleave, the handlers that run at a time
  and the free permits always add up to the configured number of workers (at least one): no
  permit is lost or invented, and never more requests execute than that.\<close>

theorem query_limit_respected:
  assumes "server_run X c (start_server c w) tr s"
  shows "card (running_conns s) + permits s = max (unat (workers c)) 1 \<and>
    card (running_conns s) \<le> max (unat (workers c)) 1"
  using server_reached [OF assms] total_running [of s]
  by (auto simp: server_inv_def query_limit_def)

theorem query_limit_respected_witness:
  "\<exists>s :: (string, string list) server. permits s = 4 \<and> card (running_conns s) = 0 \<and>
     server_run demo_externals (demo_server ''pw'') (start_server (demo_server ''pw'') demo_world)
       [Accepted 0 (V4 0x7F000001), Received 0 ''login'', Acquired 0, Ran 0 ''login''] s"
proof -
  obtain cn where r: "server_run demo_externals (demo_server ''pw'')
      (start_server (demo_server ''pw'') demo_world)
      [Accepted 0 (V4 0x7F000001), Received 0 ''login'', Acquired 0, Ran 0 ''login''] (demo_conn_server cn 4)"
    using demo_run by blast
  have "permits (demo_conn_server cn 4) = 4" "unat (workers (demo_server ''pw'')) = 4"
    by (simp_all add: demo_conn_server_def demo_server_def)
  with query_limit_respected [OF r] r show ?thesis by (intro exI [of _ "demo_conn_server cn 4"]) simp
qed

text \<open>A connection is only ever served to a peer the whitelist lets in.\<close>

theorem only_allowed_peers:
  assumes "server_run X c (start_server c w) tr s" "conns s i = Some cn"
    and "\<forall>n \<in> set (ip_whitelist c). cidr_ok n"
  shows "ip_whitelist c = [] \<or>
    (\<exists>n \<in> set (ip_whitelist c). in_network (network n) (unat (prefix_len n)) (peer cn))"
proof -
  have "is_ip_allowed c (peer cn) = Returns True"
    using reached_conn_ok [OF assms(1,2)] by (simp add: conn_ok_def)
  then show ?thesis
    by (auto simp: is_ip_allowed_def any_contains_in_network [OF assms(3)] split: if_splits)
qed

theorem only_allowed_peers_witness:
  "\<exists>(s :: (string, string list) server) cn. conns s 0 = Some cn \<and> peer cn = V4 0x7F000001 \<and>
     in_network (V4 0x7F000000) 8 (peer cn)"
proof -
  let ?c = "(demo_server [])\<lparr>ip_whitelist := [\<lparr>network = V4 0x7F000000, prefix_len = 8\<rparr>]\<rparr>"
  let ?s = "spawn ?c (V4 0x7F000001) (demo_stream []) (start_server ?c demo_world) :: (string, string list) server"
  have "is_ip_allowed ?c (V4 0x7F000001) = Returns True" by code_simp
  then have "server_step demo_externals ?c (start_server ?c demo_world) (Accepted 0 (V4 0x7F000001)) ?s"
    using server_step.accepted [of "start_server ?c demo_world" ?c "V4 0x7F000001" "demo_stream []" demo_externals]
    by (simp add: start_server_def demo_stream_def)
  then have r: "server_run demo_externals ?c (start_server ?c demo_world) ([] @ [Accepted 0 (V4 0x7F000001)]) ?s"
    by (rule server_run.step [OF server_run.start])
  let ?cn = "\<lparr>peer = V4 0x7F000001, handler = new_handler ?c, socket = demo_stream [], phase = Reading\<rparr> :: string conn"
  have cn: "conns ?s 0 = Some ?cn" by (simp add: spawn_def start_server_def)
  have ok: "\<forall>n \<in> set (ip_whitelist ?c). cidr_ok n"
    by code_simp
  from only_allowed_peers [OF r cn ok] cn show ?thesis
    by (intro exI [of _ ?s] exI [of _ ?cn]) simp
qed

text \<open>A login belongs to its connection: in every reachable state a connection is
  authenticated exactly if one of its own requests carried the password, whatever the other
  connections sent, and as long as it is not, it has no database open.\<close>

theorem login_is_per_connection:
  assumes "server_run X c (start_server c w) tr s" "conns s i = Some cn" "auth c \<noteq> []"
  shows "(authenticated (handler cn) \<longleftrightarrow> (\<exists>req. Ran i req \<in> set tr \<and> is_login X c req)) \<and>
    (\<not> authenticated (handler cn) \<longrightarrow> databases (handler cn) = [])"
proof -
  obtain vs where h: "handler_history (handle_request X) (new_handler c) (requests_of i tr) vs (handler cn)"
    using reached_conn_ok [OF assms(1,2)] by (auto simp: conn_ok_def)
  show ?thesis
    using rm.history_ok [OF h session_ok_new] rm.history_logged_in [OF h session_ok_new] assms(3)
    by (auto simp: session_ok_def set_requests_of new_handler_def)
qed

theorem login_is_per_connection_witness:
  "\<exists>(s :: (string, string list) server) cn. conns s 0 = Some cn \<and> authenticated (handler cn) \<and>
     (\<exists>req. Ran 0 req \<in> set [Accepted 0 (V4 0x7F000001), Received 0 ''login'', Acquired 0, Ran 0 ''login''] \<and>
        is_login demo_externals (demo_server ''pw'') req)"
proof -
  obtain cn where r: "server_run demo_externals (demo_server ''pw'')
      (start_server (demo_server ''pw'') demo_world)
      [Accepted 0 (V4 0x7F000001), Received 0 ''login'', Acquired 0, Ran 0 ''login''] (demo_conn_server cn 4)"
    and a: "authenticated (handler cn)"
    using demo_run by (auto simp: demo_task_def)
  have cn: "conns (demo_conn_server cn 4) 0 = Some cn" by (simp add: demo_conn_server_def)
  from login_is_per_connection [OF r cn] a cn show ?thesis
    by (intro exI [of _ "demo_conn_server cn 4"] exI [of _ cn]) simp
qed

text \<open>Every client gets the responses to its own requests and nothing else: in every reachable
  state, however the connections interleave, what was written to a connection is one frame for
  each of its requests that was executed, in order (but for the one being written), each the
  response its own handler gave, starting from a new one.\<close>

theorem responses_in_order:
  assumes "server_run X c (start_server c w) tr s" "conns s i = Some cn"
  shows "\<exists>vs. handler_history (handle_request X) (new_handler c) (requests_of i tr) vs (handler cn) \<and>
    length vs = length (requests_of i tr) \<and>
    outbox (socket cn) = concat (map (\<lambda>v. frame (response_body X v)) (sent (phase cn) vs)) \<and>
    (\<forall>v. phase cn = Writing v \<longrightarrow> vs \<noteq> [] \<and> last vs = v)"
proof -
  obtain vs where vs: "handler_history (handle_request X) (new_handler c) (requests_of i tr) vs (handler cn)"
    "outbox (socket cn) = concat (map (\<lambda>v. frame (response_body X v)) (sent (phase cn) vs))"
    "\<forall>v. phase cn = Writing v \<longrightarrow> vs \<noteq> [] \<and> last vs = v"
    using reached_conn_ok [OF assms] unfolding conn_ok_def transcript_def by blast
  from vs rm.history_length [OF vs(1)] show ?thesis by blast
qed

theorem responses_in_order_witness:
  "\<exists>(s :: (string, string list) server) cn vs. conns s 0 = Some cn \<and> length vs = 1 \<and>
     last vs = result_json True \<and>
     handler_history (handle_request demo_externals) (new_handler (demo_server ''pw'')) [''login''] vs (handler cn)"
proof -
  obtain cn st where r: "server_run demo_externals (demo_server ''pw'')
      (start_server (demo_server ''pw'') demo_world)
      [Accepted 0 (V4 0x7F000001), Received 0 ''login'', Acquired 0, Ran 0 ''login''] (demo_conn_server cn 4)"
    and cn: "phase cn = Writing (result_json True)"
    using demo_run by (auto simp: demo_task_def)
  have "conns (demo_conn_server cn 4) 0 = Some cn" by (simp add: demo_conn_server_def)
  from responses_in_order [OF r this] this cn show ?thesis
    by (intro exI [of _ "demo_conn_server cn 4"] exI [of _ cn]) auto
qed

end
