(* ===== verification/Server_Progress.thy ===== *)
theory Server_Progress
  imports Server_Safety
begin

text \<open>
  What the server of theory \<open>Server\<close> eventually does: one connection left alone does what
  the sequential loop of theory \<open>Connection\<close> does, bytes and result included, connections that get no more input are all
  served and closed after finitely many steps, and what happens when every permit is held by a
  query that never ends.
\<close>

section \<open>One connection, left alone\<close>

lemma connection_loop_read_request:
  "connection_loop X h w s =
     (case read_request (config h) s of
        (None, s1) \<Rightarrow> Returns (Inr (), h, w, s1)
      | (Some req, s2) \<Rightarrow>
          run_bind (handle_request X h w req) (\<lambda>(response, h1, w1).
            case write_all (frame (response_body X response)) s2 of
              (Inl e, s3) \<Rightarrow> Returns (Inl e, h1, w1, s3)
            | (Inr _, s3) \<Rightarrow> connection_loop X h1 w1 s3))"
  by (subst connection_loop.simps) (auto simp: read_request_def Let_def split: prod.split sum.split)

lemma server_run_trans:
  "server_run X c s2 tr' s3 \<Longrightarrow> server_run X c s1 tr s2 \<Longrightarrow> server_run X c s1 (tr @ tr') s3"
  by (induction rule: server_run.induct) (auto simp flip: append_assoc intro: server_run.step)

lemma server_run_Cons:
  "server_step X c s1 e s2 \<Longrightarrow> server_run X c s2 tr s3 \<Longrightarrow> server_run X c s1 (e # tr) s3"
  using server_run_trans [of X c s2 tr s3 s1 "[e]"] server_run.step [OF server_run.start, of X c s1 e s2]
  by simp

text \<open>The connection an event belongs to.\<close>

fun event_conn :: "event \<Rightarrow> nat option" where
  "event_conn (Received i req) = Some i"
| "event_conn (Acquired i) = Some i"
| "event_conn (Ran i req) = Some i"
| "event_conn (Wrote i) = Some i"
| "event_conn (Closed i) = Some i"
| "event_conn e = None"

text \<open>One request of a task that is left alone: received, executed with a permit, and ready to be
  answered.\<close>

lemma task_serves_request:
  assumes "conns s i = Some \<lparr>peer = ip, handler = h, socket = st, phase = Reading\<rparr>"
    and "read_request c st = (Some req, st1)" "0 < permits s"
    and "handle_request X h (world s) req = Returns (v, h1, w1)"
  shows "server_run X c s [Received i req, Acquired i, Ran i req]
    (s\<lparr>conns := (conns s)(i \<mapsto> \<lparr>peer = ip, handler = h1, socket = st1, phase = Writing v\<rparr>), world := w1\<rparr>)"
proof -
  let ?cn = "\<lparr>peer = ip, handler = h, socket = st, phase = Reading\<rparr>"
  let ?cn1 = "?cn\<lparr>socket := st1, phase := Waiting req\<rparr>"
  let ?s1 = "set_conn i ?cn1 s"
  let ?cn2 = "?cn1\<lparr>phase := Running req\<rparr>"
  let ?s2 = "(set_conn i ?cn2 ?s1)\<lparr>permits := permits ?s1 - 1\<rparr>"
  let ?s3 = "(set_conn i (?cn2\<lparr>handler := h1, phase := Writing v\<rparr>) ?s2)
    \<lparr>permits := Suc (permits ?s2), world := w1\<rparr>"
  have step1: "server_step X c s (Received i req) ?s1"
    using assms(1,2) by (intro server_step.received) auto
  have step2: "server_step X c ?s1 (Acquired i) ?s2"
    using assms(3) by (intro server_step.acquired) (auto simp: set_conn_def)
  have step3: "server_step X c ?s2 (Ran i req) ?s3"
    using assms(4) by (intro server_step.ran) (auto simp: set_conn_def)
  have "server_run X c s [Received i req, Acquired i, Ran i req] ?s3"
    by (rule server_run_Cons [OF step1] server_run_Cons [OF step2] server_run_Cons [OF step3]
        server_run.start)+
  moreover have "?s3 = s\<lparr>conns := (conns s)(i \<mapsto> \<lparr>peer = ip, handler = h1, socket = st1, phase = Writing v\<rparr>),
      world := w1\<rparr>"
    using assms(3) by (cases s) (simp add: set_conn_def)
  ultimately show ?thesis by (simp only:)
qed

lemma connection_loop_request:
  assumes "connection_loop X h w st = Returns (r, h1, w1, st1)" "read_request (config h) st = (Some req, st2)"
  obtains v h2 w2 res st3 where "handle_request X h w req = Returns (v, h2, w2)"
    "write_all (frame (response_body X v)) st2 = (res, st3)"
    "\<And>e. res = Inl e \<Longrightarrow> r = Inl e \<and> h1 = h2 \<and> w1 = w2 \<and> st1 = st3"
    "\<And>u. res = Inr u \<Longrightarrow> connection_loop X h2 w2 st3 = Returns (r, h1, w1, st1)"
proof -
  from assms obtain v h2 w2 where q: "handle_request X h w req = Returns (v, h2, w2)"
    and rest: "(case write_all (frame (response_body X v)) st2 of
        (Inl e, s3) \<Rightarrow> Returns (Inl e, h2, w2, s3)
      | (Inr _, s3) \<Rightarrow> connection_loop X h2 w2 s3) = Returns (r, h1, w1, st1)"
    by (auto simp: connection_loop_read_request [of X h] run_bind_Returns_iff)
  obtain res st3 where wr: "write_all (frame (response_body X v)) st2 = (res, st3)"
    by (cases "write_all (frame (response_body X v)) st2")
  show thesis
    by (rule that [OF q wr]) (use rest wr in auto)
qed

text \<open>The task goes through the effects of the loop and is then gone.\<close>

definition task_done ::
  "('q, 'c, 's, 'r, 'w) externals \<Rightarrow> nat \<Rightarrow> 'c request_handler \<Rightarrow> 'q world \<Rightarrow> ('c, 'q) server \<Rightarrow>
     ('c, 'q) server" where
  "task_done X i h w s = s\<lparr>conns := (conns s)(i := None), world := drop_handler X h w\<rparr>"

text \<open>
  The last step of a task, with the result \<open>handle\<close> returns there and the stream as it leaves
  it: everything written is in its \<open>outbox\<close>.
\<close>

definition task_closes ::
  "('q, 'c, 's, 'r, 'w) externals \<Rightarrow> config \<Rightarrow> nat \<Rightarrow> ('c, 'q) server \<Rightarrow> io_error + unit \<Rightarrow> stream \<Rightarrow>
     ('c, 'q) server \<Rightarrow> bool" where
  "task_closes X c i s r st s' \<longleftrightarrow>
     server_step X c s (Closed i) s' \<and>
     (\<exists>cn. conns s i = Some cn \<and>
        (phase cn = Reading \<and> read_request c (socket cn) = (None, st) \<and> r = Inr () \<or>
         (\<exists>v e. phase cn = Writing v \<and> r = Inl e \<and>
            write_all (frame (response_body X v)) (socket cn) = (Inl e, st))))"

lemma task_ends:
  assumes "conns s i = Some \<lparr>peer = ip, handler = h, socket = st, phase = Reading\<rparr>"
    and "read_request c st = (None, st1)"
  shows "server_run X c s [Closed i] (task_done X i h (world s) s)"
proof -
  have "server_step X c s (Closed i) (task_done X i h (world s) s)"
    using server_step.ended [OF assms(1) _ , of c st1 X] assms(2) by (simp add: close_conn_def task_done_def)
  then show ?thesis by (rule server_run_Cons [OF _ server_run.start])
qed

lemma task_reads_end:
  assumes "conns s i = Some \<lparr>peer = ip, handler = h, socket = st, phase = Reading\<rparr>"
    and "read_request c st = (None, st1)"
  shows "task_closes X c i s (Inr ()) st1 (task_done X i h (world s) s)"
  using assms server_step.ended [OF assms(1) _ , of c st1 X]
  by (simp add: task_closes_def task_done_def close_conn_def)

lemma task_fails:
  assumes "conns s i = Some \<lparr>peer = ip, handler = h, socket = st, phase = Reading\<rparr>"
    and "read_request c st = (Some req, st1)" "0 < permits s"
    and "handle_request X h (world s) req = Returns (v, h1, w1)"
    and "write_all (frame (response_body X v)) st1 = (Inl e, st2)"
  shows "\<exists>s1. server_run X c s [Received i req, Acquired i, Ran i req] s1 \<and>
    task_closes X c i s1 (Inl e) st2 (task_done X i h1 w1 s)"
proof -
  let ?cn = "\<lparr>peer = ip, handler = h1, socket = st1, phase = Writing v\<rparr>"
  let ?s1 = "s\<lparr>conns := (conns s)(i \<mapsto> ?cn), world := w1\<rparr>"
  have cn: "conns ?s1 i = Some ?cn" "phase ?cn = Writing v" by simp_all
  have "server_step X c ?s1 (Closed i) (close_conn X i ?cn ?s1)"
    using assms(5) by (intro server_step.write_failed [OF cn]) auto
  also have "close_conn X i ?cn ?s1 = task_done X i h1 w1 s"
    by (simp add: close_conn_def task_done_def)
  finally have "server_step X c ?s1 (Closed i) (task_done X i h1 w1 s)" .
  moreover have "write_all (frame (response_body X v)) (socket ?cn) = (Inl e, st2)"
    using assms(5) by simp
  ultimately have "task_closes X c i ?s1 (Inl e) st2 (task_done X i h1 w1 s)"
    unfolding task_closes_def using cn by blast
  with task_serves_request [OF assms(1-4)] show ?thesis by blast
qed

text \<open>A whole round: the request is answered, and the task reads the next one or is gone.\<close>

lemma task_round:
  assumes "conns s i = Some \<lparr>peer = ip, handler = h, socket = st, phase = Reading\<rparr>"
    and "read_request c st = (Some req, st1)" "0 < permits s"
    and "handle_request X h (world s) req = Returns (v, h1, w1)"
    and "write_all (frame (response_body X v)) st1 = (res, st2)"
  shows "\<exists>e. event_conn e = Some i \<and> server_run X c s [Received i req, Acquired i, Ran i req, e]
    (case res of
       Inl _ \<Rightarrow> task_done X i h1 w1 s
     | Inr _ \<Rightarrow> s\<lparr>conns := (conns s)(i \<mapsto> \<lparr>peer = ip, handler = h1, socket = st2, phase = Reading\<rparr>), world := w1\<rparr>)"
proof -
  let ?cn = "\<lparr>peer = ip, handler = h1, socket = st1, phase = Writing v\<rparr>"
  let ?s1 = "s\<lparr>conns := (conns s)(i \<mapsto> ?cn), world := w1\<rparr>"
  have cn: "conns ?s1 i = Some ?cn" "phase ?cn = Writing v" by simp_all
  note last = server_run.step [OF task_serves_request [OF assms(1-4)], simplified]
  show ?thesis
  proof (cases res)
    case (Inl err)
    have "server_step X c ?s1 (Closed i) (close_conn X i ?cn ?s1)"
      using assms(5) Inl by (intro server_step.write_failed [OF cn]) auto
    also have "close_conn X i ?cn ?s1 = task_done X i h1 w1 s"
      by (simp add: close_conn_def task_done_def)
    finally have "server_step X c ?s1 (Closed i) (task_done X i h1 w1 s)" .
    from last [OF this] Inl show ?thesis by (intro exI [of _ "Closed i"] conjI) simp_all
  next
    case (Inr u)
    let ?s2 = "s\<lparr>conns := (conns s)(i \<mapsto> \<lparr>peer = ip, handler = h1, socket = st2, phase = Reading\<rparr>), world := w1\<rparr>"
    have "server_step X c ?s1 (Wrote i) (set_conn i (?cn\<lparr>socket := st2, phase := Reading\<rparr>) ?s1)"
      using assms(5) Inr by (intro server_step.wrote [OF cn]) auto
    also have "set_conn i (?cn\<lparr>socket := st2, phase := Reading\<rparr>) ?s1 = ?s2" by (simp add: set_conn_def)
    finally have "server_step X c ?s1 (Wrote i) ?s2" .
    from last [OF this] Inr show ?thesis by (intro exI [of _ "Wrote i"] conjI) simp_all
  qed
qed

lemma task_runs_loop:
  "connection_loop X h w st = Returns (r, h1, w1, st1) \<Longrightarrow> session_ok c h \<Longrightarrow>
   0 < permits s \<Longrightarrow> world s = w \<Longrightarrow>
   conns s i = Some \<lparr>peer = ip, handler = h, socket = st, phase = Reading\<rparr> \<Longrightarrow>
   \<exists>tr s1. (\<forall>e \<in> set tr. event_conn e = Some i) \<and> server_run X c s tr s1 \<and>
     task_closes X c i s1 r st1 (task_done X i h1 w1 s)"
proof (induction "length (inbox st)" arbitrary: s h w st rule: less_induct)
  case less
  have c: "config h = c" using less.prems(2) by (simp add: session_ok_def)
  obtain req st' where read: "read_request c st = (req, st')" by (cases "read_request c st")
  show ?case
  proof (cases req)
    case None
    then have "h1 = h" "w1 = world s" "r = Inr ()" "st' = st1"
      using less.prems(1,4) read by (auto simp: connection_loop_read_request [of X h] c)
    with task_reads_end [OF less.prems(5), of c st1 X] read None show ?thesis
      by (intro exI [of _ "[]"] exI [of _ s]) (simp add: server_run.start)
  next
    case (Some q)
    have rq: "read_request (config h) st = (Some q, st')" using read Some c by simp
    obtain v h2 w2 res st3 where q: "handle_request X h w q = Returns (v, h2, w2)"
      and wr: "write_all (frame (response_body X v)) st' = (res, st3)"
      and failed: "\<And>e. res = Inl e \<Longrightarrow> r = Inl e \<and> h1 = h2 \<and> w1 = w2 \<and> st1 = st3"
      and rest: "\<And>u. res = Inr u \<Longrightarrow> connection_loop X h2 w2 st3 = Returns (r, h1, w1, st1)"
      by (rule connection_loop_request [OF less.prems(1) rq]) (rule that)
    note cn = less.prems(5) and rd = read [unfolded Some] and h = q [folded less.prems(4)]
    show ?thesis
    proof (cases res)
      case (Inl err)
      from task_fails [OF cn rd less.prems(3) h wr [unfolded Inl]] failed [OF Inl] show ?thesis
        by (intro exI [of _ "[Received i q, Acquired i, Ran i q]"]) auto
    next
      case (Inr u)
      let ?s1 = "s\<lparr>conns := (conns s)(i \<mapsto> \<lparr>peer = ip, handler = h2, socket = st3, phase = Reading\<rparr>), world := w2\<rparr>"
      from task_round [OF cn rd less.prems(3) h wr] Inr obtain e where e: "event_conn e = Some i"
        and round: "server_run X c s [Received i q, Acquired i, Ran i q, e] ?s1" by auto
      have "length (inbox st3) < length (inbox st)"
        using read Some inbox_write_all [OF wr]
        by (auto simp: read_request_def read_exact_def Let_def split: if_splits)
      from less.hyps [OF this rest [OF Inr] session_ok_handle_request [OF q less.prems(2)], of ?s1]
      obtain tr s2 where tr: "\<forall>e \<in> set tr. event_conn e = Some i" "server_run X c ?s1 tr s2"
        "task_closes X c i s2 r st1 (task_done X i h1 w1 ?s1)"
        using less.prems(3) by auto
      have d: "task_done X i h1 w1 ?s1 = task_done X i h1 w1 s" by (simp add: task_done_def)
      show ?thesis
        by (rule exI [of _ "[Received i q, Acquired i, Ran i q, e] @ tr"], rule exI [of _ s2])
          (use tr e server_run_trans [OF tr(2) round] in \<open>simp add: d\<close>)
    qed
  qed
qed

section \<open>Every connection is served\<close>

text \<open>What a connection can still do without more input.\<close>

fun phase_rank :: "phase \<Rightarrow> nat" where
  "phase_rank Reading = 1"
| "phase_rank (Writing v) = 2"
| "phase_rank (Running req) = 3"
| "phase_rank (Waiting req) = 4"

fun work_left :: "'c conn option \<Rightarrow> nat" where
  "work_left None = 0"
| "work_left (Some cn) = length (inbox (socket cn)) + phase_rank (phase cn)"

lemma read_request_consumes:
  "read_request c s = (Some req, s') \<Longrightarrow> length (inbox s') + 4 \<le> length (inbox s)"
  by (auto simp: read_request_def read_exact_def Let_def split: if_splits)

lemma task_step_work:
  assumes "server_step X c s e s'" "numbered s" "event_conn e \<noteq> None"
  shows "total work_left s' < total work_left s"
  using assms
proof (induction rule: server_step.induct)
  case (received s i cn req st)
  then show ?case
    using total_set_conn [OF received(4,1), of work_left "cn\<lparr>socket := st, phase := Waiting req\<rparr>"]
      read_request_consumes [OF received(3)] by simp
next
  case (ended s i cn st)
  then show ?case using total_close_conn [OF ended(4,1), of work_left X] by simp
next
  case (acquired s i cn req)
  then show ?case
    using total_set_conn [OF acquired(4,1), of work_left "cn\<lparr>phase := Running req\<rparr>"] by simp
next
  case (ran s i cn req v h1 w1)
  then show ?case
    using total_set_conn [OF ran(4,1), of work_left "cn\<lparr>handler := h1, phase := Writing v\<rparr>"] by simp
next
  case (wrote s i cn v u st)
  then show ?case
    using total_set_conn [OF wrote(4,1), of work_left "cn\<lparr>socket := st, phase := Reading\<rparr>"]
      inbox_write_all [OF wrote(3)] by simp
next
  case (write_failed s i cn v e st)
  then show ?case using total_close_conn [OF write_failed(4,1), of work_left X] by simp
qed simp_all

lemma numbered_run: "server_run X c s tr s' \<Longrightarrow> numbered s \<Longrightarrow> numbered s'"
  by (induction rule: server_run.induct) (auto dest: numbered_step)

lemma task_run_work:
  "server_run X c s tr s' \<Longrightarrow> numbered s \<Longrightarrow> \<forall>e \<in> set tr. event_conn e \<noteq> None \<Longrightarrow>
     length tr + total work_left s' \<le> total work_left s"
proof (induction rule: server_run.induct)
  case (step s tr s1 e s2)
  then show ?case
    using task_step_work [OF step(2) numbered_run [OF step(1)]] by simp
qed simp

text \<open>
  A connection that is open can move, or waits for a permit that another connection holds
  while it runs, which can then move.
\<close>

lemma server_step_task:
  assumes s: "conns s i = Some cn" and returns: "\<And>h w req. \<exists>r. handle_request X h w req = Returns r"
    and permit: "\<And>req. phase cn = Waiting req \<Longrightarrow> 0 < permits s"
  shows "\<exists>e s'. server_step X c s e s' \<and> event_conn e = Some i"
proof (cases "phase cn")
  case Reading
  obtain req st where r: "read_request c (socket cn) = (req, st)" by (cases "read_request c (socket cn)")
  show ?thesis
  proof (cases req)
    case None
    with server_step.ended [OF s Reading, of c st X] r show ?thesis by (metis event_conn.simps(5))
  next
    case (Some q)
    with server_step.received [OF s Reading, of c q st X] r show ?thesis by (metis event_conn.simps(1))
  qed
next
  case (Waiting req)
  from server_step.acquired [OF s Waiting permit [OF Waiting], of X c] show ?thesis
    by (metis event_conn.simps(2))
next
  case (Running req)
  obtain v h1 w1 where "handle_request X (handler cn) (world s) req = Returns (v, h1, w1)"
    using returns by (metis prod_cases3)
  from server_step.ran [OF s Running this, of c] show ?thesis by (metis event_conn.simps(3))
next
  case (Writing v)
  obtain r st where w: "write_all (frame (response_body X v)) (socket cn) = (r, st)"
    by (cases "write_all (frame (response_body X v)) (socket cn)")
  show ?thesis
  proof (cases r)
    case (Inl e)
    with server_step.write_failed [OF s Writing, of X e st c] w show ?thesis by (metis event_conn.simps(5))
  next
    case (Inr u)
    with server_step.wrote [OF s Writing, of X u st c] w show ?thesis by (metis event_conn.simps(4))
  qed
qed

lemma running_can_step:
  assumes "running_conns s \<noteq> {}" "\<And>h w req. \<exists>r. handle_request X h w req = Returns r"
  shows "\<exists>e s'. server_step X c s e s' \<and> event_conn e \<noteq> None"
proof -
  obtain i cn req where "conns s i = Some cn" "phase cn = Running req"
    using assms(1) by (auto simp: running_conns_def)
  with server_step_task [where X = X and c = c, OF _ assms(2)] show ?thesis by fastforce
qed

lemma open_conn_can_step:
  assumes "server_inv X c tr s" "conns s i = Some cn"
    and returns: "\<And>h w req. \<exists>r. handle_request X h w req = Returns r"
  shows "\<exists>e s'. server_step X c s e s' \<and> event_conn e \<noteq> None"
proof (cases "permits s = 0")
  case True
  then have "0 < card (running_conns s)"
    using assms(1) total_running [of s] by (auto simp: server_inv_def query_limit_def)
  then have "running_conns s \<noteq> {}" by auto
  from running_can_step [OF this returns] show ?thesis .
next
  case False
  then show ?thesis using server_step_task [where X = X and c = c, OF assms(2) returns] by fastforce
qed

section \<open>Properties\<close>

text \<open>C10: The server runs each connection as the sequential connection handler does: accepted and
  then left alone with a permit to be had, the task goes on until its connection closes, and then
  its stream is the one that function leaves, with exactly the bytes it writes, the result is the
  one it returns, and the world the one it ends with; the other connections and the permits are
  as they were.\<close>

theorem task_refines_handle:
  assumes "handle X c w st = Returns (r, w1, st1)" "is_ip_allowed c ip = Returns True"
    and "accepting s" "0 < permits s" "world s = w" "conns s (next_id s) = None" "outbox st = []"
  shows "\<exists>tr s1 s'. server_run X c s (Accepted (next_id s) ip # tr) s1 \<and>
    (\<forall>e \<in> set tr. event_conn e = Some (next_id s)) \<and>
    task_closes X c (next_id s) s1 r st1 s' \<and>
    world s' = w1 \<and> conns s' = conns s \<and> permits s' = permits s"
proof -
  obtain h1 w2 where loop: "connection_loop X (new_handler c) w st = Returns (r, h1, w2, st1)"
    and w1: "w1 = drop_handler X h1 w2"
    using assms(1) by (auto simp: handle_def run_bind_Returns_iff)
  have sp: "server_step X c s (Accepted (next_id s) ip) (spawn c ip st s)"
    by (rule server_step.accepted) (rule assms)+
  obtain tr s1 where tr: "\<forall>e \<in> set tr. event_conn e = Some (next_id s)"
    "server_run X c (spawn c ip st s) tr s1"
    "task_closes X c (next_id s) s1 r st1 (task_done X (next_id s) h1 w2 (spawn c ip st s))"
    using task_runs_loop [OF loop session_ok_new, of "spawn c ip st s" "next_id s" ip] assms(3-5)
    by (auto simp: spawn_def)
  have "(conns s)(next_id s := None) = conns s" using assms(6) by auto
  with tr(1,3) server_run_Cons [OF sp tr(2)] show ?thesis
    by (intro exI [of _ tr] exI [of _ s1] exI [of _ "task_done X (next_id s) h1 w2 (spawn c ip st s)"])
      (simp add: w1 spawn_def task_done_def)
qed

lemma finite_handle_request: "\<exists>r. handle_request finite_externals h w req = Returns r"
  using handle_request_not_Panics [of finite_externals h w req]
    handle_request_Diverges [of finite_externals h w req] finite_cursors
  by (cases "handle_request finite_externals h w req") auto

theorem task_refines_handle_witness:
  "\<exists>r w1 st1 tr s1 s'.
     handle finite_externals (demo_server []) demo_world (demo_stream [''list'']) = Returns (r, w1, st1) \<and>
     server_run finite_externals (demo_server []) (start_server (demo_server []) demo_world)
       (Accepted 0 (V4 1) # tr) s1 \<and>
     task_closes finite_externals (demo_server []) 0 s1 r st1 s' \<and> world s' = w1 \<and>
     conns s' = Map.empty \<and> permits s' = 4"
proof -
  have "connection_loop finite_externals (new_handler (demo_server [])) demo_world (demo_stream [''list'']) \<notin> {Panics, Diverges}"
    using connection_loop_outcome finite_cursors by blast
  then have "handle finite_externals (demo_server []) demo_world (demo_stream [''list'']) \<notin> {Panics, Diverges}"
    by (cases "connection_loop finite_externals (new_handler (demo_server [])) demo_world (demo_stream [''list''])")
      (auto simp: handle_def)
  then obtain r w1 st1 where h: "handle finite_externals (demo_server []) demo_world (demo_stream [''list'']) =
      Returns (r, w1, st1)"
    by (cases "handle finite_externals (demo_server []) demo_world (demo_stream [''list''])") auto
  have a: "is_ip_allowed (demo_server []) (V4 1) = Returns True"
    by (simp add: is_ip_allowed_def demo_server_def)
  have n: "next_id (start_server (demo_server []) demo_world) = 0"
    "conns (start_server (demo_server []) demo_world) = Map.empty"
    "permits (start_server (demo_server []) demo_world) = 4"
    by (simp_all add: start_server_def query_limit_def demo_server_def)
  show ?thesis
    using task_refines_handle [OF h a, of "start_server (demo_server []) demo_world"] h
    unfolding n by (auto simp: start_server_def query_limit_def demo_server_def demo_stream_def)
qed

text \<open>Once no more peers are let in, as after a shutdown, every connection is served and closed: the tasks make at
  most as many steps as the unread bytes and phases of the open connections allow, and as long as
  one connection is open some task can make one, if every request returns.\<close>

theorem connections_drain:
  assumes "server_run X c (start_server c w) tr s"
  shows "(\<forall>tr' s'. server_run X c s tr' s' \<and> (\<forall>e \<in> set tr'. event_conn e \<noteq> None) \<longrightarrow>
      length tr' \<le> (\<Sum>i < next_id s. work_left (conns s i))) \<and>
    ((\<forall>h w req. \<exists>r. handle_request X h w req = Returns r) \<longrightarrow> (\<exists>i. conns s i \<noteq> None) \<longrightarrow>
      (\<exists>e s'. server_step X c s e s' \<and> event_conn e \<noteq> None))"
proof -
  note inv = server_reached [OF assms(1)]
  have "numbered s" using inv by (simp add: server_inv_def)
  then have "length tr' \<le> (\<Sum>i < next_id s. work_left (conns s i))"
    if "server_run X c s tr' s'" "\<forall>e \<in> set tr'. event_conn e \<noteq> None" for tr' s'
    using task_run_work [OF that(1) _ that(2)] by (simp add: total_def)
  then show ?thesis using open_conn_can_step [OF inv] by blast
qed

theorem connections_drain_witness:
  "\<exists>(s :: (string, string list) server) e s'. conns s 0 \<noteq> None \<and>
     server_step finite_externals (demo_server []) s e s' \<and> event_conn e \<noteq> None"
proof -
  let ?c = "demo_server []"
  let ?s = "spawn ?c (V4 1) (demo_stream [''list'']) (start_server ?c demo_world) :: (string, string list) server"
  have "is_ip_allowed ?c (V4 1) = Returns True" by (simp add: is_ip_allowed_def demo_server_def)
  then have "server_step finite_externals ?c (start_server ?c demo_world) (Accepted 0 (V4 1)) ?s"
    using server_step.accepted [of "start_server ?c demo_world" ?c "V4 1" "demo_stream [''list'']" finite_externals]
    by (simp add: start_server_def demo_stream_def)
  then have r: "server_run finite_externals ?c (start_server ?c demo_world) ([] @ [Accepted 0 (V4 1)]) ?s"
    by (rule server_run.step [OF server_run.start])
  have o: "conns ?s 0 \<noteq> None" by (simp add: spawn_def start_server_def)
  show ?thesis
    using connections_drain [OF r] o finite_handle_request by blast
qed

section \<open>Starvation\<close>

text \<open>
  A condition on the world that closing a connection keeps, under which every running request
  diverges.
\<close>

definition starved ::
  "('q, 'c, 's, 'r, 'w) externals \<Rightarrow> ('q world \<Rightarrow> bool) \<Rightarrow> ('c, 'q) server \<Rightarrow> bool" where
  "starved X P s \<longleftrightarrow> permits s = 0 \<and> P (world s) \<and>
     (\<forall>i cn req w. conns s i = Some cn \<longrightarrow> phase cn = Running req \<longrightarrow> P w \<longrightarrow>
        handle_request X (handler cn) w req = Diverges)"

lemma drop_handler_keeps:
  assumes "\<And>w conn. P w \<Longrightarrow> P (sq_close (sqlite X) conn w)" "P w"
  shows "P (drop_handler X h w)"
proof -
  have "P (fold (\<lambda>(_, conn). sq_close (sqlite X) conn) m w)" for m
    using assms(2) by (induction m arbitrary: w) (auto intro: assms(1))
  then show ?thesis by (simp add: drop_handler_def)
qed

lemma starved_step:
  assumes "server_step X c s e s'" "starved X P s" "\<And>w conn. P w \<Longrightarrow> P (sq_close (sqlite X) conn w)"
  shows "starved X P s' \<and> (\<forall>i req. e \<noteq> Ran i req)"
proof -
  note keeps = drop_handler_keeps [of P X, OF assms(3)]
  from assms(1,2) show ?thesis
  proof (induction rule: server_step.induct)
    case (ran s i cn req v h1 w1)
    then have "handle_request X (handler cn) (world s) req = Diverges" by (auto simp: starved_def)
    with ran(3) show ?case by simp
  qed (auto simp: starved_def server_sels keeps split: if_splits)
qed

lemma starved_run:
  assumes "server_run X c s tr s'" "starved X P s" "\<And>w conn. P w \<Longrightarrow> P (sq_close (sqlite X) conn w)"
  shows "starved X P s' \<and> (\<forall>i req. Ran i req \<notin> set tr)"
  using assms(1,2)
proof (induction rule: server_run.induct)
  case (step s tr s1 e s2)
  then show ?case using starved_step [of X c s1 e s2 P] assms(3) by auto
qed simp

text \<open>C24: Queries that never end block everyone: once each permit is held by one, and for as long
  as the files stay such that they do not end, no request of any connection is ever executed
  again, new connections included.\<close>

theorem endless_queries_starve:
  assumes "permits s = 0" "P (world s)" "\<And>w conn. P w \<Longrightarrow> P (sq_close (sqlite X) conn w)"
    and "\<And>i cn req w. conns s i = Some cn \<Longrightarrow> phase cn = Running req \<Longrightarrow> P w \<Longrightarrow>
      handle_request X (handler cn) w req = Diverges"
    and "server_run X c s tr s'"
  shows "Ran i req \<notin> set tr \<and> permits s' = 0"
  using starved_run [OF assms(5), of P] assms(1-4) by (auto simp: starved_def)

lemma demo_loop_diverges:
  assumes "files w = demo_files"
  shows "handle_request demo_externals (new_handler (demo_server [])) w ''loop'' = Diverges"
proof -
  let ?h = "new_handler (demo_server []) :: string request_handler"
  have p: "parse_request demo_externals ''loop'' = Inr (demo_request ''QUERY'' ''a'' ''LOOP'')" by code_simp
  have q: "eq_ignore_ascii_case ''QUERY'' ''QUERY''" by simp
  let ?w1 = "demo_log (connection_pragmas (demo_server [])) (demo_log ''open /data/a'' w)"
  have g: "get_connection demo_externals ?h w ''a'' =
      Returns (Inr ''/data/a'', ?h\<lparr>databases := [(''a'', ''/data/a'')]\<rparr>, ?w1)"
    by (simp add: get_connection_miss open_fresh_def demo_sqlite_def path_join_def is_absolute_def)
  have "fetch_rows demo_sqlite [''n'', ''b'', ''n''] [] (-1) ?w1 = None"
  proof (rule ccontr)
    assume "fetch_rows demo_sqlite [''n'', ''b'', ''n''] [] (-1) ?w1 \<noteq> None"
    then have "cursor_ends demo_sqlite (-1) ?w1"
      using fetch_rows_returns_ends [of demo_sqlite "[''n'', ''b'', ''n'']" "[]" "-1" ?w1]
      by (fastforce simp: demo_sqlite_def)
    then show False using demo_endless by simp
  qed
  then have "run_statement demo_externals ''/data/a'' ?w1 ''LOOP'' = Diverges"
    by (simp add: run_statement_def demo_sqlite_def)
  then show ?thesis
    using demo_safe demo_trim(2) assms
    by (simp add: handle_request_def p dispatch_def demo_request_get q handle_query_def run_query_def g)
qed

theorem endless_queries_starve_witness:
  "\<exists>s :: (string, string list) server. permits s = 0 \<and> 0 \<in> running_conns s \<and>
     (\<forall>tr s'. server_run demo_externals (demo_server []) s tr s' \<longrightarrow> Ran 0 ''loop'' \<notin> set tr)"
proof -
  let ?s = "demo_conn_server (demo_task (Running ''loop'') (demo_stream []) (new_handler (demo_server []))) 0"
  have "Ran 0 ''loop'' \<notin> set tr"
    if r: "server_run demo_externals (demo_server []) ?s tr s'" for tr and s' :: "(string, string list) server"
  proof -
    have w: "files (world ?s) = demo_files" "permits ?s = 0" by (simp_all add: demo_conn_server_def)
    have close: "\<And>w conn. files w = demo_files \<Longrightarrow> files (sq_close (sqlite demo_externals) conn w) = demo_files"
      by (simp add: demo_sqlite_def demo_log_def)
    have div: "handle_request demo_externals (handler cn) w req = Diverges"
      if "conns ?s i = Some cn" "phase cn = Running req" "files w = demo_files" for i cn req w
      using that demo_loop_diverges by (auto simp: demo_conn_server_def demo_task_def split: if_splits)
    have "Ran 0 ''loop'' \<notin> set tr \<and> permits s' = 0"
      by (rule endless_queries_starve [where P = "\<lambda>w. files w = demo_files" and X = demo_externals,
            OF w(2) w(1) close div r])
    then show ?thesis ..
  qed
  moreover have "permits ?s = 0" "0 \<in> running_conns ?s"
    by (simp_all add: demo_conn_server_def demo_task_def running_conns_def)
  ultimately show ?thesis by blast
qed

end
