(* ===== verification/Server_Fine.thy ===== *)
theory Server_Fine
  imports Server_Safety Handler_Micro
begin

text \<open>
  The server of theory Server with requests that are not atomic: a handler that holds a permit
  makes one access to the world at a time (theory Handler_Micro), and between two accesses the other
  connections go on and other programs may change the world. What the atomic server promises about
  logins, peers, names and the query limit still holds; what it promises about symbolic links does
  not; and with one worker the server is serialisable.
\<close>

section \<open>The state and its steps\<close>

text \<open>For a connection whose handler runs, what the handler is about to do.\<close>

record ('c, 's, 'r, 'q) fine_server =
  base :: "('c, 'q) server"
  stages :: "nat \<Rightarrow> ('c, 's, 'r) stage option"

datatype ('c, 's, 'r) fine_event =
    Outer event
  | Access nat "('c, 's, 'r) stage"
  | Interference

definition start_fine :: "config \<Rightarrow> 'q world \<Rightarrow> ('c, 's, 'r, 'q) fine_server" where
  "start_fine c w = \<lparr>base = start_server c w, stages = Map.empty\<rparr>"

inductive fine_step ::
  "('q, 'c, 's, 'r, 'w) externals \<Rightarrow> config \<Rightarrow> ('c, 's, 'r, 'q) fine_server \<Rightarrow>
     ('c, 's, 'r) fine_event \<Rightarrow> ('c, 's, 'r, 'q) fine_server \<Rightarrow> bool"
  for X c where
  outer:
    "server_step X c (base f) e s1 \<Longrightarrow> (\<And>i req. e \<noteq> Acquired i \<and> e \<noteq> Ran i req) \<Longrightarrow>
       fine_step X c f (Outer e) (f\<lparr>base := s1\<rparr>)"
| begins:
    "conns (base f) i = Some cn \<Longrightarrow> phase cn = Waiting req \<Longrightarrow>
       server_step X c (base f) (Acquired i) s1 \<Longrightarrow>
       fine_step X c f (Outer (Acquired i))
         (f\<lparr>base := s1, stages := (stages f)(i \<mapsto> Begin req)\<rparr>)"
| access:
    "conns (base f) i = Some cn \<Longrightarrow> stages f i = Some st \<Longrightarrow> (\<And>v. st \<noteq> Done v) \<Longrightarrow>
       micro_step X (handler cn) (world (base f)) st = (h1, w1, st1) \<Longrightarrow>
       fine_step X c f (Access i st)
         (f\<lparr>base := (set_conn i (cn\<lparr>handler := h1\<rparr>) (base f))\<lparr>world := w1\<rparr>,
            stages := (stages f)(i \<mapsto> st1)\<rparr>)"
| finishes:
    "conns (base f) i = Some cn \<Longrightarrow> phase cn = Running req \<Longrightarrow> stages f i = Some (Done v) \<Longrightarrow>
       fine_step X c f (Outer (Ran i req))
         (f\<lparr>base := (set_conn i (cn\<lparr>phase := Writing v\<rparr>) (base f))
                      \<lparr>permits := Suc (permits (base f))\<rparr>,
            stages := (stages f)(i := None)\<rparr>)"
| interference:
    "fine_step X c f Interference (f\<lparr>base := (base f)\<lparr>world := w1\<rparr>\<rparr>)"

inductive fine_run ::
  "('q, 'c, 's, 'r, 'w) externals \<Rightarrow> config \<Rightarrow> ('c, 's, 'r, 'q) fine_server \<Rightarrow>
     ('c, 's, 'r) fine_event list \<Rightarrow> ('c, 's, 'r, 'q) fine_server \<Rightarrow> bool"
  for X c where
  start: "fine_run X c f [] f"
| step: "fine_run X c f tr f1 \<Longrightarrow> fine_step X c f1 e f2 \<Longrightarrow> fine_run X c f (tr @ [e]) f2"

text \<open>The events that are visible outside.\<close>

fun outer_events :: "('c, 's, 'r) fine_event list \<Rightarrow> event list" where
  "outer_events [] = []"
| "outer_events (Outer e # tr) = e # outer_events tr"
| "outer_events (e # tr) = outer_events tr"

lemma outer_events_append [simp]: "outer_events (tr @ tr') = outer_events tr @ outer_events tr'"
  by (induction tr rule: outer_events.induct) auto

inductive_cases fine_run_snocE: "fine_run X c f (tr @ [e]) f2"

inductive_cases acquiredE: "server_step X c s (Acquired i) s1"

lemma fine_run_append:
  "fine_run X c f1 tr' f2 \<Longrightarrow> fine_run X c f tr f1 \<Longrightarrow> fine_run X c f (tr @ tr') f2"
  by (induction rule: fine_run.induct) (auto simp flip: append_assoc intro: fine_run.step)

section \<open>The query limit\<close>

text \<open>A connection has a stage exactly while it runs, and a fresh stage is for its request.\<close>

definition running_request :: "('c, 'q) server \<Rightarrow> nat \<Rightarrow> string option" where
  "running_request s i =
     (case conns s i of
        None \<Rightarrow> None
      | Some cn \<Rightarrow> (case phase cn of Running req \<Rightarrow> Some req | _ \<Rightarrow> None))"

definition stages_match :: "('c, 's, 'r, 'q) fine_server \<Rightarrow> bool" where
  "stages_match f \<longleftrightarrow>
     (\<forall>i. stages f i = None \<longleftrightarrow> running_request (base f) i = None) \<and>
     (\<forall>i r. stages f i = Some (Begin r) \<longrightarrow> running_request (base f) i = Some r)"

definition fine_ok :: "config \<Rightarrow> ('c, 's, 'r, 'q) fine_server \<Rightarrow> bool" where
  "fine_ok c f \<longleftrightarrow> numbered (base f) \<and> stages_match f \<and>
     total running (base f) + permits (base f) = query_limit c"

lemma running_request_simps [simp]:
  "running_request (s\<lparr>permits := p\<rparr>) = running_request s"
  "running_request (s\<lparr>world := w\<rparr>) = running_request s"
  by (simp_all add: running_request_def fun_eq_iff)

lemma running_request_set_conn:
  "running_request (set_conn i cn s) =
     (running_request s)(i := case phase cn of Running req \<Rightarrow> Some req | _ \<Rightarrow> None)"
  by (auto simp: running_request_def set_conn_def fun_eq_iff split: phase.split)

lemma stage_phase:
  assumes "fine_ok c f" "conns (base f) i = Some cn" "stages f i = Some st"
  obtains req where "phase cn = Running req" "running_request (base f) i = Some req"
    "\<And>r. st = Begin r \<Longrightarrow> r = req"
proof -
  have "running_request (base f) i \<noteq> None"
    using assms(1,3) by (metis fine_ok_def option.distinct(1) stages_match_def)
  then obtain req where "phase cn = Running req" "running_request (base f) i = Some req"
    using assms(2) by (auto simp: running_request_def split: phase.splits)
  moreover from this have "r = req" if "st = Begin r" for r
    using assms(1,3) that by (simp add: fine_ok_def stages_match_def)
  ultimately show thesis by (rule that)
qed

lemma outer_running_request:
  assumes "server_step X c s e s1" "\<And>i req. e \<noteq> Acquired i \<and> e \<noteq> Ran i req" "numbered s"
  shows "running_request s1 = running_request s"
  using assms
proof (induction rule: server_step.induct)
  case (accepted s ip st)
  then have "conns s (next_id s) = None" by (auto simp: numbered_def)
  then show ?case by (auto simp: running_request_def spawn_def fun_eq_iff)
qed (auto simp: running_request_def server_sels fun_eq_iff)

lemma fine_ok_start: "fine_ok c (start_fine c w)"
  by (simp add: fine_ok_def start_fine_def start_server_def numbered_def total_def stages_match_def
      running_request_def)

lemma numbered_frame [simp]:
  "numbered (s\<lparr>permits := p\<rparr>) = numbered s" "numbered (s\<lparr>world := w\<rparr>) = numbered s"
  by (simp_all add: numbered_def)

lemma numbered_set_conn: "numbered s \<Longrightarrow> conns s i = Some cn \<Longrightarrow> numbered (set_conn i cn' s)"
  by (auto simp: numbered_def set_conn_def)

lemma fine_ok_step:
  assumes "fine_step X c f e f1" "fine_ok c f"
  shows "fine_ok c f1"
  using assms
proof (induction rule: fine_step.induct)
  case (outer f e s1)
  then have "running_request s1 = running_request (base f)"
    using outer_running_request [OF outer(1,2)] by (simp add: fine_ok_def)
  with outer show ?case
    using numbered_step permits_step [of X c "base f" e s1] by (auto simp: fine_ok_def stages_match_def)
next
  case (begins f i cn req s1)
  then have s1: "s1 = (set_conn i (cn\<lparr>phase := Running req\<rparr>) (base f))\<lparr>permits := permits (base f) - 1\<rparr>"
    by (auto elim: acquiredE)
  with begins show ?case
    using permits_step [OF begins(3)] numbered_set_conn [OF _ begins(1)]
    by (auto simp: fine_ok_def stages_match_def running_request_set_conn)
next
  case (access f i cn st h1 w1 st1)
  obtain req where "phase cn = Running req" "running_request (base f) i = Some req"
    using stage_phase [OF access(5,1,2)] .
  then show ?case
    using access total_set_conn [of "base f" i cn running "cn\<lparr>handler := h1\<rparr>"]
      micro_step_not_Begin [OF access(4)]
    by (auto simp: fine_ok_def stages_match_def running_request_set_conn numbered_set_conn)
next
  case (finishes f i cn req v)
  then show ?case
    using total_set_conn [of "base f" i cn running "cn\<lparr>phase := Writing v\<rparr>"]
    by (auto simp: fine_ok_def stages_match_def running_request_set_conn numbered_set_conn)
next
  case (interference f w1)
  then show ?case by (simp add: fine_ok_def stages_match_def)
qed

lemma fine_ok_run: "fine_run X c f0 tr f \<Longrightarrow> fine_ok c f0 \<Longrightarrow> fine_ok c f"
  by (induction rule: fine_run.induct) (auto intro: fine_ok_step)

lemma fine_reached: "fine_run X c (start_fine c w) tr f \<Longrightarrow> fine_ok c f"
  using fine_ok_run fine_ok_start by blast

lemma running_phase_iff:
  "(\<exists>req. ph = Running req) \<longleftrightarrow> (case ph of Running req \<Rightarrow> Some req | _ \<Rightarrow> None) \<noteq> None"
  by (cases ph) auto

lemma running_conns_request: "running_conns s = {i. running_request s i \<noteq> None}"
  by (auto simp: running_conns_def running_request_def running_phase_iff split: option.split)

lemma stages_running: "stages_match f \<Longrightarrow> {i. stages f i \<noteq> None} = running_conns (base f)"
  by (simp add: stages_match_def running_conns_request)

section \<open>Access control\<close>

text \<open>What holds of a connection and of its stage after the given events.\<close>

definition logged_in_before ::
  "('q, 'c, 's, 'r, 'w) externals \<Rightarrow> config \<Rightarrow> ('c, 's, 'r) fine_event list \<Rightarrow> nat \<Rightarrow> bool" where
  "logged_in_before X c tr i \<longleftrightarrow> (\<exists>req. Outer (Ran i req) \<in> set tr \<and> is_login X c req)"

definition gate_held ::
  "('q, 'c, 's, 'r, 'w) externals \<Rightarrow> config \<Rightarrow> ('c, 's, 'r) fine_event list \<Rightarrow> nat \<Rightarrow>
     'c request_handler \<Rightarrow> bool" where
  "gate_held X c tr i h \<longleftrightarrow>
     config h = c \<and> (auth c \<noteq> [] \<longrightarrow> authenticated h \<longrightarrow> logged_in_before X c tr i)"

definition conn_allowed ::
  "('q, 'c, 's, 'r, 'w) externals \<Rightarrow> config \<Rightarrow> ('c, 's, 'r) fine_event list \<Rightarrow> nat \<Rightarrow>
     'c conn \<Rightarrow> ('c, 's, 'r) stage option \<Rightarrow> bool" where
  "conn_allowed X c tr i cn so \<longleftrightarrow>
     Outer (Accepted i (peer cn)) \<in> set tr \<and> is_ip_allowed c (peer cn) = Returns True \<and>
     (case so of
        None \<Rightarrow> gate_held X c tr i (handler cn)
      | Some st \<Rightarrow>
          \<exists>req h. phase cn = Running req \<and> gate_held X c tr i h \<and>
            step_history (micro_step X) is_done h (Begin req) (handler cn) st)"

definition all_allowed ::
  "('q, 'c, 's, 'r, 'w) externals \<Rightarrow> config \<Rightarrow> ('c, 's, 'r) fine_event list \<Rightarrow>
     ('c, 's, 'r, 'q) fine_server \<Rightarrow> bool" where
  "all_allowed X c tr f \<longleftrightarrow>
     (\<forall>i cn. conns (base f) i = Some cn \<longrightarrow> conn_allowed X c tr i cn (stages f i))"

lemma conn_allowed_more: "conn_allowed X c tr i cn so \<Longrightarrow> conn_allowed X c (tr @ [e]) i cn so"
  by (fastforce simp: conn_allowed_def gate_held_def logged_in_before_def split: option.splits)

text \<open>The steps of the server that are no request keep the handlers, and make new ones only for
  peers that may connect.\<close>

lemma outer_conns:
  assumes "server_step X c s e s1" "\<And>i req. e \<noteq> Acquired i \<and> e \<noteq> Ran i req" "conns s1 i = Some cn1"
  shows "(\<exists>st. e = Accepted i (peer cn1) \<and> is_ip_allowed c (peer cn1) = Returns True \<and>
      cn1 = \<lparr>peer = peer cn1, handler = new_handler c, socket = st, phase = Reading\<rparr>) \<or>
    (\<exists>cn. conns s i = Some cn \<and> peer cn1 = peer cn \<and> handler cn1 = handler cn \<and>
       (phase cn1 = phase cn \<or> (\<forall>req. phase cn \<noteq> Running req \<and> phase cn1 \<noteq> Running req)))"
  using assms by (induction rule: server_step.induct) (auto simp: server_sels split: if_splits)

text \<open>A request in progress: what the history of its steps says of the handler and the stage.\<close>

lemma conn_allowed_stage:
  assumes "conn_allowed X c tr i cn (Some st)"
  shows "config (handler cn) = c" "stage_names_ok st"
    "auth c \<noteq> [] \<Longrightarrow> \<not> outside st \<Longrightarrow> logged_in_before X c tr i"
    "auth c \<noteq> [] \<Longrightarrow> authenticated (handler cn) \<Longrightarrow> phase cn = Running req \<Longrightarrow>
       logged_in_before X c tr i \<or> is_login X c req"
proof -
  obtain req' h where h: "phase cn = Running req'" "gate_held X c tr i h"
    "step_history (micro_step X) is_done h (Begin req') (handler cn) st"
    using assms by (auto simp: conn_allowed_def)
  show "config (handler cn) = c"
    using gs.history_settings [OF h(3)] h(2) by (simp add: gate_held_def)
  show "stage_names_ok st"
    using gs.history_safe [OF h(3)] by simp
  show "logged_in_before X c tr i" if "auth c \<noteq> []" "\<not> outside st"
    using gs.history_gate [OF h(3)] h(2) that by (simp add: gate_held_def)
  show "logged_in_before X c tr i \<or> is_login X c req"
    if "auth c \<noteq> []" "authenticated (handler cn)" "phase cn = Running req"
    using gs.history_gate [OF h(3)] h(1,2) that by (auto simp: gate_held_def)
qed

lemma conn_allowed_outer:
  assumes "server_step X c s e s1" "\<And>i req. e \<noteq> Acquired i \<and> e \<noteq> Ran i req" "conns s1 i = Some cn1"
    and "running_request s1 i = running_request s i" "so = None \<longleftrightarrow> running_request s i = None"
    and "\<And>cn. conns s i = Some cn \<Longrightarrow> conn_allowed X c tr i cn so" "Outer e \<in> set tr"
  shows "conn_allowed X c tr i cn1 so"
proof -
  from outer_conns [OF assms(1-3)]
  consider st where "e = Accepted i (peer cn1)" "is_ip_allowed c (peer cn1) = Returns True"
      "cn1 = \<lparr>peer = peer cn1, handler = new_handler c, socket = st, phase = Reading\<rparr>"
    | cn where "conns s i = Some cn" "peer cn1 = peer cn" "handler cn1 = handler cn"
      "phase cn1 = phase cn \<or> (\<forall>req. phase cn \<noteq> Running req \<and> phase cn1 \<noteq> Running req)"
    by metis
  then show ?thesis
  proof cases
    case 1
    have "running_request s1 i = None" using assms(3) 1(3) by (cases cn1) (auto simp: running_request_def)
    with 1 assms(4,5,7) show ?thesis
      by (cases cn1) (simp add: conn_allowed_def gate_held_def new_handler_def)
  next
    case 2
    from assms(6) [OF 2(1)] 2(2-4) show ?thesis
      by (auto simp: conn_allowed_def split: option.splits)
  qed
qed

lemma conn_allowed_step:
  assumes "fine_step X c f e f1" "all_allowed X c tr f" "fine_ok c f"
  shows "all_allowed X c (tr @ [e]) f1"
proof -
  have old: "conn_allowed X c (tr @ [e]) i cn (stages f i)" if "conns (base f) i = Some cn" for i cn
    by (rule conn_allowed_more) (use assms(2) that in \<open>simp add: all_allowed_def\<close>)
  from assms(1,3) old show ?thesis
  proof (induction rule: fine_step.induct)
    case (outer f e s1)
    have "running_request s1 = running_request (base f)"
      using outer_running_request [OF outer(1,2)] outer(3) by (simp add: fine_ok_def)
    then show ?case
      unfolding all_allowed_def
      using outer(3,4) conn_allowed_outer [OF outer(1,2)]
      by (auto simp: fine_ok_def stages_match_def)
  next
    case (begins f i cn req s1)
    then have s1: "s1 = (set_conn i (cn\<lparr>phase := Running req\<rparr>) (base f))\<lparr>permits := permits (base f) - 1\<rparr>"
      by (auto elim: acquiredE)
    have "stages f i = None"
      using begins(1,2,4) by (simp add: fine_ok_def stages_match_def running_request_def)
    then have "conn_allowed X c (tr @ [Outer (Acquired i)]) i (cn\<lparr>phase := Running req\<rparr>) (Some (Begin req))"
      using begins(5) [OF begins(1)] by (auto simp: conn_allowed_def intro: step_history.none)
    with begins(5) show ?case by (auto simp: s1 all_allowed_def set_conn_def)
  next
    case (access f i cn st h1 w1 st1)
    then obtain req h where h: "phase cn = Running req" "gate_held X c (tr @ [Access i st]) i h"
      "step_history (micro_step X) is_done h (Begin req) (handler cn) st"
      by (fastforce simp: conn_allowed_def)
    have "\<not> is_done st" using access(3) by (simp add: is_done_iff)
    from step_history.more [OF h(3) this access(4)] h(1,2) access(6) [OF access(1)]
    have "conn_allowed X c (tr @ [Access i st]) i (cn\<lparr>handler := h1\<rparr>) (Some st1)"
      by (auto simp: conn_allowed_def)
    with access(6) show ?case by (auto simp: all_allowed_def set_conn_def)
  next
    case (finishes f i cn req v)
    have a: "conn_allowed X c (tr @ [Outer (Ran i req)]) i cn (Some (Done v))"
      using finishes(5) [OF finishes(1)] finishes(3) by simp
    have "gate_held X c (tr @ [Outer (Ran i req)]) i (handler cn)"
      using conn_allowed_stage(1,4) [OF a] finishes(2) by (auto simp: gate_held_def logged_in_before_def)
    then have "conn_allowed X c (tr @ [Outer (Ran i req)]) i (cn\<lparr>phase := Writing v\<rparr>) None"
      using a by (simp add: conn_allowed_def)
    with finishes(5) show ?case by (auto simp: all_allowed_def set_conn_def)
  next
    case (interference f w1)
    then show ?case by (simp add: all_allowed_def)
  qed
qed

lemma all_allowed_start: "all_allowed X c [] (start_fine c w)"
  by (simp add: all_allowed_def start_fine_def start_server_def)

lemma all_allowed_run:
  "fine_run X c f0 tr f \<Longrightarrow> all_allowed X c [] f0 \<Longrightarrow> fine_ok c f0 \<Longrightarrow>
     all_allowed X c tr f \<and> fine_ok c f"
  by (induction rule: fine_run.induct) (auto intro: conn_allowed_step fine_ok_step)

lemma reached_allowed:
  assumes "fine_run X c (start_fine c w) tr f" "conns (base f) i = Some cn"
  shows "conn_allowed X c tr i cn (stages f i)"
  using all_allowed_run [OF assms(1) all_allowed_start fine_ok_start] assms(2)
  by (simp add: all_allowed_def)

end
