(* ===== verification/Server_Fine_Safety.thy ===== *)
theory Server_Fine_Safety
  imports Server_Fine
begin

text \<open>
  What the invariants of theory Server_Fine promise when the requests of different connections
  interleave access by access and other programs interfere: the query limit, the gate and the
  whitelist, where names lead; and what is lost, the guard against symbolic links.
\<close>

section \<open>Small runs\<close>

text \<open>One connection to a server with the demo engine, for the witnesses.\<close>

definition fine_demo ::
  "phase \<Rightarrow> stream \<Rightarrow> string request_handler \<Rightarrow> nat \<Rightarrow> string list world \<Rightarrow>
     (string, string, int) stage option \<Rightarrow> (string, string, int, string list) fine_server" where
  "fine_demo ph st h p w so =
     \<lparr>base = \<lparr>accepting = True, permits = p, next_id = 1, conns = [0 \<mapsto> demo_task ph st h], world = w\<rparr>,
      stages = (\<lambda>_. None)(0 := so)\<rparr>"

lemma fine_demo_sels [simp]:
  "conns (base (fine_demo ph st h p w so)) = [0 \<mapsto> demo_task ph st h]"
  "permits (base (fine_demo ph st h p w so)) = p" "world (base (fine_demo ph st h p w so)) = w"
  "stages (fine_demo ph st h p w so) = (\<lambda>_. None)(0 := so)"
  by (simp_all add: fine_demo_def)

lemma fine_demo_accepted:
  assumes "is_ip_allowed c (V4 0x7F000001) = Returns True" "outbox st = []"
  shows "fine_step demo_externals c (start_fine c w) (Outer (Accepted 0 (V4 0x7F000001)))
    (fine_demo Reading st (new_handler c) (query_limit c) w None)"
proof -
  have "server_step demo_externals c (start_server c w) (Accepted 0 (V4 0x7F000001))
      (spawn c (V4 0x7F000001) st (start_server c w))"
    using server_step.accepted [of "start_server c w" c "V4 0x7F000001" st demo_externals] assms
    by (simp add: start_server_def)
  then show ?thesis
    using fine_step.outer [of demo_externals c "start_fine c w" "Accepted 0 (V4 0x7F000001)"]
    by (simp add: start_fine_def start_server_def spawn_def fine_demo_def demo_task_def fun_upd_def)
qed

lemma fine_demo_received:
  assumes "read_request c st = (Some req, st1)"
  shows "fine_step demo_externals c (fine_demo Reading st h p w None) (Outer (Received 0 req))
    (fine_demo (Waiting req) st1 h p w None)"
  using fine_step.outer [OF server_step.received [of _ 0 "demo_task Reading st h" c req st1],
      of "fine_demo Reading st h p w None" demo_externals] assms
  by (simp add: fine_demo_def demo_task_def set_conn_def)

lemma fine_demo_acquired:
  assumes "0 < p"
  shows "fine_step demo_externals c (fine_demo (Waiting req) st h p w None) (Outer (Acquired 0))
    (fine_demo (Running req) st h (p - 1) w (Some (Begin req)))"
  using fine_step.begins [OF _ _ server_step.acquired [of _ 0 "demo_task (Waiting req) st h" req],
      of "fine_demo (Waiting req) st h p w None" "demo_task (Waiting req) st h" req demo_externals c] assms
  by (simp add: fine_demo_def demo_task_def set_conn_def)

lemma fine_demo_access:
  assumes "micro_step demo_externals h w stage = (h1, w1, stage1)" "\<And>v. stage \<noteq> Done v"
  shows "fine_step demo_externals c (fine_demo ph st h p w (Some stage)) (Access 0 stage)
    (fine_demo ph st h1 p w1 (Some stage1))"
  using fine_step.access [OF _ _ assms(2), of "fine_demo ph st h p w (Some stage)" 0 "demo_task ph st h"
      demo_externals h1 w1 stage1 c] assms(1)
  by (simp add: fine_demo_def demo_task_def set_conn_def del: micro_step.simps)

lemma fine_demo_begin:
  "micro_step demo_externals h w (Begin req) = (h1, w1, stage1) \<Longrightarrow>
     fine_step demo_externals c (fine_demo ph st h p w (Some (Begin req))) (Access 0 (Begin req))
       (fine_demo ph st h1 p w1 (Some stage1))"
  by (rule fine_demo_access) simp_all

lemma fine_demo_inside:
  "micro_step demo_externals h w stage = (h1, w1, stage1) \<Longrightarrow> \<not> outside stage \<Longrightarrow>
     fine_step demo_externals c (fine_demo ph st h p w (Some stage)) (Access 0 stage)
       (fine_demo ph st h1 p w1 (Some stage1))"
  by (rule fine_demo_access) auto

lemma fine_demo_finishes:
  "fine_step demo_externals c (fine_demo (Running req) st h p w (Some (Done v))) (Outer (Ran 0 req))
     (fine_demo (Writing v) st h (Suc p) w None)"
  using fine_step.finishes [of "fine_demo (Running req) st h p w (Some (Done v))" 0
      "demo_task (Running req) st h" req v demo_externals c]
  by (simp add: fine_demo_def demo_task_def set_conn_def)

lemma fine_demo_wrote:
  assumes "write_all (frame (response_body demo_externals v)) st = (Inr (), st1)"
  shows "fine_step demo_externals c (fine_demo (Writing v) st h p w None) (Outer (Wrote 0))
    (fine_demo Reading st1 h p w None)"
  using fine_step.outer [OF server_step.wrote [of _ 0 "demo_task (Writing v) st h" v demo_externals "()" st1],
      of "fine_demo (Writing v) st h p w None" c] assms
  by (simp add: fine_demo_def demo_task_def set_conn_def)

lemma fine_demo_interference:
  "fine_step demo_externals c (fine_demo ph st h p w so) Interference (fine_demo ph st h p w1 so)"
  using fine_step.interference [of demo_externals c "fine_demo ph st h p w so" w1]
  by (simp add: fine_demo_def)

lemma demo_is_str: "is_str ''login''" "is_str ''list''" "is_str ''delete''" "is_str ''select''"
  by code_simp+

lemma demo_lengths:
  "length (bytes_of_str ''login'') \<le> unat (client_max_packet_size (demo_server pw))"
  "length (bytes_of_str ''list'') \<le> unat (client_max_packet_size (demo_server pw))"
  "length (bytes_of_str ''delete'') \<le> unat (client_max_packet_size (demo_server pw))"
  "length (bytes_of_str ''select'') \<le> unat (client_max_packet_size (demo_server pw))"
  by (simp_all add: demo_server_def) (code_simp+)?

lemma demo_allowed: "is_ip_allowed (demo_server pw) ip = Returns True"
  by (simp add: is_ip_allowed_def demo_server_def)

text \<open>A peer connects, sends a request, and gets a permit.\<close>

lemma fine_begun:
  assumes "is_ip_allowed c (V4 0x7F000001) = Returns True" "is_str req"
    and "length (bytes_of_str req) \<le> unat (client_max_packet_size c)"
  shows "fine_run demo_externals c (start_fine c w)
    [Outer (Accepted 0 (V4 0x7F000001)), Outer (Received 0 req), Outer (Acquired 0)]
    (fine_demo (Running req) ((demo_stream (req # reqs))\<lparr>inbox := inbox (demo_stream reqs)\<rparr>)
      (new_handler c) (query_limit c - 1) w (Some (Begin req)))"
proof -
  have "0 < query_limit c" by (simp add: query_limit_def)
  moreover have "read_request c (demo_stream (req # reqs)) =
      (Some req, (demo_stream (req # reqs))\<lparr>inbox := inbox (demo_stream reqs)\<rparr>)"
    by (rule read_request_frame [OF assms(2,3)]) (simp add: demo_stream_def)
  moreover have "outbox (demo_stream (req # reqs)) = []" by (simp add: demo_stream_def)
  ultimately show ?thesis
    using fine_run.step [OF fine_run.step [OF fine_run.step [OF fine_run.start
          fine_demo_accepted [OF assms(1)]] fine_demo_received] fine_demo_acquired]
    by fastforce
qed

lemma fine_demo_begun:
  assumes "is_str req" "length (bytes_of_str req) \<le> unat (client_max_packet_size (demo_server pw))"
  shows "fine_run demo_externals (demo_server pw) (start_fine (demo_server pw) w)
    [Outer (Accepted 0 (V4 0x7F000001)), Outer (Received 0 req), Outer (Acquired 0)]
    (fine_demo (Running req) ((demo_stream (req # reqs))\<lparr>inbox := inbox (demo_stream reqs)\<rparr>)
      (new_handler (demo_server pw)) 3 w (Some (Begin req)))"
proof -
  have "query_limit (demo_server pw) - 1 = 3" by (simp add: query_limit_def demo_server_def)
  then show ?thesis using fine_begun [OF demo_allowed assms, of w reqs] by simp
qed

text \<open>The demo peer logs in and asks for the list; another one asks for a removal.\<close>

lemma demo_micro_login:
  "micro_step demo_externals (new_handler (demo_server ''pw'')) w (Begin ''login'') =
     ((new_handler (demo_server ''pw''))\<lparr>authenticated := True\<rparr>, w, Done (result_json True))"
proof -
  have "parse_request demo_externals ''login'' =
      Inr (json_object [(''auth'', String ''pw''), (''cmd'', String ''LIST'')])"
    by code_simp
  then show ?thesis by (simp add: begin_request_def get_str_def)
qed

lemma demo_micro_list:
  assumes "authenticated h" "config h = demo_server ''pw''"
  shows "micro_step demo_externals h w (Begin ''list'') = (h, w, ReadFolder)"
proof -
  have "parse_request demo_externals ''list'' = Inr (json_object [(''cmd'', String ''list'')])"
    "\<not> eq_ignore_ascii_case ''list'' ''QUERY''" "eq_ignore_ascii_case ''list'' ''LIST''"
    by code_simp+
  with assms show ?thesis by (simp add: begin_request_def dispatch_stage_def get_str_def)
qed

lemma logged_in_run:
  "\<exists>f. fine_run demo_externals (demo_server ''pw'') (start_fine (demo_server ''pw'') demo_world)
     ([Outer (Accepted 0 (V4 0x7F000001)), Outer (Received 0 ''login''), Outer (Acquired 0),
       Access 0 (Begin ''login''), Outer (Ran 0 ''login''), Outer (Wrote 0), Outer (Received 0 ''list''),
       Outer (Acquired 0), Access 0 (Begin ''list'')] @ [Access 0 ReadFolder]) f"
proof -
  let ?c = "demo_server ''pw''"
  let ?h = "(new_handler ?c)\<lparr>authenticated := True\<rparr> :: string request_handler"
  let ?st = "(demo_stream [''login'', ''list''])\<lparr>inbox := inbox (demo_stream [''list''])\<rparr>"
  let ?out = "frame (response_body demo_externals (result_json True))"
  let ?st2 = "?st\<lparr>outbox := outbox ?st @ ?out, accepts := accepts ?st - length ?out\<rparr>"
  have "length ?out \<le> 100" by code_simp
  then have wrote: "write_all ?out ?st = (Inr (), ?st2)"
    by (intro write_all_fits) (simp add: demo_stream_def)
  have read: "read_request ?c ?st2 = (Some ''list'', ?st2\<lparr>inbox := []\<rparr>)"
    by (rule read_request_frame [OF demo_is_str(2) demo_lengths(2)]) (simp add: demo_stream_def)
  have list: "micro_step demo_externals ?h demo_world (Begin ''list'') = (?h, demo_world, ReadFolder)"
    by (rule demo_micro_list) simp_all
  obtain h1 w1 stage where folder: "micro_step demo_externals ?h demo_world ReadFolder = (h1, w1, stage)"
    by (cases "micro_step demo_externals ?h demo_world ReadFolder")
  note run = fine_demo_begun [OF demo_is_str(1) demo_lengths(1), where pw = "''pw''" and
      reqs = "[''list'']" and w = demo_world]
  note run = fine_run.step [OF run fine_demo_begin [OF demo_micro_login]]
  note run = fine_run.step [OF fine_run.step [OF run fine_demo_finishes] fine_demo_wrote [OF wrote]]
  note run = fine_run.step [OF fine_run.step [OF run fine_demo_received [OF read]] fine_demo_acquired]
  note run = fine_run.step [OF fine_run.step [OF run fine_demo_begin [OF list]] fine_demo_inside [OF folder]]
  then show ?thesis by auto
qed

lemma demo_begun_delete:
  "\<exists>st. fine_run demo_externals (demo_server []) (start_fine (demo_server []) demo_world)
     [Outer (Accepted 0 (V4 0x7F000001)), Outer (Received 0 ''delete''), Outer (Acquired 0)]
     (fine_demo (Running ''delete'') st (new_handler (demo_server [])) 3 demo_world (Some (Begin ''delete'')))"
  using fine_demo_begun [OF demo_is_str(3) demo_lengths(3)] by blast

lemma name_shape_a: "name_shape_ok ''a''"
  by code_simp

lemma demo_micro_delete:
  "micro_step demo_externals (new_handler (demo_server [])) w (Begin ''delete'') =
     (new_handler (demo_server []), w, CheckExists (DeleteCommand (demo_request ''DELETE_DB'' ''a'' []) ''a''))"
proof -
  have "parse_request demo_externals ''delete'' = Inr (demo_request ''DELETE_DB'' ''a'' [])"
    "\<not> eq_ignore_ascii_case ''DELETE_DB'' ''QUERY''" "\<not> eq_ignore_ascii_case ''DELETE_DB'' ''LIST''"
    "eq_ignore_ascii_case ''DELETE_DB'' ''DELETE_DB''"
    by code_simp+
  then show ?thesis
    by (simp add: begin_request_def dispatch_stage_def delete_stage_def check_stage_def
        demo_request_get name_shape_a)
qed

lemma removal_run:
  "\<exists>tr f. fine_run demo_externals (demo_server []) (start_fine (demo_server []) demo_world) tr f \<and>
     stages f 0 = Some (RemoveFile ''a'') \<and> world (base f) = demo_world"
proof -
  let ?h = "new_handler (demo_server []) :: string request_handler"
  let ?cmd = "DeleteCommand (demo_request ''DELETE_DB'' ''a'' []) ''a''"
  let ?full = "path_join ''/data'' ''a''"
  obtain st where run: "fine_run demo_externals (demo_server []) (start_fine (demo_server []) demo_world)
     [Outer (Accepted 0 (V4 0x7F000001)), Outer (Received 0 ''delete''), Outer (Acquired 0)]
     (fine_demo (Running ''delete'') st ?h 3 demo_world (Some (Begin ''delete'')))"
    using demo_begun_delete by blast
  have "fs_exists demo_files ?full"
    "direct_child (canonicalize_path demo_files ''/data'') (canonicalize_path demo_files ?full)"
    by code_simp+
  then have steps:
    "micro_step demo_externals ?h demo_world (CheckExists ?cmd) = (?h, demo_world, CanonicalFolder ?cmd)"
    "micro_step demo_externals ?h demo_world (CanonicalFolder ?cmd) =
       (?h, demo_world, CanonicalFull ?cmd (canonicalize_path demo_files ''/data''))"
    "micro_step demo_externals ?h demo_world (CanonicalFull ?cmd (canonicalize_path demo_files ''/data'')) =
       (?h, demo_world, RemoveFile ''a'')"
    by simp_all
  note run = fine_run.step [OF run fine_demo_begin [OF demo_micro_delete]]
  note run = fine_run.step [OF run fine_demo_inside [OF steps(1)]]
  note run = fine_run.step [OF run fine_demo_inside [OF steps(2)]]
  note run = fine_run.step [OF run fine_demo_inside [OF steps(3)]]
  then show ?thesis by (intro exI conjI) (auto simp del: append_Cons)
qed

text \<open>A link planted between the check of a name and its use.\<close>

definition race_files :: "node option \<Rightarrow> fs" where
  "race_files link =
     \<lparr>entries =
        (case link of None \<Rightarrow> [] | Some node \<Rightarrow> [([''data'', ''a''], node)]) @
        [([''data''], Dir), ([''etc''], Dir), ([''etc'', ''secret''], File [0x21])],
      cwd = [], rights = (\<lambda>_ _. True)\<rparr>"

definition race_world :: "node option \<Rightarrow> string list world" where
  "race_world link = \<lparr>files = race_files link, engine = []\<rparr>"

section \<open>Properties\<close>

text \<open>C11: The query limit with requests that are not atomic: however the single accesses of the
  running requests interleave, and whatever other programs do, the requests in progress and the
  free permits add up to the configured number of workers (at least one).\<close>

theorem fine_query_limit:
  assumes "fine_run X c (start_fine c w) tr f"
  shows "card {i. stages f i \<noteq> None} + permits (base f) = max (unat (workers c)) 1"
proof -
  have "numbered (base f)" "stages_match f" "total running (base f) + permits (base f) = query_limit c"
    using fine_reached [OF assms] by (simp_all add: fine_ok_def)
  then show ?thesis
    using total_running [of "base f"] stages_running [of f] by (simp add: query_limit_def)
qed

theorem fine_query_limit_witness:
  "\<exists>f :: (string, string, int, string list) fine_server.
     stages f 0 = Some (Begin ''delete'') \<and> permits (base f) = 3 \<and>
     card {i. stages f i \<noteq> None} + permits (base f) = 4"
proof -
  have "unat (workers (demo_server [])) = 4" by (simp add: demo_server_def)
  moreover obtain st where run: "fine_run demo_externals (demo_server []) (start_fine (demo_server []) demo_world)
     [Outer (Accepted 0 (V4 0x7F000001)), Outer (Received 0 ''delete''), Outer (Acquired 0)]
     (fine_demo (Running ''delete'') st (new_handler (demo_server [])) 3 demo_world (Some (Begin ''delete'')))"
    using demo_begun_delete by blast
  ultimately show ?thesis
    using fine_query_limit [OF run]
    by (intro exI [of _ "fine_demo (Running ''delete'') st (new_handler (demo_server [])) 3 demo_world
      (Some (Begin ''delete''))"]) simp
qed

text \<open>C3: No access without permission, under any interleaving: when the handler of a connection
  makes an access to the world, that connection was accepted from an address the whitelist lets
  in, and if a password is configured one of its own earlier requests carried it. Neither the
  other connections nor other programs can open the gate.\<close>

theorem access_controlled:
  assumes "fine_run X c (start_fine c w) (tr @ [Access i st]) f" "\<not> outside st"
  shows "(\<exists>ip. Outer (Accepted i ip) \<in> set tr \<and> is_ip_allowed c ip = Returns True) \<and>
    (auth c \<noteq> [] \<longrightarrow> (\<exists>req. Outer (Ran i req) \<in> set tr \<and> is_login X c req))"
proof -
  obtain f1 where run: "fine_run X c (start_fine c w) tr f1" and step: "fine_step X c f1 (Access i st) f"
    using assms(1) by (auto elim: fine_run_snocE)
  from step obtain cn where cn: "conns (base f1) i = Some cn" and st: "stages f1 i = Some st"
    by (auto elim: fine_step.cases)
  show ?thesis
    using reached_allowed [OF run cn] st assms(2) conn_allowed_stage(3) [of X c tr i cn st]
    by (auto simp: conn_allowed_def logged_in_before_def)
qed

theorem access_controlled_witness:
  "\<exists>tr.
     (\<exists>f. fine_run demo_externals (demo_server ''pw'') (start_fine (demo_server ''pw'') demo_world)
        (tr @ [Access 0 ReadFolder]) f) \<and>
     (\<exists>req. Outer (Ran 0 req) \<in> set tr \<and> is_login demo_externals (demo_server ''pw'') req)"
proof -
  obtain f where run: "fine_run demo_externals (demo_server ''pw'') (start_fine (demo_server ''pw'') demo_world)
     ([Outer (Accepted 0 (V4 0x7F000001)), Outer (Received 0 ''login''), Outer (Acquired 0),
       Access 0 (Begin ''login''), Outer (Ran 0 ''login''), Outer (Wrote 0), Outer (Received 0 ''list''),
       Outer (Acquired 0), Access 0 (Begin ''list'')] @ [Access 0 ReadFolder]) f"
    using logged_in_run by blast
  from access_controlled [OF run] have "\<exists>req. Outer (Ran 0 req) \<in> set
      [Outer (Accepted 0 (V4 0x7F000001)), Outer (Received 0 ''login''), Outer (Acquired 0),
       Access 0 (Begin ''login''), Outer (Ran 0 ''login''), Outer (Wrote 0), Outer (Received 0 ''list''),
       Outer (Acquired 0), Access 0 (Begin ''list'') :: (string, string, int) fine_event] \<and>
      is_login demo_externals (demo_server ''pw'') req"
    by simp
  with run show ?thesis by blast
qed

text \<open>C4: Names stay confined under any interleaving and any interference: whenever a handler is
  about to remove a file, the entry that would be unlinked is the one of that very name in the
  databases folder; whenever it is about to open one, what would be opened (or created) is the
  direct child of the folder that the name spells, unless the entry of that name is a symbolic
  link at that moment.\<close>

theorem confined_under_interference:
  assumes "fine_run X c (start_fine c w) tr f"
    and "resolve (files (world (base f))) (databases_folder c) = Some b"
  shows "(\<forall>db loc. stages f i = Some (RemoveFile db) \<longrightarrow>
      unlink_location (files (world (base f))) (path_join (databases_folder c) db) = Some loc \<longrightarrow>
      loc = b @ [db]) \<and>
    (\<forall>json db query loc. stages f i = Some (OpenDb json db query) \<longrightarrow>
      open_location (files (world (base f))) (path_join (databases_folder c) db) = Some loc \<longrightarrow>
      loc = b @ [hd (split_on CHR ''/'' db)] \<or>
      (\<exists>target. node_at (files (world (base f))) (b @ [hd (split_on CHR ''/'' db)]) = Some (Symlink target)))"
proof -
  have names: "stage_names_ok st" if "stages f i = Some st" for st
  proof -
    have "running_request (base f) i \<noteq> None"
      using fine_reached [OF assms(1)] that by (metis fine_ok_def option.distinct(1) stages_match_def)
    then obtain cn where "conns (base f) i = Some cn"
      by (auto simp: running_request_def split: option.splits)
    from reached_allowed [OF assms(1) this] that show ?thesis by (auto dest: conn_allowed_stage(2))
  qed
  have "loc = b @ [hd (split_on CHR ''/'' db)] \<or>
      (\<exists>target. node_at (files (world (base f))) (b @ [hd (split_on CHR ''/'' db)]) = Some (Symlink target))"
    if "lexically_safe db"
      "open_location (files (world (base f))) (path_join (databases_folder c) db) = Some loc" for db loc
    using resolve_join [OF assms(2) that(1)] create_walk_lexical [OF that(1)] that(2) by metis
  then show ?thesis
    using names unlink_location_safe [OF assms(2)] by (force simp: name_shape_ok_iff)
qed

theorem confined_under_interference_witness:
  "\<exists>f :: (string, string, int, string list) fine_server. stages f 0 = Some (RemoveFile ''a'') \<and>
     unlink_location (files (world (base f))) (path_join ''/data'' ''a'') = Some ([''data''] @ [''a''])"
proof -
  obtain tr f where run: "fine_run demo_externals (demo_server []) (start_fine (demo_server []) demo_world) tr f"
    and st: "stages f 0 = Some (RemoveFile ''a'')" "world (base f) = demo_world"
    using removal_run by blast
  have "unlink_location demo_files (path_join ''/data'' ''a'') \<noteq> None" by code_simp
  with confined_under_interference [OF run, of "[''data'']" 0] st demo_base show ?thesis
    by (intro exI [of _ f]) auto
qed

text \<open>C36: What is lost without atomicity: the guard against symbolic links looks at the folder
  before the database is opened, and a link planted in between by another program is followed, to
  a file that exists outside the folder and that the guard would have refused.\<close>

theorem symlink_guard_race:
  "\<exists>tr f json. fine_run demo_externals (demo_server []) (start_fine (demo_server []) (race_world None))
     (tr @ [Access 0 (CheckExists (QueryCommand json ''a'' ''SELECT'')), Interference]) f \<and>
   stages f 0 = Some (OpenDb json ''a'' ''SELECT'') \<and>
   open_location (files (world (base f))) (path_join ''/data'' ''a'') = Some [''etc'', ''secret''] \<and>
   node_at (files (world (base f))) [''etc'', ''secret''] = Some (File [0x21]) \<and>
   \<not> is_safe_database_name (files (world (base f))) ''/data'' ''a''"
proof -
  let ?h = "new_handler (demo_server []) :: string request_handler"
  let ?json = "demo_request ''QUERY'' ''a'' ''SELECT''"
  let ?w = "race_world (Some (Symlink ''../etc/secret''))"
  obtain st where run: "fine_run demo_externals (demo_server []) (start_fine (demo_server []) (race_world None))
     [Outer (Accepted 0 (V4 0x7F000001)), Outer (Received 0 ''select''), Outer (Acquired 0)]
     (fine_demo (Running ''select'') st ?h 3 (race_world None) (Some (Begin ''select'')))"
    using fine_demo_begun [OF demo_is_str(4) demo_lengths(4)] by blast
  have "parse_request demo_externals ''select'' = Inr ?json" "eq_ignore_ascii_case ''QUERY'' ''QUERY''"
    by code_simp+
  then have begin_step: "micro_step demo_externals ?h (race_world None) (Begin ''select'') =
      (?h, race_world None, CheckExists (QueryCommand ?json ''a'' ''SELECT''))"
    by (simp add: begin_request_def dispatch_stage_def query_stage_def check_stage_def
        demo_request_get name_shape_a)
  have "\<not> fs_exists (files (race_world None)) (path_join ''/data'' ''a'')" by code_simp
  then have check: "micro_step demo_externals ?h (race_world None)
      (CheckExists (QueryCommand ?json ''a'' ''SELECT'')) =
      (?h, race_world None, OpenDb ?json ''a'' ''SELECT'')"
    by (simp add: demo_trim)
  note run = fine_run.step [OF run fine_demo_begin [OF begin_step]]
  note run = fine_run.step [OF run fine_demo_inside [OF check]]
  note run = fine_run.step [OF run fine_demo_interference [of _ _ _ _ _ _ _ ?w]]
  have "open_location (files ?w) (path_join ''/data'' ''a'') = Some [''etc'', ''secret'']"
    "node_at (files ?w) [''etc'', ''secret''] = Some (File [0x21])"
    "\<not> is_safe_database_name (files ?w) ''/data'' ''a''"
    by code_simp+
  with run show ?thesis
    by (intro exI [of _ "[Outer (Accepted 0 (V4 0x7F000001)), Outer (Received 0 ''select''),
        Outer (Acquired 0), Access 0 (Begin ''select'')]"] exI [of _ ?json]
        exI [of _ "fine_demo (Running ''select'') st ?h 3 ?w (Some (OpenDb ?json ''a'' ''SELECT''))"]) simp
qed

end
