(* ===== verification/Server_Serial.thy ===== *)
theory Server_Serial
  imports Server_Fine_Safety
begin

text \<open>
  How the server whose requests take many steps (theory Server_Fine) and the one whose requests are
  atomic (theory Server) are related: every run of the atomic one is a run of the other, and with
  one worker the converse holds too, as long as connections close and other programs act only
  while no request is in progress, so that nobody can tell them apart.
\<close>

section \<open>The atomic server is one of the interleavings\<close>

lemma fine_run_one: "fine_step X c f e f1 \<Longrightarrow> fine_run X c f [e] f1"
  using fine_run.step [OF fine_run.start] by force

definition at_stage ::
  "nat \<Rightarrow> 'c conn \<Rightarrow> 'c request_handler \<Rightarrow> 'q world \<Rightarrow> ('c, 's, 'r) stage \<Rightarrow>
     ('c, 's, 'r, 'q) fine_server \<Rightarrow> ('c, 's, 'r, 'q) fine_server" where
  "at_stage i cn h w st f =
     f\<lparr>base := (set_conn i (cn\<lparr>handler := h\<rparr>) (base f))\<lparr>world := w\<rparr>,
       stages := (stages f)(i \<mapsto> st)\<rparr>"

text \<open>A request that completes, as accesses one after the other.\<close>

lemma fine_accesses:
  "completes X h w st v h1 w1 \<Longrightarrow>
     \<exists>tr. fine_run X c (at_stage i cn h w st f) tr (at_stage i cn h1 w1 (Done v) f) \<and>
       outer_events tr = [] \<and> Interference \<notin> set tr"
proof (induction rule: completes.induct)
  case (finished h w v)
  show ?case by (intro exI [of _ "[]"]) (simp add: fine_run.start)
next
  case (next_step st h w h1 w1 st1 v h2 w2)
  have "fine_step X c (at_stage i cn h w st f) (Access i st) (at_stage i cn h1 w1 st1 f)"
    using fine_step.access [of "at_stage i cn h w st f" i "cn\<lparr>handler := h\<rparr>" st X h1 w1 st1 c]
      next_step(1,2)
    by (simp add: at_stage_def set_conn_def)
  then have first: "fine_run X c (at_stage i cn h w st f) [Access i st] (at_stage i cn h1 w1 st1 f)"
    by (rule fine_run_one)
  obtain tr where "fine_run X c (at_stage i cn h1 w1 st1 f) tr (at_stage i cn h2 w2 (Done v) f)"
    "outer_events tr = []" "Interference \<notin> set tr"
    using next_step.IH by blast
  with fine_run_append [OF this(1) first] show ?case
    by (intro exI [of _ "Access i st # tr"]) simp
qed

definition fine_of :: "('c, 'q) server \<Rightarrow> ('c, 's, 'r, 'q) fine_server" where
  "fine_of s = \<lparr>base = s, stages = (\<lambda>i. map_option Begin (running_request s i))\<rparr>"

lemma fine_of_start: "fine_of (start_server c w) = start_fine c w"
  by (simp add: fine_of_def start_fine_def start_server_def running_request_def fun_eq_iff)

lemma at_stage_fine_of:
  "conns s i = Some cn \<Longrightarrow> phase cn = Running req \<Longrightarrow>
     at_stage i cn (handler cn) (world s) (Begin req) (fine_of s) = fine_of s"
  by (auto simp: at_stage_def fine_of_def set_conn_def running_request_def fun_eq_iff)

text \<open>Runs of the fine server that show the given event and nothing else.\<close>

definition fine_shows ::
  "('q, 'c, 's, 'r, 'w) externals \<Rightarrow> config \<Rightarrow> ('c, 'q) server \<Rightarrow> event \<Rightarrow> ('c, 'q) server \<Rightarrow> bool" where
  "fine_shows X c s e s1 \<longleftrightarrow>
     (\<exists>tr. fine_run X c (fine_of s) tr (fine_of s1) \<and> outer_events tr = [e] \<and> Interference \<notin> set tr)"

lemma fine_shows_step: "fine_step X c (fine_of s) (Outer e) (fine_of s1) \<Longrightarrow> fine_shows X c s e s1"
  unfolding fine_shows_def by (intro exI [of _ "[Outer e]"]) (auto dest: fine_run_one)

lemma fine_shows_ran:
  assumes "server_step X c s (Ran i req) s1"
  shows "fine_shows X c s (Ran i req) s1"
proof -
  from assms obtain cn v h1 w1 where r: "conns s i = Some cn" "phase cn = Running req"
    "handle_request X (handler cn) (world s) req = Returns (v, h1, w1)"
    "s1 = (set_conn i (cn\<lparr>handler := h1, phase := Writing v\<rparr>) s)
       \<lparr>permits := Suc (permits s), world := w1\<rparr>"
    by (auto elim: server_step.cases)
  have "completes X (handler cn) (world s) (Begin req) v h1 w1"
    using r(3) by (simp add: completes_iff_outcome)
  from fine_accesses [OF this, of c i cn "fine_of s"] obtain tr where tr:
    "fine_run X c (fine_of s) tr (at_stage i cn h1 w1 (Done v) (fine_of s))"
    "outer_events tr = []" "Interference \<notin> set tr"
    unfolding at_stage_fine_of [OF r(1,2)] by blast
  have "fine_step X c (at_stage i cn h1 w1 (Done v) (fine_of s)) (Outer (Ran i req)) (fine_of s1)"
    using fine_step.finishes [of "at_stage i cn h1 w1 (Done v) (fine_of s)" i "cn\<lparr>handler := h1\<rparr>" req v X c]
      r(2,4)
    by (simp add: at_stage_def fine_of_def set_conn_def)
      (auto simp: running_request_def fun_eq_iff elim!: back_subst [of "fine_step X c _ _"])
  from fine_run.step [OF tr(1) this] tr(2,3) show ?thesis
    unfolding fine_shows_def by (intro exI [of _ "tr @ [Outer (Ran i req)]"]) simp
qed

lemma fine_simulates_step:
  assumes "server_step X c s e s1" "numbered s"
  shows "fine_shows X c s e s1"
proof -
  consider i where "e = Acquired i" | i req where "e = Ran i req"
    | "\<And>i req. e \<noteq> Acquired i \<and> e \<noteq> Ran i req"
    by blast
  then show ?thesis
  proof cases
    case 1
    then obtain cn req where a: "conns s i = Some cn" "phase cn = Waiting req"
      "s1 = (set_conn i (cn\<lparr>phase := Running req\<rparr>) s)\<lparr>permits := permits s - 1\<rparr>"
      using assms(1) by (auto elim: acquiredE)
    have eq: "fine_of s1 = (fine_of s)\<lparr>base := s1, stages := (stages (fine_of s))(i \<mapsto> Begin req)\<rparr>"
      by (auto simp: fine_of_def a(3) running_request_set_conn fun_eq_iff)
    have "fine_step X c (fine_of s) (Outer e) (fine_of s1)"
      unfolding eq 1 by (rule fine_step.begins) (use a assms(1) 1 in \<open>simp_all add: fine_of_def\<close>)
    then show ?thesis by (rule fine_shows_step)
  next
    case 2
    with assms(1) fine_shows_ran show ?thesis by blast
  next
    case 3
    then have "running_request s1 = running_request s"
      by (rule outer_running_request [OF assms(1) _ assms(2)])
    then have eq: "fine_of s1 = (fine_of s)\<lparr>base := s1\<rparr>" by (simp add: fine_of_def)
    have "fine_step X c (fine_of s) (Outer e) (fine_of s1)"
      unfolding eq by (rule fine_step.outer) (use assms(1) 3 in \<open>simp_all add: fine_of_def\<close>)
    then show ?thesis by (rule fine_shows_step)
  qed
qed

lemma fine_simulates:
  assumes "server_run X c s0 tr s" "server_inv X c [] s0"
  shows "\<exists>ftr. fine_run X c (fine_of s0) ftr (fine_of s) \<and> outer_events ftr = tr \<and>
    Interference \<notin> set ftr"
  using assms
proof (induction rule: server_run.induct)
  case (start s)
  show ?case by (intro exI [of _ "[]"]) (simp add: fine_run.start)
next
  case (step s tr s1 e s2)
  have "numbered s1" using server_inv_run [OF step(1,4)] by (simp add: server_inv_def)
  then obtain tr2 where two: "fine_run X c (fine_of s1) tr2 (fine_of s2)" "outer_events tr2 = [e]"
    "Interference \<notin> set tr2"
    using fine_simulates_step [OF step(2)] unfolding fine_shows_def by blast
  obtain ftr where one: "fine_run X c (fine_of s) ftr (fine_of s1)" "outer_events ftr = tr"
    "Interference \<notin> set ftr"
    using step.IH [OF step(4)] by blast
  show ?case
    using fine_run_append [OF two(1) one(1)] one two by (intro exI [of _ "ftr @ tr2"]) simp
qed

section \<open>With one worker: no interleaving is visible\<close>

text \<open>
  What the fine server and an atomic one have in common: they are equal, or one request is in
  progress, which the atomic server has not begun and whose result is the same in both.
\<close>

definition serial_link ::
  "('q, 'c, 's, 'r, 'w) externals \<Rightarrow> ('c, 'q) server \<Rightarrow> ('c, 's, 'r, 'q) fine_server \<Rightarrow> bool" where
  "serial_link X s f \<longleftrightarrow>
     stages f = Map.empty \<and> base f = s \<or>
     (\<exists>i cn req h w st. conns s i = Some cn \<and> phase cn = Running req \<and> stages f = [i \<mapsto> st] \<and>
        base f = (set_conn i (cn\<lparr>handler := h\<rparr>) s)\<lparr>world := w\<rparr> \<and>
        outcome X h w st = handle_request X (handler cn) (world s) req)"

text \<open>A step of another connection does not depend on what the running one has done so far.\<close>

lemma outer_step_commutes:
  assumes "server_step X c s1 e s1'" "\<And>j req. e \<noteq> Acquired j \<and> e \<noteq> Ran j req \<and> e \<noteq> Closed j"
    and "s1 = (set_conn i (cn\<lparr>handler := h\<rparr>) s)\<lparr>world := w\<rparr>"
    and "conns s i = Some cn" "phase cn = Running req" "numbered s"
  shows "\<exists>s'. server_step X c s e s' \<and> s1' = (set_conn i (cn\<lparr>handler := h\<rparr>) s')\<lparr>world := w\<rparr> \<and>
    conns s' i = Some cn \<and> world s' = world s"
  using assms
proof (induction rule: server_step.induct)
  case (rejected s1 ip)
  then show ?case by (intro exI [of _ s]) (simp add: server_step.rejected set_conn_def)
next
  case (accepted s1 ip st)
  then have "next_id s \<noteq> i" by (auto simp: numbered_def)
  with accepted show ?case
    using server_step.accepted [of s c ip st X]
    by (intro exI [of _ "spawn c ip st s"]) (auto simp: spawn_def set_conn_def fun_upd_twist)
next
  case (accept_failed s1)
  then show ?case by (intro exI [of _ s]) (simp add: server_step.accept_failed set_conn_def)
next
  case (received s1 j cn' req' st)
  then have "j \<noteq> i" by (auto simp: set_conn_def)
  with received show ?case
    using server_step.received [of s j cn' c req' st X]
    by (intro exI [of _ "set_conn j (cn'\<lparr>socket := st, phase := Waiting req'\<rparr>) s"])
      (auto simp: set_conn_def fun_upd_twist)
next
  case (wrote s1 j cn' v u st)
  then have "j \<noteq> i" by (auto simp: set_conn_def)
  with wrote show ?case
    using server_step.wrote [of s j cn' v X u st c]
    by (intro exI [of _ "set_conn j (cn'\<lparr>socket := st, phase := Reading\<rparr>) s"])
      (auto simp: set_conn_def fun_upd_twist)
next
  case (shutdown s1)
  then show ?case
    by (intro exI [of _ "s\<lparr>accepting := False\<rparr>"]) (auto simp: set_conn_def intro: server_step.shutdown)
qed auto

lemma finite_running_conns: "numbered s \<Longrightarrow> finite (running_conns s)"
  by (rule finite_subset [of _ "{..<next_id s}"]) (auto simp: numbered_def running_conns_def)

lemma one_worker_idle:
  assumes "fine_ok c f" "query_limit c = 1" "0 < permits (base f)"
  shows "stages f = Map.empty"
proof -
  have ok: "numbered (base f)" "stages_match f"
    "total running (base f) + permits (base f) = query_limit c"
    using assms(1) by (simp_all add: fine_ok_def)
  have "card (running_conns (base f)) = 0"
    using ok(3) assms(2,3) by (simp flip: total_running [OF ok(1)])
  then have "{i. stages f i \<noteq> None} = {}"
    unfolding stages_running [OF ok(2)] using finite_running_conns [OF ok(1)] by simp
  then show ?thesis by (simp add: fun_eq_iff)
qed

lemma serial_linkI:
  "conns s i = Some cn \<Longrightarrow> phase cn = Running req \<Longrightarrow> stages f = [i \<mapsto> st] \<Longrightarrow>
     base f = (set_conn i (cn\<lparr>handler := h\<rparr>) s)\<lparr>world := w\<rparr> \<Longrightarrow>
     outcome X h w st = handle_request X (handler cn) (world s) req \<Longrightarrow> serial_link X s f"
  unfolding serial_link_def by blast

lemma serial_link_idle: "serial_link X s f \<Longrightarrow> \<forall>i. stages f i = None \<Longrightarrow> base f = s"
  by (auto simp: serial_link_def split: if_splits)

text \<open>The request in progress, seen from both sides.\<close>

lemma serial_link_stage:
  assumes "serial_link X s f" "conns (base f) i = Some cn" "stages f i = Some st"
  obtains cn0 req where "conns s i = Some cn0" "phase cn0 = Running req" "phase cn = Running req"
    "cn = cn0\<lparr>handler := handler cn\<rparr>" "stages f = [i \<mapsto> st]"
    "base f = (set_conn i cn s)\<lparr>world := world (base f)\<rparr>"
    "outcome X (handler cn) (world (base f)) st = handle_request X (handler cn0) (world s) req"
proof -
  from assms(1,3) obtain cn0 req h w where l: "conns s i = Some cn0" "phase cn0 = Running req"
    "stages f = [i \<mapsto> st]" "base f = (set_conn i (cn0\<lparr>handler := h\<rparr>) s)\<lparr>world := w\<rparr>"
    "outcome X h w st = handle_request X (handler cn0) (world s) req"
    by (auto simp: serial_link_def split: if_splits)
  then have "cn = cn0\<lparr>handler := h\<rparr>" "world (base f) = w" using assms(2) by (auto simp: set_conn_def)
  with l that show thesis by simp
qed

lemma serial_outer:
  assumes "server_step X c (base f) e s1" "\<And>j req. e \<noteq> Acquired j \<and> e \<noteq> Ran j req"
    and "(\<exists>j. e = Closed j) \<Longrightarrow> stages f = Map.empty" "serial_link X s f" "numbered s"
  shows "\<exists>s'. server_step X c s e s' \<and> serial_link X s' (f\<lparr>base := s1\<rparr>)"
proof -
  consider "stages f = Map.empty" "base f = s"
    | i cn req h w st where "conns s i = Some cn" "phase cn = Running req" "stages f = [i \<mapsto> st]"
      "base f = (set_conn i (cn\<lparr>handler := h\<rparr>) s)\<lparr>world := w\<rparr>"
      "outcome X h w st = handle_request X (handler cn) (world s) req"
    using assms(4) unfolding serial_link_def by blast
  then show ?thesis
  proof cases
    case 1
    with assms(1) show ?thesis by (intro exI [of _ s1]) (simp add: serial_link_def)
  next
    case 2
    have "\<And>j req. e \<noteq> Acquired j \<and> e \<noteq> Ran j req \<and> e \<noteq> Closed j" using assms(2,3) 2(3) by auto
    then obtain s' where s': "server_step X c s e s'" "s1 = (set_conn i (cn\<lparr>handler := h\<rparr>) s')\<lparr>world := w\<rparr>"
      "conns s' i = Some cn" "world s' = world s"
      using outer_step_commutes [OF assms(1) _ 2(4,1,2) assms(5)] by blast
    with 2 have "serial_link X s' (f\<lparr>base := s1\<rparr>)" by (intro serial_linkI [of s' i cn req]) simp_all
    with s'(1) show ?thesis by blast
  qed
qed

lemma serial_finishes:
  assumes "conns (base f) i = Some cn" "phase cn = Running req" "stages f i = Some (Done v)"
    and "serial_link X s f"
  shows "server_step X c s (Ran i req)
    ((set_conn i (cn\<lparr>phase := Writing v\<rparr>) (base f))\<lparr>permits := Suc (permits (base f))\<rparr>)"
proof -
  let ?h = "handler cn" and ?w = "world (base f)"
  obtain cn0 where l: "conns s i = Some cn0" "phase cn0 = Running req" "cn = cn0\<lparr>handler := ?h\<rparr>"
    "base f = (set_conn i cn s)\<lparr>world := ?w\<rparr>"
    "handle_request X (handler cn0) (world s) req = Returns (v, ?h, ?w)"
    using serial_link_stage [OF assms(4,1,3)] assms(2) by (metis outcome.simps(16) phase.inject(2))
  have "(set_conn i (cn0\<lparr>handler := ?h, phase := Writing v\<rparr>) s)\<lparr>permits := Suc (permits s), world := ?w\<rparr> =
      (set_conn i (cn\<lparr>phase := Writing v\<rparr>) (base f))\<lparr>permits := Suc (permits (base f))\<rparr>"
    by (subst l(4), subst (2) l(4), subst (3) l(3)) (cases s, simp add: set_conn_def)
  with server_step.ran [OF l(1,2,5), of c] show ?thesis by (simp only:)
qed

text \<open>Runs of the atomic server between whose steps other programs may change the world.\<close>

inductive atomic_run ::
  "('q, 'c, 's, 'r, 'w) externals \<Rightarrow> config \<Rightarrow> ('c, 'q) server \<Rightarrow> event option list \<Rightarrow> ('c, 'q) server \<Rightarrow> bool"
  for X c where
  start: "atomic_run X c s [] s"
| step: "atomic_run X c s tr s1 \<Longrightarrow> server_step X c s1 e s2 \<Longrightarrow> atomic_run X c s (tr @ [Some e]) s2"
| disturbed: "atomic_run X c s tr s1 \<Longrightarrow> atomic_run X c s (tr @ [None]) (s1\<lparr>world := w\<rparr>)"

lemma atomic_run_one: "server_step X c s e s1 \<Longrightarrow> atomic_run X c s [Some e] s1"
  using atomic_run.step [OF atomic_run.start] by force

lemma atomic_run_append:
  "atomic_run X c s1 tr' s2 \<Longrightarrow> atomic_run X c s tr s1 \<Longrightarrow> atomic_run X c s (tr @ tr') s2"
  by (induction rule: atomic_run.induct)
    (auto simp flip: append_assoc intro: atomic_run.step atomic_run.disturbed)

lemma atomic_run_server_run: "atomic_run X c s tr s1 \<Longrightarrow> None \<notin> set tr \<Longrightarrow> server_run X c s (map the tr) s1"
  by (induction rule: atomic_run.induct) (auto intro: server_run.start server_run.step)

text \<open>What is visible of a run of the fine server; what may disturb a request; whether one is in
  progress.\<close>

fun visible_events :: "('c, 's, 'r) fine_event list \<Rightarrow> event option list" where
  "visible_events [] = []"
| "visible_events (Outer e # tr) = Some e # visible_events tr"
| "visible_events (Interference # tr) = None # visible_events tr"
| "visible_events (Access i st # tr) = visible_events tr"

fun disturbs :: "('c, 's, 'r) fine_event \<Rightarrow> bool" where
  "disturbs Interference = True"
| "disturbs (Outer (Closed i)) = True"
| "disturbs e = False"

fun busy_after :: "bool \<Rightarrow> ('c, 's, 'r) fine_event list \<Rightarrow> bool" where
  "busy_after b [] = b"
| "busy_after b (Outer (Acquired i) # tr) = busy_after True tr"
| "busy_after b (Outer (Ran i req) # tr) = busy_after False tr"
| "busy_after b (e # tr) = busy_after b tr"

text \<open>Connections close and other programs act between the requests only.\<close>

definition undisturbed :: "('c, 's, 'r) fine_event list \<Rightarrow> bool" where
  "undisturbed tr \<longleftrightarrow>
     (\<forall>n < length tr. disturbs (tr ! n) \<longrightarrow> \<not> busy_after False (take n tr))"

lemma visible_events_append [simp]: "visible_events (tr @ tr') = visible_events tr @ visible_events tr'"
  by (induction tr rule: visible_events.induct) auto

lemma busy_after_append: "busy_after b (tr @ tr') = busy_after (busy_after b tr) tr'"
  by (induction b tr rule: busy_after.induct) auto

lemma undisturbed_snoc:
  "undisturbed (tr @ [e]) \<Longrightarrow> undisturbed tr \<and> (disturbs e \<longrightarrow> \<not> busy_after False tr)"
  by (auto simp: undisturbed_def nth_append dest: spec [of _ "length tr"] split: if_splits)

lemma serial_step:
  assumes "fine_step X c f e f1" "serial_link X s f" "fine_ok c f" "query_limit c = 1"
    "disturbs e \<Longrightarrow> stages f = Map.empty" "numbered s"
  shows "\<exists>s1. serial_link X s1 f1 \<and> atomic_run X c s (visible_events [e]) s1"
  using assms
proof (induction rule: fine_step.induct)
  case (outer f e s1)
  have "(\<exists>j. e = Closed j) \<Longrightarrow> stages f = Map.empty" using outer(6) by auto
  from serial_outer [OF outer(1,2) this outer(3,7)] show ?case by (auto intro: atomic_run_one)
next
  case (begins f i cn req s1)
  then have "0 < permits (base f)" by (auto elim: acquiredE)
  then have idle: "stages f = Map.empty" using one_worker_idle begins(5,6) by blast
  then have s: "base f = s" using serial_link_idle [OF begins(4)] by simp
  have s1: "s1 = (set_conn i (cn\<lparr>phase := Running req\<rparr>) s)\<lparr>permits := permits s - 1\<rparr>"
    using begins(1,2,3) s by (auto elim: acquiredE)
  have "serial_link X s1 (f\<lparr>base := s1, stages := (stages f)(i \<mapsto> Begin req)\<rparr>)"
    by (rule serial_linkI [of _ i "cn\<lparr>phase := Running req\<rparr>" req _ "Begin req" "world s" "handler cn"])
      (simp_all add: s1 idle set_conn_def)
  with begins(3) s show ?case by (auto intro: atomic_run_one)
next
  case (access f i cn st h1 w1 st1)
  obtain cn0 req where l: "conns s i = Some cn0" "phase cn0 = Running req"
    "cn = cn0\<lparr>handler := handler cn\<rparr>" "stages f = [i \<mapsto> st]"
    "base f = (set_conn i cn s)\<lparr>world := world (base f)\<rparr>"
    "outcome X (handler cn) (world (base f)) st = handle_request X (handler cn0) (world s) req"
    using serial_link_stage [OF access(5,1,2)] .
  have "cn\<lparr>handler := h1\<rparr> = cn0\<lparr>handler := h1\<rparr>" by (subst l(3)) simp
  moreover have "outcome X h1 w1 st1 = outcome X (handler cn) (world (base f)) st"
    using outcome_micro_step [of X "handler cn" "world (base f)" st] access(4) by simp
  moreover have "(set_conn i (cn\<lparr>handler := h1\<rparr>) (base f))\<lparr>world := w1\<rparr> =
      (set_conn i (cn\<lparr>handler := h1\<rparr>) s)\<lparr>world := w1\<rparr>"
    by (subst l(5)) (simp add: set_conn_def)
  ultimately have "serial_link X s (f\<lparr>base := (set_conn i (cn\<lparr>handler := h1\<rparr>) (base f))\<lparr>world := w1\<rparr>,
      stages := (stages f)(i \<mapsto> st1)\<rparr>)"
    using l by (intro serial_linkI [of s i cn0 req _ st1 w1 h1]) simp_all
  then show ?case by (auto intro: atomic_run.start)
next
  case (finishes f i cn req v)
  have "stages f = [i \<mapsto> Done v]" using serial_link_stage [OF finishes(4,1,3)] .
  then have "(stages f)(i := None) = Map.empty" by simp
  with serial_finishes [OF finishes(1-4)] show ?case
    by (intro exI conjI) (auto simp: serial_link_def intro: atomic_run_one)
next
  case (interference f w1)
  then have "stages f = Map.empty" by simp
  moreover from this have "base f = s" using serial_link_idle [OF interference(1)] by simp
  ultimately show ?case
    using atomic_run.disturbed [OF atomic_run.start [of X c s], of w1]
    by (intro exI [of _ "s\<lparr>world := w1\<rparr>"]) (simp add: serial_link_def)
qed

lemma serial_link_start: "serial_link X (start_server c w) (start_fine c w)"
  by (simp add: serial_link_def start_fine_def)

lemma numbered_atomic_run: "atomic_run X c s tr s1 \<Longrightarrow> numbered s \<Longrightarrow> numbered s1"
  by (induction rule: atomic_run.induct) (auto dest: numbered_step)

lemma busy_step:
  assumes "fine_step X c f e f1" "serial_link X s f" "b \<longleftrightarrow> stages f \<noteq> Map.empty"
  shows "busy_after b [e] \<longleftrightarrow> stages f1 \<noteq> Map.empty"
  using assms
proof (induction rule: fine_step.induct)
  case (outer f e s1)
  then show ?case by (cases e) auto
next
  case (finishes f i cn req v)
  have "stages f = [i \<mapsto> Done v]" using serial_link_stage [OF finishes(4,1,3)] .
  then show ?case by simp
qed auto

lemma serial_run:
  assumes "fine_run X c f0 tr f" "serial_link X s0 f0" "fine_ok c f0" "query_limit c = 1" "numbered s0"
    and "stages f0 = Map.empty" "undisturbed tr"
  shows "\<exists>s. atomic_run X c s0 (visible_events tr) s \<and> serial_link X s f \<and> fine_ok c f \<and> numbered s \<and>
    (busy_after False tr \<longleftrightarrow> stages f \<noteq> Map.empty)"
  using assms
proof (induction rule: fine_run.induct)
  case (start f)
  then show ?case by (intro exI [of _ s0]) (simp add: atomic_run.start)
next
  case (step f tr f1 e f2)
  note u = undisturbed_snoc [OF step.prems(6)]
  from step.IH [OF step.prems(1-5)] u obtain s1 where one:
    "atomic_run X c s0 (visible_events tr) s1" "serial_link X s1 f1" "fine_ok c f1" "numbered s1"
    "busy_after False tr \<longleftrightarrow> stages f1 \<noteq> Map.empty"
    by blast
  have "disturbs e \<Longrightarrow> stages f1 = Map.empty" using u one(5) by simp
  from serial_step [OF step(2) one(2,3) step.prems(3) this one(4)] obtain s2 where two:
    "serial_link X s2 f2" "atomic_run X c s1 (visible_events [e]) s2"
    by blast
  have "numbered s2" using numbered_atomic_run [OF two(2) one(4)] .
  moreover have "atomic_run X c s0 (visible_events (tr @ [e])) s2"
    using atomic_run_append [OF two(2) one(1)] by simp
  moreover have "busy_after False (tr @ [e]) \<longleftrightarrow> stages f2 \<noteq> Map.empty"
    using busy_step [OF step(2) one(2,5)] by (simp add: busy_after_append)
  ultimately show ?case using two(1) fine_ok_step [OF step(2) one(3)] by blast
qed

section \<open>Properties\<close>

text \<open>The server whose requests are atomic is a special case of the one whose requests take
  many steps.\<close>

lemma atomic_runs_are_fine:
  assumes "server_run X c (start_server c w) tr s"
  shows "\<exists>ftr. fine_run X c (start_fine c w) ftr (fine_of s) \<and> outer_events ftr = tr \<and>
    Interference \<notin> set ftr"
  using fine_simulates [OF assms server_inv_start] by (simp add: fine_of_start)

text \<open>C12: With one worker the server is serialisable, as long as connections close and other programs
  change the world only while no request is in progress: what the clients see of a run in which
  the accesses of a request interleave with everything else is a run, disturbed at the same
  points, in which every request is executed at once at its end, with the same answers, and
  between requests both are in the same state.\<close>

theorem single_worker_serialisable:
  assumes "fine_run X c (start_fine c w) tr f" "unat (workers c) \<le> 1" "undisturbed tr"
  shows "\<exists>s. atomic_run X c (start_server c w) (visible_events tr) s \<and>
    ((\<forall>i. stages f i = None) \<longrightarrow> base f = s)"
proof -
  have "query_limit c = 1" using assms(2) by (auto simp: query_limit_def max_def)
  moreover have "numbered (start_server c w)" by (simp add: numbered_def start_server_def)
  moreover have "stages (start_fine c w) = Map.empty" by (simp add: start_fine_def)
  ultimately show ?thesis
    using serial_run [OF assms(1) serial_link_start fine_ok_start _ _ _ assms(3)] serial_link_idle
    by metis
qed

text \<open>A whole session with one worker: a \<open>LIST\<close> in four steps, another program, the end.\<close>

definition serial_config :: config where
  "serial_config = (demo_server [])\<lparr>workers := 1\<rparr>"

definition serial_world :: "string list world" where
  "serial_world = demo_world\<lparr>files := demo_files\<lparr>entries := [([''data''], Dir)]\<rparr>\<rparr>"

definition serial_events :: "(string, string, int) fine_event list" where
  "serial_events =
     [Outer (Accepted 0 (V4 0x7F000001)), Outer (Received 0 ''list''), Outer (Acquired 0),
      Access 0 (Begin ''list''), Access 0 ReadFolder, Access 0 (EntryMetadata [] []),
      Outer (Ran 0 ''list''), Outer (Wrote 0), Interference, Outer (Closed 0)]"

lemma serial_demo: "\<exists>f. fine_run demo_externals serial_config (start_fine serial_config serial_world) serial_events f \<and>
    stages f = Map.empty"
proof -
  let ?c = serial_config and ?w = serial_world
  let ?h = "new_handler serial_config :: string request_handler"
  let ?st = "(demo_stream [''list''])\<lparr>inbox := inbox (demo_stream [])\<rparr>"
  let ?out = "frame (response_body demo_externals (listed []))"
  let ?st2 = "?st\<lparr>outbox := outbox ?st @ ?out, accepts := accepts ?st - length ?out\<rparr>"
  have c: "is_ip_allowed ?c (V4 0x7F000001) = Returns True" "auth ?c = []" "databases_folder ?c = ''/data''"
    "length (bytes_of_str ''list'') \<le> unat (client_max_packet_size ?c)" "query_limit ?c - 1 = 0"
    using demo_lengths(2) [of "[]"]
    by (simp_all add: serial_config_def is_ip_allowed_def demo_server_def query_limit_def)
  have "parse_request demo_externals ''list'' = Inr (json_object [(''cmd'', String ''list'')])"
    "\<not> eq_ignore_ascii_case ''list'' ''QUERY''" "eq_ignore_ascii_case ''list'' ''LIST''"
    by code_simp+
  then have one: "micro_step demo_externals ?h ?w (Begin ''list'') = (?h, ?w, ReadFolder)"
    by (simp add: begin_request_def dispatch_stage_def get_str_def c)
  have "read_dir (files ?w) ''/data'' = Some []" by code_simp
  then have two: "micro_step demo_externals ?h ?w ReadFolder = (?h, ?w, EntryMetadata [] [])"
    by (simp add: c)
  have three: "micro_step demo_externals ?h ?w (EntryMetadata [] []) = (?h, ?w, Done (listed []))"
    by simp
  have "length ?out \<le> 100" by code_simp
  then have wrote: "write_all ?out ?st = (Inr (), ?st2)"
    by (intro write_all_fits) (simp add: demo_stream_def)
  have read: "read_request ?c ?st2 = (None, ?st2)"
    by (simp add: read_request_def read_exact_def demo_stream_def)
  note run = fine_begun [OF c(1) demo_is_str(2) c(4), of ?w "[]", unfolded c(5)]
  note run = fine_run.step [OF run fine_demo_begin [OF one]]
  note run = fine_run.step [OF fine_run.step [OF run fine_demo_inside [OF two]] fine_demo_inside [OF three]]
  note run = fine_run.step [OF fine_run.step [OF run fine_demo_finishes] fine_demo_wrote [OF wrote]]
  note run = fine_run.step [OF run fine_demo_interference]
  obtain f where "fine_step demo_externals ?c (fine_demo Reading ?st2 ?h 1 demo_world None) (Outer (Closed 0)) f"
    "stages f = Map.empty"
    using fine_step.outer [OF server_step.ended [of _ 0 "demo_task Reading ?st2 ?h" ?c],
      of "fine_demo Reading ?st2 ?h 1 demo_world None" ?st2 demo_externals] read
    by (auto simp: fine_demo_def demo_task_def)
  with fine_run.step [OF run] show ?thesis by (auto simp: serial_events_def)
qed

theorem single_worker_serialisable_witness:
  "\<exists>s :: (string, string list) server.
     atomic_run demo_externals serial_config (start_server serial_config serial_world)
       [Some (Accepted 0 (V4 0x7F000001)), Some (Received 0 ''list''), Some (Acquired 0),
        Some (Ran 0 ''list''), Some (Wrote 0), None, Some (Closed 0)] s"
proof -
  obtain f where run: "fine_run demo_externals serial_config (start_fine serial_config serial_world) serial_events f"
    using serial_demo by blast
  have "unat (workers serial_config) \<le> 1" by (simp add: serial_config_def)
  moreover have "undisturbed serial_events"
    by (simp add: undisturbed_def serial_events_def less_Suc_eq) 
  ultimately show ?thesis
    using single_worker_serialisable [OF run] by (auto simp: serial_events_def)
qed

end
