(* ===== verification/Server_Sessions.thy ===== *)
theory Server_Sessions
  imports Server_Fine_Safety
begin

text \<open>
  What a single client sees of the server whose requests interleave access by access (theory
  Server_Fine): the responses to its own requests, in order, and a login of its own. The session of
  a connection is the sequence of its requests, each with the steps its handler took for it.
\<close>

section \<open>Sessions\<close>

inductive session_history ::
  "('h \<Rightarrow> 'w \<Rightarrow> 'st \<Rightarrow> 'h \<times> 'w \<times> 'st) \<Rightarrow> ('st \<Rightarrow> bool) \<Rightarrow> ('req \<Rightarrow> 'st) \<Rightarrow> 'h \<Rightarrow>
     'req list \<Rightarrow> 'st list \<Rightarrow> 'h \<Rightarrow> bool"
  for step finished start h where
  none: "session_history step finished start h [] [] h"
| more: "session_history step finished start h reqs sts h1 \<Longrightarrow>
    step_history step finished h1 (start req) h2 st \<Longrightarrow> finished st \<Longrightarrow>
    session_history step finished start h (reqs @ [req]) (sts @ [st]) h2"

text \<open>
  A gate whose logins are the only thing that opens it, and behind which everything is untouched
  until it is open.
\<close>

locale gated_sessions = gated_steps step start finished inside safe opened settings locked login
  for step :: "'h \<Rightarrow> 'w \<Rightarrow> 'st \<Rightarrow> 'h \<times> 'w \<times> 'st"
    and start :: "'req \<Rightarrow> 'st"
    and finished inside safe :: "'st \<Rightarrow> bool"
    and opened :: "'h \<Rightarrow> bool"
    and settings :: "'h \<Rightarrow> 'k"
    and locked :: "'k \<Rightarrow> bool"
    and login :: "'k \<Rightarrow> 'req \<Rightarrow> bool" +
  fixes untouched :: "'h \<Rightarrow> bool"
  assumes start_unfinished: "\<not> finished (start req)"
    and opens: "step h w (start req) = (h1, w1, st1) \<Longrightarrow> locked (settings h) \<Longrightarrow>
      opened h1 \<longleftrightarrow> opened h \<or> login (settings h) req"
    and untouched_start: "step h w (start req) = (h1, w1, st1) \<Longrightarrow> untouched h \<Longrightarrow> untouched h1"
begin

lemma history_opened:
  assumes "step_history step finished h (start req) h1 st1" "locked (settings h)"
    "\<forall>r. st1 \<noteq> start r"
  shows "opened h1 \<longleftrightarrow> opened h \<or> login (settings h) req"
  using assms
proof (induction rule: step_history.induct)
  case (more h1 st1 w h2 w2 st2)
  show ?case
  proof (cases "inside st1")
    case True
    then have "\<forall>r. st1 \<noteq> start r" by (simp add: inside_iff)
    with more.IH more.prems(1) inside_step [OF more(3) True] show ?thesis by blast
  next
    case False
    then have "h1 = h \<and> st1 = start req" using more(2) history_start [OF more(1)] by (auto simp: inside_iff)
    with more(3) more.prems(1) opens show ?thesis by blast
  qed
qed blast

lemma history_untouched:
  assumes "step_history step finished h (start req) h1 st1" "locked (settings h)" "\<not> opened h"
    "untouched h"
  shows "untouched h1"
  using assms
proof (induction rule: step_history.induct)
  case (more h1 st1 w h2 w2 st2)
  then have "\<not> inside st1" using history_gate [OF more(1)] by blast
  then have "h1 = h \<and> st1 = start req" using more(2) history_start [OF more(1)] by (auto simp: inside_iff)
  with more(3) more.prems(3) untouched_start show ?case by blast
qed

lemma session_settings:
  "session_history step finished start h reqs sts h1 \<Longrightarrow> settings h1 = settings h"
  by (induction rule: session_history.induct) (auto dest: history_settings)

lemma session_length:
  "session_history step finished start h reqs sts h1 \<Longrightarrow> length sts = length reqs"
  by (induction rule: session_history.induct) auto

lemma session_opened:
  assumes "session_history step finished start h reqs sts h1" "locked (settings h)"
  shows "opened h1 \<longleftrightarrow> opened h \<or> (\<exists>req \<in> set reqs. login (settings h) req)"
  using assms
proof (induction rule: session_history.induct)
  case (more reqs sts h1 req h2 st)
  have "\<forall>r. st \<noteq> start r" using more(3) start_unfinished by blast
  with more session_settings [OF more(1)] history_opened [OF more(2)] show ?case by auto
qed simp

lemma session_untouched:
  assumes "session_history step finished start h reqs sts h1" "locked (settings h)"
    "untouched h" "\<not> opened h1"
  shows "untouched h1"
  using assms
proof (induction rule: session_history.induct)
  case (more reqs sts h1 req h2 st)
  have "\<forall>r. st \<noteq> start r" using more(3) start_unfinished by blast
  with more session_settings [OF more(1)] history_opened [OF more(2)] have "\<not> opened h1" by auto
  with more session_settings [OF more(1)] history_untouched [OF more(2)] show ?case by auto
qed

end

interpretation gss: gated_sessions "micro_step X" Begin is_done "\<lambda>st. \<not> outside st" stage_names_ok
  authenticated config "\<lambda>c. auth c \<noteq> []" "is_login X" "\<lambda>h. databases h = []"
  for X :: "('q, 'c, 's, 'r, 'w) externals"
proof unfold_locales
  fix h h1 :: "'c request_handler" and w w1 :: "'q world" and st1 :: "('c, 's, 'r) stage" and req
  show "\<not> is_done (Begin req :: ('c, 's, 'r) stage)" by simp
  show "micro_step X h w (Begin req) = (h1, w1, st1) \<Longrightarrow> auth (config h) \<noteq> [] \<Longrightarrow>
      authenticated h1 \<longleftrightarrow> authenticated h \<or> is_login X (config h) req"
    by (auto simp: begin_request_def is_login_def split: sum.splits if_splits)
  show "micro_step X h w (Begin req) = (h1, w1, st1) \<Longrightarrow> databases h = [] \<Longrightarrow> databases h1 = []"
    by (auto simp: begin_request_def split: sum.splits if_splits)
qed

section \<open>The session of a connection\<close>

text \<open>Its finished requests, and the one in progress.\<close>

definition conn_session ::
  "('q, 'c, 's, 'r, 'w) externals \<Rightarrow> config \<Rightarrow> event list \<Rightarrow> nat \<Rightarrow> 'c conn \<Rightarrow>
     ('c, 's, 'r) stage option \<Rightarrow> bool" where
  "conn_session X c tr i cn so \<longleftrightarrow>
     (\<exists>vs h. session_history (micro_step X) is_done Begin (new_handler c) (requests_of i tr) (map Done vs) h \<and>
        transcript X vs (phase cn) (socket cn) \<and>
        (case so of
           None \<Rightarrow> handler cn = h
         | Some st \<Rightarrow> \<exists>req. phase cn = Running req \<and>
             step_history (micro_step X) is_done h (Begin req) (handler cn) st))"

definition all_sessions ::
  "('q, 'c, 's, 'r, 'w) externals \<Rightarrow> config \<Rightarrow> event list \<Rightarrow> ('c, 's, 'r, 'q) fine_server \<Rightarrow> bool" where
  "all_sessions X c tr f \<longleftrightarrow>
     (\<forall>i cn. conns (base f) i = Some cn \<longrightarrow> conn_session X c tr i cn (stages f i)) \<and>
     (\<forall>i \<ge> next_id (base f). requests_of i tr = [])"

lemma conn_session_outer:
  assumes "server_step X c s e s1" "\<And>i req. e \<noteq> Ran i req" "conns s1 i = Some cn1"
    and "so \<noteq> None \<Longrightarrow> \<exists>cn req. conns s i = Some cn \<and> phase cn = Running req"
    and "\<And>cn. conns s i = Some cn \<Longrightarrow> conn_session X c tr i cn so"
    and "i = next_id s \<Longrightarrow> requests_of i tr = [] \<and> conns s i = None"
  shows "conn_session X c tr i cn1 so"
proof -
  from step_transcript [OF assms(1-3)]
  consider "i = next_id s" "handler cn1 = new_handler c" "phase cn1 = Reading" "outbox (socket cn1) = []"
    | cn where "conns s i = Some cn" "handler cn1 = handler cn"
      "phase cn1 = phase cn \<or> (\<forall>req. phase cn \<noteq> Running req)"
      "\<And>vs. transcript X vs (phase cn) (socket cn) \<Longrightarrow> transcript X vs (phase cn1) (socket cn1)"
    by metis
  then show ?thesis
  proof cases
    case 1
    have "so = None" using assms(4,6) 1(1) by (cases so) auto
    with 1 assms(6) show ?thesis
      by (auto simp: conn_session_def transcript_def intro!: exI [of _ "[]"] session_history.none)
  next
    case 2
    from assms(5) [OF 2(1)] obtain vs h where
      "session_history (micro_step X) is_done Begin (new_handler c) (requests_of i tr) (map Done vs) h"
      "transcript X vs (phase cn) (socket cn)"
      and so: "case so of None \<Rightarrow> handler cn = h
         | Some st \<Rightarrow> \<exists>req. phase cn = Running req \<and>
             step_history (micro_step X) is_done h (Begin req) (handler cn) st"
      by (auto simp: conn_session_def)
    moreover from so 2(2,3) have "case so of None \<Rightarrow> handler cn1 = h
         | Some st \<Rightarrow> \<exists>req. phase cn1 = Running req \<and>
             step_history (micro_step X) is_done h (Begin req) (handler cn1) st"
      by (auto split: option.splits)
    ultimately show ?thesis
      unfolding conn_session_def using 2(4) by blast
  qed
qed

lemma all_sessions_start: "all_sessions X c [] (start_fine c w)"
  by (simp add: all_sessions_def start_fine_def start_server_def)

lemma all_sessions_set:
  assumes "all_sessions X c tr f" "numbered (base f)" "conns (base f) i = Some cn"
    and "\<And>j. j \<noteq> i \<Longrightarrow> requests_of j tr1 = requests_of j tr"
    and "conns (base f1) = (conns (base f))(i \<mapsto> cn1)" "next_id (base f1) = next_id (base f)"
    and "stages f1 = (stages f)(i := so1)" "conn_session X c tr1 i cn1 so1"
  shows "all_sessions X c tr1 f1"
proof -
  have "i < next_id (base f)" using assms(2,3) by (auto simp: numbered_def)
  then show ?thesis
    using assms(1,4-8) by (auto simp: all_sessions_def conn_session_def)
qed

text \<open>The steps of one task.\<close>

lemma conn_session_begins:
  assumes "conn_session X c tr i cn None" "phase cn = Waiting req"
  shows "conn_session X c tr i (cn\<lparr>phase := Running req\<rparr>) (Some (Begin req))"
  using assms by (auto simp: conn_session_def transcript_def intro: step_history.none)

lemma conn_session_access:
  assumes "conn_session X c tr i cn (Some st)" "\<not> is_done st"
    and "micro_step X (handler cn) w st = (h1, w1, st1)"
  shows "conn_session X c tr i (cn\<lparr>handler := h1\<rparr>) (Some st1)"
proof -
  from assms(1) obtain vs h req where h:
    "session_history (micro_step X) is_done Begin (new_handler c) (requests_of i tr) (map Done vs) h"
    "transcript X vs (phase cn) (socket cn)" "phase cn = Running req"
    "step_history (micro_step X) is_done h (Begin req) (handler cn) st"
    by (auto simp: conn_session_def)
  from h step_history.more [OF h(4) assms(2,3)] show ?thesis by (auto simp: conn_session_def)
qed

lemma conn_session_finishes:
  assumes "conn_session X c tr i cn (Some (Done v))" "phase cn = Running req"
  shows "conn_session X c (tr @ [Ran i req]) i (cn\<lparr>phase := Writing v\<rparr>) None"
proof -
  from assms obtain vs h where h:
    "session_history (micro_step X) is_done Begin (new_handler c) (requests_of i tr) (map Done vs) h"
    "transcript X vs (phase cn) (socket cn)"
    "step_history (micro_step X) is_done h (Begin req) (handler cn) (Done v)"
    by (auto simp: conn_session_def)
  have "transcript X (vs @ [v]) (Writing v) (socket cn)"
    using h(2) assms(2) by (simp add: transcript_def)
  with session_history.more [OF h(1,3)] show ?thesis
    by (auto simp: conn_session_def intro!: exI [of _ "vs @ [v]"])
qed

lemma all_sessions_outer:
  assumes "server_step X c (base f) e s1" "\<And>i req. e \<noteq> Acquired i \<and> e \<noteq> Ran i req"
    and "all_sessions X c tr f" "fine_ok c f"
  shows "all_sessions X c (tr @ [e]) (f\<lparr>base := s1\<rparr>)"
proof -
  have ok: "numbered (base f)" "stages_match f" using assms(4) by (simp_all add: fine_ok_def)
  have running: "\<exists>cn req. conns (base f) i = Some cn \<and> phase cn = Running req" if "stages f i \<noteq> None" for i
    using ok(2) that running_conns_request [of "base f"]
    by (auto simp: stages_match_def running_conns_def)
  have same: "requests_of i [e] = []" for i
    using assms(2) by (cases e) auto
  have "e \<noteq> Ran i req" for i req using assms(2) by blast
  note one = conn_session_outer [OF assms(1) this]
  have "next_id (base f) \<le> next_id s1" by (rule next_id_step [OF assms(1)])
  moreover have "conn_session X c tr i cn1 (stages f i)" if "conns s1 i = Some cn1" for i cn1
    by (rule one [OF that running])
      (use assms(3) ok(1) in \<open>auto simp: all_sessions_def numbered_def\<close>)
  ultimately show ?thesis using assms(3) by (simp add: all_sessions_def conn_session_def same)
qed

lemma all_sessions_step:
  assumes "fine_step X c f e f1" "all_sessions X c (outer_events tr) f" "fine_ok c f"
  shows "all_sessions X c (outer_events (tr @ [e])) f1"
  using assms
proof (induction rule: fine_step.induct)
  case (outer f e s1)
  from all_sessions_outer [OF this] show ?case by simp
next
  case (begins f i cn req s1)
  then have s1: "s1 = (set_conn i (cn\<lparr>phase := Running req\<rparr>) (base f))\<lparr>permits := permits (base f) - 1\<rparr>"
    by (auto elim: acquiredE)
  have "stages f i = None"
    using begins(1,2,5) by (simp add: fine_ok_def stages_match_def running_request_def)
  then have "conn_session X c (outer_events tr) i cn None"
    using begins(1,4) by (force simp: all_sessions_def)
  from conn_session_begins [OF this begins(2)]
  have new: "conn_session X c (outer_events (tr @ [Outer (Acquired i)])) i
      (cn\<lparr>phase := Running req\<rparr>) (Some (Begin req))"
    by (simp add: conn_session_def)
  show ?case
    by (rule all_sessions_set [OF begins(4) _ begins(1) _ _ _ _ new])
      (use begins(5) in \<open>simp_all add: fine_ok_def s1 set_conn_def\<close>)
next
  case (access f i cn st h1 w1 st1)
  have "conn_session X c (outer_events tr) i cn (Some st)"
    using access(1,2,5) by (force simp: all_sessions_def)
  moreover have "\<not> is_done st" using access(3) by (simp add: is_done_iff)
  ultimately have new: "conn_session X c (outer_events (tr @ [Access i st])) i (cn\<lparr>handler := h1\<rparr>) (Some st1)"
    using conn_session_access [OF _ _ access(4)] by simp
  show ?case
    by (rule all_sessions_set [OF access(5) _ access(1) _ _ _ _ new])
      (use access(6) in \<open>simp_all add: fine_ok_def set_conn_def\<close>)
next
  case (finishes f i cn req v)
  have "conn_session X c (outer_events tr) i cn (Some (Done v))"
    using finishes(1,3,4) by (force simp: all_sessions_def)
  from conn_session_finishes [OF this finishes(2)]
  have new: "conn_session X c (outer_events (tr @ [Outer (Ran i req)])) i (cn\<lparr>phase := Writing v\<rparr>) None"
    by simp
  show ?case
    by (rule all_sessions_set [OF finishes(4) _ finishes(1) _ _ _ _ new])
      (use finishes(5) in \<open>simp_all add: fine_ok_def set_conn_def\<close>)
next
  case (interference f w1)
  then show ?case by (simp add: all_sessions_def)
qed

lemma reached_sessions:
  "fine_run X c f0 tr f \<Longrightarrow> all_sessions X c [] f0 \<Longrightarrow> fine_ok c f0 \<Longrightarrow>
     all_sessions X c (outer_events tr) f \<and> fine_ok c f"
  by (induction rule: fine_run.induct)
    (auto simp del: outer_events_append intro: all_sessions_step fine_ok_step)

lemma reached_session:
  assumes "fine_run X c (start_fine c w) tr f" "conns (base f) i = Some cn"
  shows "conn_session X c (outer_events tr) i cn (stages f i)"
  using reached_sessions [OF assms(1) all_sessions_start fine_ok_start] assms(2)
  by (simp add: all_sessions_def)

lemma set_outer_events: "e \<in> set (outer_events tr) \<longleftrightarrow> Outer e \<in> set tr"
  by (induction tr rule: outer_events.induct) auto

text \<open>The demo peer's login, answered.\<close>

lemma login_answered_run:
  "\<exists>st. fine_run demo_externals (demo_server ''pw'') (start_fine (demo_server ''pw'') demo_world)
     [Outer (Accepted 0 (V4 0x7F000001)), Outer (Received 0 ''login''), Outer (Acquired 0),
      Access 0 (Begin ''login''), Outer (Ran 0 ''login'')]
     (fine_demo (Writing (result_json True)) st
       ((new_handler (demo_server ''pw''))\<lparr>authenticated := True\<rparr>) 4 demo_world None)"
proof -
  note run = fine_demo_begun [OF demo_is_str(1) demo_lengths(1), where pw = "''pw''" and
      reqs = "[]" and w = demo_world]
  note run = fine_run.step [OF fine_run.step [OF run fine_demo_begin [OF demo_micro_login]] fine_demo_finishes]
  then show ?thesis by auto
qed

section \<open>Properties\<close>

text \<open>C13: Every client gets the responses to its own requests and nothing else, even though the
  requests of different connections interleave access by access and other programs interfere: what
  was written to a connection is one frame for each of its finished requests, in order (but for the
  one being written), each the answer its own handler came to, starting from a new one; and the
  request in progress, if any, goes on from there.\<close>

theorem fine_responses_in_order:
  assumes "fine_run X c (start_fine c w) tr f" "conns (base f) i = Some cn"
  shows "\<exists>vs h. session_history (micro_step X) is_done Begin (new_handler c)
      (requests_of i (outer_events tr)) (map Done vs) h \<and>
    length vs = length (requests_of i (outer_events tr)) \<and>
    outbox (socket cn) = concat (map (\<lambda>v. frame (response_body X v)) (sent (phase cn) vs)) \<and>
    (\<forall>v. phase cn = Writing v \<longrightarrow> vs \<noteq> [] \<and> last vs = v) \<and>
    (case stages f i of
       None \<Rightarrow> handler cn = h
     | Some st \<Rightarrow> \<exists>req. phase cn = Running req \<and>
         step_history (micro_step X) is_done h (Begin req) (handler cn) st)"
proof -
  from reached_session [OF assms] obtain vs h where vs:
    "session_history (micro_step X) is_done Begin (new_handler c)
       (requests_of i (outer_events tr)) (map Done vs) h"
    "transcript X vs (phase cn) (socket cn)"
    "case stages f i of
       None \<Rightarrow> handler cn = h
     | Some st \<Rightarrow> \<exists>req. phase cn = Running req \<and>
         step_history (micro_step X) is_done h (Begin req) (handler cn) st"
    unfolding conn_session_def by blast
  moreover have "length vs = length (requests_of i (outer_events tr))"
    using gss.session_length [OF vs(1)] by simp
  ultimately show ?thesis unfolding transcript_def by blast
qed

theorem fine_responses_in_order_witness:
  "\<exists>h. session_history (micro_step demo_externals) is_done Begin (new_handler (demo_server ''pw''))
     [''login''] (map Done [result_json True]) h"
proof -
  obtain st where run: "fine_run demo_externals (demo_server ''pw'') (start_fine (demo_server ''pw'') demo_world)
     [Outer (Accepted 0 (V4 0x7F000001)), Outer (Received 0 ''login''), Outer (Acquired 0),
      Access 0 (Begin ''login''), Outer (Ran 0 ''login'')]
     (fine_demo (Writing (result_json True)) st
       ((new_handler (demo_server ''pw''))\<lparr>authenticated := True\<rparr>) 4 demo_world None)"
    using login_answered_run by blast
  obtain vs h where h: "session_history (micro_step demo_externals) is_done Begin
      (new_handler (demo_server ''pw'')) [''login''] (map Done vs) h"
    and "length vs = 1" "last vs = result_json True"
    using fine_responses_in_order [OF run, of 0] by (auto simp: demo_task_def)
  then have "vs = [result_json True]" by (cases vs) auto
  with h show ?thesis by blast
qed

text \<open>C2: A login belongs to its connection, even though requests interleave access by access: between
  its requests a connection is authenticated exactly if one of its own requests carried the
  password, whatever the other connections sent and other programs did, and as long as it is not,
  it has no database open.\<close>

theorem fine_login_is_per_connection:
  assumes "fine_run X c (start_fine c w) tr f" "conns (base f) i = Some cn" "stages f i = None"
    "auth c \<noteq> []"
  shows "(authenticated (handler cn) \<longleftrightarrow> (\<exists>req. Outer (Ran i req) \<in> set tr \<and> is_login X c req)) \<and>
    (\<not> authenticated (handler cn) \<longrightarrow> databases (handler cn) = [])"
proof -
  obtain vs where h: "session_history (micro_step X) is_done Begin (new_handler c)
      (requests_of i (outer_events tr)) (map Done vs) (handler cn)"
    using reached_session [OF assms(1,2)] assms(3) by (auto simp: conn_session_def)
  show ?thesis
    using gss.session_opened [OF h] gss.session_untouched [OF h] assms(4)
    by (auto simp: set_requests_of set_outer_events)
qed

theorem fine_login_is_per_connection_witness:
  "\<exists>(f :: (string, string, int, string list) fine_server) cn. conns (base f) 0 = Some cn \<and>
     authenticated (handler cn) \<and>
     (\<exists>req. Outer (Ran 0 req) \<in> set
        [Outer (Accepted 0 (V4 0x7F000001)), Outer (Received 0 ''login''), Outer (Acquired 0),
         Access 0 (Begin ''login'' :: (string, string, int) stage), Outer (Ran 0 ''login'')] \<and>
        is_login demo_externals (demo_server ''pw'') req)"
proof -
  obtain st where run: "fine_run demo_externals (demo_server ''pw'') (start_fine (demo_server ''pw'') demo_world)
     [Outer (Accepted 0 (V4 0x7F000001)), Outer (Received 0 ''login''), Outer (Acquired 0),
      Access 0 (Begin ''login''), Outer (Ran 0 ''login'')]
     (fine_demo (Writing (result_json True)) st
       ((new_handler (demo_server ''pw''))\<lparr>authenticated := True\<rparr>) 4 demo_world None)" (is "fine_run _ _ _ _ ?f")
    using login_answered_run by blast
  let ?cn = "demo_task (Writing (result_json True)) st
    ((new_handler (demo_server ''pw''))\<lparr>authenticated := True\<rparr>)"
  have "conns (base ?f) 0 = Some ?cn" "stages ?f 0 = None" by simp_all
  from fine_login_is_per_connection [OF run this] this(1) show ?thesis
    by (intro exI [of _ ?f] exI [of _ ?cn]) (simp add: demo_task_def)
qed

end
