(* ===== verification/Server_Fine_Progress.thy ===== *)
theory Server_Fine_Progress
  imports Server_Sessions Server_Progress "HOL-Library.Multiset"
begin

text \<open>
  What the server of theory Server_Fine eventually does: the accesses of a request come to an end
  if its cursor does, whatever happens between them, and the tasks never wait for each other in a
  circle.
\<close>

section \<open>A request comes to its end\<close>

text \<open>How far a stage is from the end, the loops apart, and what its loop still has to do.\<close>

fun stage_rank :: "('c, 's, 'r) stage \<Rightarrow> nat" where
  "stage_rank (Begin req) = 9"
| "stage_rank (CheckExists cmd) = 8"
| "stage_rank (CanonicalFolder cmd) = 7"
| "stage_rank (CanonicalFull cmd folder) = 6"
| "stage_rank (OpenDb json db query) = 5"
| "stage_rank (Configure json db query conn) = 4"
| "stage_rank (Prepare json conn query) = 3"
| "stage_rank (StartRows json stmt) = 2"
| "stage_rank (FetchRow json stmt rows_data rows) = 1"
| "stage_rank ReadFolder = 3"
| "stage_rank (EntryMetadata names acc) = 2"
| "stage_rank (RemoveFile db) = 2"
| "stage_rank (CloseFailed json e conn) = 1"
| "stage_rank (CloseEvicted conn) = 1"
| "stage_rank (Finalize stmt v) = 0"
| "stage_rank (Done v) = 0"

fun stage_left :: "('r \<Rightarrow> nat) \<Rightarrow> ('c, 's, 'r) stage \<Rightarrow> nat" where
  "stage_left rows_left (FetchRow json stmt rows_data rows) = rows_left rows"
| "stage_left rows_left (EntryMetadata names acc) = length names"
| "stage_left rows_left (Finalize stmt v) = 1"
| "stage_left rows_left st = 0"

text \<open>Every cursor has a number of rows left, which each row makes smaller.\<close>

definition cursors_shrink :: "('q, 'c, 's, 'r, 'w) rusqlite \<Rightarrow> ('r \<Rightarrow> nat) \<Rightarrow> bool" where
  "cursors_shrink sq rows_left \<longleftrightarrow>
     (\<forall>rows w x rows1 w1. sq_next sq rows w = (Inr (Some x), rows1, w1) \<longrightarrow>
        rows_left rows1 < rows_left rows)"

definition access_relation ::
  "('q, 'c, 's, 'r, 'w) externals \<Rightarrow> (('c, 's, 'r) stage \<times> ('c, 's, 'r) stage) set" where
  "access_relation X =
     {(st1, st). \<not> is_done st \<and> (\<exists>h w h1 w1. micro_step X h w st = (h1, w1, st1))}"

lemma command_stage_rank [simp]: "6 \<le> n \<Longrightarrow> stage_rank (command_stage h cmd safe) < n"
  by (cases cmd) (auto split: option.split)

lemma dispatch_stage_rank [simp]: "stage_rank (dispatch_stage h req json) < 9"
  by (auto simp: dispatch_stage_def query_stage_def delete_stage_def check_stage_def
      split: option.split)

lemma access_smaller:
  assumes "micro_step X h w st = (h1, w1, st1)" "\<not> is_done st" "cursors_shrink (sqlite X) rows_left"
  shows "(st1, st) \<in> measures [stage_rank, stage_left rows_left]"
  using assms
proof (cases "(X, h, w, st)" rule: micro_step.cases)
  case (10 X' h' w' json stmt rows_data rows)
  obtain r rows1 w2 where n: "sq_next (sqlite X) rows w = (r, rows1, w2)"
    by (cases "sq_next (sqlite X) rows w")
  have "rows_left rows1 < rows_left rows" if "r = Inr (Some x)" for x
    using assms(3) n that unfolding cursors_shrink_def by blast
  with assms(1) 10 n show ?thesis
    by (cases r rule: sum_option_cases) (auto split: sum.splits)
qed (auto simp: begin_request_def split: prod.splits sum.splits option.splits if_splits)

lemma access_relation_wf:
  "cursors_shrink (sqlite X) rows_left \<Longrightarrow> wf (access_relation X)"
  by (rule wf_subset [OF wf_measures]) (auto simp: access_relation_def dest: access_smaller)

section \<open>All tasks come to their end\<close>

text \<open>The steps of the tasks, as opposed to those of the accept loop and of other programs.\<close>

fun task_event :: "('c, 's, 'r) fine_event \<Rightarrow> bool" where
  "task_event (Outer e) \<longleftrightarrow> event_conn e \<noteq> None"
| "task_event (Access i st) \<longleftrightarrow> True"
| "task_event Interference \<longleftrightarrow> False"

definition fine_interfere :: "('c, 's, 'r, 'q) fine_server \<Rightarrow> 'q world \<Rightarrow> ('c, 's, 'r, 'q) fine_server" where
  "fine_interfere f w = f\<lparr>base := (base f)\<lparr>world := w\<rparr>\<rparr>"

text \<open>One step of a task, after which other programs may do anything to the world.\<close>

definition task_relation ::
  "('q, 'c, 's, 'r, 'w) externals \<Rightarrow> config \<Rightarrow>
     (('c, 's, 'r, 'q) fine_server \<times> ('c, 's, 'r, 'q) fine_server) set" where
  "task_relation X c =
     {(f1, f). numbered (base f) \<and>
        (\<exists>e g w. fine_step X c f e g \<and> task_event e \<and> f1 = fine_interfere g w)}"

definition stages_left :: "('c, 's, 'r, 'q) fine_server \<Rightarrow> ('c, 's, 'r) stage multiset" where
  "stages_left f = (\<Sum>i < next_id (base f). case stages f i of None \<Rightarrow> {#} | Some st \<Rightarrow> {#st#})"

lemma stages_left_access:
  assumes "i < next_id (base f)" "stages f i = Some st" "stages g = (stages f)(i \<mapsto> st1)"
    "next_id (base g) = next_id (base f)"
  shows "\<exists>M. stages_left f = M + {#st#} \<and> stages_left g = M + {#st1#}"
proof -
  let ?one = "\<lambda>f j. case stages f j of None \<Rightarrow> {#} | Some st \<Rightarrow> {#st#}"
  let ?rest = "{..<next_id (base f)} - {i}"
  have "stages_left f = ?one f i + (\<Sum>j \<in> ?rest. ?one f j)"
    "stages_left g = ?one g i + (\<Sum>j \<in> ?rest. ?one g j)"
    unfolding stages_left_def assms(4) by (rule sum.remove; use assms(1) in simp)+
  moreover have "(\<Sum>j \<in> ?rest. ?one g j) = (\<Sum>j \<in> ?rest. ?one f j)"
    by (rule sum.cong) (simp_all add: assms(3))
  ultimately show ?thesis
    using assms(2,3) by (intro exI [of _ "\<Sum>j \<in> ?rest. ?one f j"]) simp
qed

lemma fine_interfere_left [simp]:
  "stages_left (fine_interfere f w) = stages_left f"
  "total work_left (base (fine_interfere f w)) = total work_left (base f)"
  by (simp_all add: stages_left_def fine_interfere_def)

lemma task_step_smaller:
  assumes "fine_step X c f e g" "task_event e" "numbered (base f)"
  shows "((total work_left (base g), stages_left g), (total work_left (base f), stages_left f))
    \<in> less_than <*lex*> mult (access_relation X)"
  using assms
proof (induction rule: fine_step.induct)
  case (outer f e s1)
  then show ?case using task_step_work [OF outer(1)] by simp
next
  case (begins f i cn req s1)
  then show ?case using task_step_work [OF begins(3)] by simp
next
  case (access f i cn st h1 w1 st1)
  have "(st1, st) \<in> access_relation X"
    using access(3,4) by (auto simp: access_relation_def is_done_iff)
  have "i < next_id (base f)" using access(1,6) by (auto simp: numbered_def)
  let ?g = "f\<lparr>base := (set_conn i (cn\<lparr>handler := h1\<rparr>) (base f))\<lparr>world := w1\<rparr>,
      stages := (stages f)(i \<mapsto> st1)\<rparr>"
  obtain M where "stages_left f = M + {#st#}" "stages_left ?g = M + {#st1#}"
    using stages_left_access [OF \<open>i < next_id (base f)\<close> access(2), of ?g] by (auto simp: set_conn_def)
  with \<open>(st1, st) \<in> access_relation X\<close> have "(stages_left ?g, stages_left f) \<in> mult (access_relation X)"
    using one_step_implies_mult [of "{#st#}" "{#st1#}" "access_relation X" M] by simp
  with access(6) show ?case
    using total_set_conn [of "base f" i cn work_left "cn\<lparr>handler := h1\<rparr>"] access(1) by simp
next
  case (finishes f i cn req v)
  then show ?case
    using total_set_conn [of "base f" i cn work_left "cn\<lparr>phase := Writing v\<rparr>"] by simp
qed simp

lemma task_relation_wf:
  assumes "cursors_shrink (sqlite X) rows_left"
  shows "wf (task_relation X c)"
proof (rule wf_subset)
  show "wf (inv_image (less_than <*lex*> mult (access_relation X))
      (\<lambda>f. (total work_left (base f), stages_left f)))"
    using access_relation_wf [OF assms] by (simp add: wf_mult wf_lex_prod)
  show "task_relation X c \<subseteq> inv_image (less_than <*lex*> mult (access_relation X))
      (\<lambda>f. (total work_left (base f), stages_left f))"
    using task_step_smaller by (fastforce simp: task_relation_def)
qed

section \<open>No task waits in a circle\<close>

lemma running_can_access:
  assumes "fine_ok c f" "stages f i = Some st"
  shows "\<exists>e g. fine_step X c f e g \<and> task_event e"
proof -
  have "running_request (base f) i \<noteq> None"
    using assms by (metis fine_ok_def option.distinct(1) stages_match_def)
  then obtain cn where cn: "conns (base f) i = Some cn"
    by (auto simp: running_request_def split: option.splits)
  obtain req where req: "phase cn = Running req" using stage_phase [OF assms(1) cn assms(2)] .
  show ?thesis
  proof (cases "\<exists>v. st = Done v")
    case True
    then obtain v where "stages f i = Some (Done v)" using assms(2) by blast
    from fine_step.finishes [OF cn req this] show ?thesis by (metis event_conn.simps(3) option.distinct(1) task_event.simps(1))
  next
    case False
    obtain h1 w1 st1 where "micro_step X (handler cn) (world (base f)) st = (h1, w1, st1)"
      by (cases "micro_step X (handler cn) (world (base f)) st")
    from fine_step.access [OF cn assms(2) _ this] False show ?thesis by (metis task_event.simps(2))
  qed
qed

lemma idle_can_step:
  assumes "conns (base f) i = Some cn" "\<And>req. phase cn \<noteq> Running req" "0 < permits (base f)"
  shows "\<exists>e g. fine_step X c f e g \<and> task_event e"
proof (cases "phase cn")
  case Reading
  obtain req st where r: "read_request c (socket cn) = (req, st)" by (cases "read_request c (socket cn)")
  then have "\<exists>e s1. server_step X c (base f) e s1 \<and> event_conn e = Some i \<and> (\<forall>j. e \<noteq> Acquired j)
      \<and> (\<forall>j q. e \<noteq> Ran j q)"
    using server_step.ended [OF assms(1) Reading, of c st X]
      server_step.received [OF assms(1) Reading, of c _ st X]
    by (cases req) fastforce+
  then show ?thesis using fine_step.outer by fastforce
next
  case (Waiting req)
  from fine_step.begins [OF assms(1) Waiting server_step.acquired [OF assms(1) Waiting assms(3)]]
  show ?thesis by fastforce
next
  case (Writing v)
  obtain r st where w: "write_all (frame (response_body X v)) (socket cn) = (r, st)"
    by (cases "write_all (frame (response_body X v)) (socket cn)")
  then have "\<exists>e s1. server_step X c (base f) e s1 \<and> event_conn e = Some i \<and> (\<forall>j. e \<noteq> Acquired j)
      \<and> (\<forall>j q. e \<noteq> Ran j q)"
    using server_step.write_failed [OF assms(1) Writing, of X _ st c]
      server_step.wrote [OF assms(1) Writing, of X _ st c]
    by (cases r) fastforce+
  then show ?thesis using fine_step.outer by fastforce
qed (use assms(2) in blast)

lemma open_conn_can_access:
  assumes "fine_ok c f" "conns (base f) i = Some cn"
  shows "\<exists>e g. fine_step X c f e g \<and> task_event e"
proof (cases "\<exists>j st. stages f j = Some st")
  case True
  then show ?thesis using running_can_access [OF assms(1)] by blast
next
  case False
  then have "{j. stages f j \<noteq> None} = {}" by auto
  moreover have "stages_match f" "numbered (base f)"
    "total running (base f) + permits (base f) = query_limit c"
    using assms(1) by (simp_all add: fine_ok_def)
  ultimately have "0 < permits (base f)"
    using total_running [of "base f"] stages_running [of f] by (simp add: query_limit_def)
  have "running_request (base f) i = None"
    using False assms(1) by (auto simp: fine_ok_def stages_match_def)
  then have "phase cn \<noteq> Running req" for req
    using assms(2) by (auto simp: running_request_def)
  then show ?thesis by (rule idle_can_step [OF assms(2) _ \<open>0 < permits (base f)\<close>])
qed

lemma numbered_task_step:
  assumes "fine_step X c f e g" "fine_ok c f"
  shows "fine_ok c (fine_interfere g w)"
  using fine_ok_step [OF assms] by (simp add: fine_ok_def fine_interfere_def stages_match_def)

section \<open>Properties\<close>

text \<open>An engine for the witness: a statement has two rows.\<close>

definition counting_externals :: "(string list, string, string, int, int) externals" where
  "counting_externals =
     demo_externals\<lparr>sqlite := demo_sqlite\<lparr>sq_next :=
       (\<lambda>r w. if r \<le> 0 then (Inr None, r, w) else (Inr (Some r), r - 1, w))\<rparr>\<rparr>"

text \<open>C22: The tasks neither run for ever nor get stuck, even though their requests interleave access by
  access and other programs change the world after every step: if each row a cursor returns leaves
  it with fewer, the tasks of the open connections make only finitely many steps as long as no new
  peer is let in, and while a connection is open, some task can make one.\<close>

theorem fine_connections_drain:
  assumes "fine_run X c (start_fine c w) tr f" "cursors_shrink (sqlite X) rows_left"
  shows "\<not> (\<exists>F. F 0 = f \<and> (\<forall>n. \<exists>e g w1. fine_step X c (F n) e g \<and> task_event e \<and>
      F (Suc n) = fine_interfere g w1)) \<and>
    (\<forall>i cn. conns (base f) i = Some cn \<longrightarrow> (\<exists>e g. fine_step X c f e g \<and> task_event e))"
proof (intro conjI notI)
  assume "\<exists>F. F 0 = f \<and> (\<forall>n. \<exists>e g w1. fine_step X c (F n) e g \<and> task_event e \<and>
      F (Suc n) = fine_interfere g w1)"
  then obtain F where F: "F 0 = f" "\<And>n. \<exists>e g w1. fine_step X c (F n) e g \<and> task_event e \<and>
      F (Suc n) = fine_interfere g w1"
    by blast
  have ok: "fine_ok c (F n)" for n
  proof (induction n)
    case 0
    show ?case using F(1) fine_reached [OF assms(1)] by simp
  next
    case (Suc n)
    with F(2) [of n] show ?case by (auto intro: numbered_task_step)
  qed
  have "(F (Suc n), F n) \<in> task_relation X c" for n
    using F(2) [of n] ok [of n] by (auto simp: task_relation_def fine_ok_def)
  with task_relation_wf [OF assms(2), of c] show False
    by (auto simp: wf_iff_no_infinite_down_chain)
qed (use open_conn_can_access [OF fine_reached [OF assms(1)]] in blast)

theorem fine_connections_drain_witness:
  "\<exists>f :: (string, string, int, string list) fine_server. conns (base f) 0 \<noteq> None \<and>
     (\<exists>e g. fine_step counting_externals (demo_server []) f e g \<and> task_event e) \<and>
     \<not> (\<exists>F. F 0 = f \<and> (\<forall>n. \<exists>e g w1. fine_step counting_externals (demo_server []) (F n) e g \<and>
        task_event e \<and> F (Suc n) = fine_interfere g w1))"
proof -
  let ?c = "demo_server []"
  let ?s = "spawn ?c (V4 1) (demo_stream [''list'']) (start_server ?c demo_world) :: (string, string list) server"
  have "server_step counting_externals ?c (start_server ?c demo_world) (Accepted 0 (V4 1)) ?s"
    using server_step.accepted [of "start_server ?c demo_world" ?c "V4 1" "demo_stream [''list'']"
        counting_externals] demo_allowed [of "[]"]
    by (simp add: start_server_def demo_stream_def)
  then have "fine_step counting_externals ?c (start_fine ?c demo_world) (Outer (Accepted 0 (V4 1)))
      ((start_fine ?c demo_world)\<lparr>base := ?s\<rparr>)"
    by (intro fine_step.outer) (simp_all add: start_fine_def)
  from fine_run.step [OF fine_run.start this]
  have run: "fine_run counting_externals ?c (start_fine ?c demo_world) [Outer (Accepted 0 (V4 1))]
      ((start_fine ?c demo_world)\<lparr>base := ?s\<rparr>)"
    by simp
  have "cursors_shrink (sqlite counting_externals) nat"
    by (simp add: cursors_shrink_def counting_externals_def)
  note drain = fine_connections_drain [OF run this]
  have "conns (base ((start_fine ?c demo_world)\<lparr>base := ?s\<rparr>)) 0 =
      Some \<lparr>peer = V4 1, handler = new_handler ?c, socket = demo_stream [''list''], phase = Reading\<rparr>"
    by (simp add: spawn_def start_server_def)
  with drain show ?thesis by blast
qed

end
