(* ===== verification/Program.thy ===== *)
theory Program
  imports Server_Progress
begin

text \<open>
  The process (\<open>src/src/main.rs\<close>) and the start of \<open>server::run\<close> (\<open>src/src/server.rs\<close>): from the
  command line to the accept loop of theory Server, with the texts it prints and its exit
  codes. The runtime of \<open>tokio\<close> and the sockets of the operating system are the fields of
  \<open>runtime\<close>.
\<close>

section \<open>The runtime\<close>

text \<open>
  \<open>Builder::build\<close> for a number of threads, \<open>Semaphore::new\<close>, \<open>TcpListener::bind\<close>,
  \<open>local_addr\<close>, and the installation of the signal handlers. What these calls may do instead of
  returning is part of their type; an error is its text. \<open>rt_drop\<close> tells whether dropping the
  runtime can return while the tasks of the given connections execute a request
  (\<open>block_in_place\<close>).
\<close>

record 'l runtime =
  rt_build :: "usize \<Rightarrow> (string + unit) run"
  rt_semaphore :: "usize \<Rightarrow> unit run"
  rt_bind :: "socket_addr \<Rightarrow> string + 'l"
  rt_local_addr :: "'l \<Rightarrow> string + socket_addr"
  rt_signals :: "unit run"
  rt_drop :: "nat set \<Rightarrow> bool"

section \<open>Starting the server\<close>

text \<open>\<open>Display\<close> of a socket address (without scope).\<close>

fun show_socket_addr :: "socket_addr \<Rightarrow> string" where
  "show_socket_addr (SocketAddr (V4 a) port) = show_ipv4 a @ '':'' @ dec_of_nat (unat port)"
| "show_socket_addr (SocketAddr (V6 a) port) =
     ''['' @ show_ipv6 a @ '']:'' @ dec_of_nat (unat port)"

definition banner :: "config \<Rightarrow> socket_addr \<Rightarrow> string" where
  "banner c local_addr =
     ''sqlite-server listening on '' @ show_socket_addr local_addr @
     '' (workers: '' @ dec_of_nat (unat (workers c)) @
     '', databases: '' @ path_display (databases_folder c) @
     '', max packet: '' @ dec_of_nat (unat (client_max_packet_size c)) @
     '' bytes, auth: '' @ (if auth c = [] then ''disabled'' else ''enabled'') @
     '', ip whitelist: '' @ ip_whitelist_repr c @ '')'' @ [CHR 0x0A]"

text \<open>\<open>server::run\<close> up to its loop: the error it returns, or what it printed when it listens.\<close>

definition worker_count :: "config \<Rightarrow> usize" where
  "worker_count c = max (workers c) 1"

definition run_server :: "'l runtime \<Rightarrow> config \<Rightarrow> (string + string) run" where
  "run_server rt c =
     run_bind (rt_semaphore rt (worker_count c)) (\<lambda>_.
       case rt_bind rt (listen_addr c) of
         Inl e \<Rightarrow> Returns (Inl e)
       | Inr listener \<Rightarrow>
           (case rt_local_addr rt listener of
              Inl e \<Rightarrow> Returns (Inl e)
            | Inr local_addr \<Rightarrow>
                run_bind (rt_signals rt) (\<lambda>_. Returns (Inr (banner c local_addr)))))"

section \<open>The process\<close>

text \<open>A process that ended, with its exit code and what it wrote to \<open>stderr\<close>, or one in its loop.\<close>

datatype process = Exited nat string | Listening config string

text \<open>What \<open>main\<close> makes of the result of the server.\<close>

definition process_of :: "config \<Rightarrow> string + string \<Rightarrow> process" where
  "process_of c r =
     (case r of
        Inl err \<Rightarrow> Exited 1 (''Server error: '' @ err @ [CHR 0x0A])
      | Inr out \<Rightarrow> Listening c out)"

definition main_process :: "environment \<Rightarrow> 'l runtime \<Rightarrow> args \<Rightarrow> process run" where
  "main_process env rt a =
     (case parse_config env a of
        Inl err \<Rightarrow> Returns (Exited 1 (''Config error:'' @ [CHR 0x0A, CHR 0x09] @ err @ [CHR 0x0A]))
      | Inr None \<Rightarrow> Returns (Exited 0 [])
      | Inr (Some c) \<Rightarrow>
          run_bind (rt_build rt (worker_count c)) (\<lambda>r.
            case r of
              Inl e \<Rightarrow> Panics
            | Inr _ \<Rightarrow>
                run_bind (run_server rt c) (\<lambda>r. Returns (process_of c r))))"

text \<open>
  The process while it listens: its server runs. When the loop has taken the shutdown branch,
  \<open>main\<close> drops the runtime, which cancels the tasks where they wait, and returns code 0 once that
  drop returns.
\<close>

inductive process_run ::
  "'l runtime \<Rightarrow> ('q, 'c, 's, 'r, 'w) externals \<Rightarrow> 'q world \<Rightarrow> process \<Rightarrow> event list \<Rightarrow> process \<Rightarrow>
     ('c, 'q) server \<Rightarrow> bool"
  for rt X w where
  listening: "server_run X c (start_server c w) tr s \<Longrightarrow>
    process_run rt X w (Listening c out) tr (Listening c out) s"
| ended: "server_run X c (start_server c w) tr s \<Longrightarrow> \<not> accepting s \<Longrightarrow>
    rt_drop rt (running_conns s) \<Longrightarrow> process_run rt X w (Listening c out) tr (Exited 0 []) s"

inductive_cases process_run_Listening: "process_run rt X w (Listening c out) tr p s"

text \<open>
  What is documented of dropping a runtime: it returns when no task blocks, and not before a
  task that does (\<open>block_in_place\<close> cannot be cancelled).
\<close>

definition drop_waits :: "'l runtime \<Rightarrow> bool" where
  "drop_waits rt \<longleftrightarrow> (\<forall>blocking. rt_drop rt blocking \<longleftrightarrow> blocking = {})"

section \<open>Lemmas\<close>

lemma worker_count_positive: "worker_count c \<noteq> 0"
  by (auto simp: worker_count_def max_def word_le_nat_alt unat_eq_0)

lemma unat_worker_count: "unat (worker_count c) = query_limit c"
  by (auto simp: worker_count_def query_limit_def max_def word_le_nat_alt)

lemma server_step_accepting:
  "server_step X c s e s' \<Longrightarrow>
     (accepting s' \<longleftrightarrow> accepting s \<and> e \<noteq> Shutdown) \<and> (event_conn e = None \<longrightarrow> accepting s)"
  by (induction rule: server_step.induct) (auto simp: server_sels)

lemma server_run_not_accepting:
  "server_run X c s tr s' \<Longrightarrow> \<not> accepting s \<Longrightarrow>
     (\<forall>e \<in> set tr. event_conn e \<noteq> None) \<and> \<not> accepting s'"
proof (induction rule: server_run.induct)
  case (step s0 tr s1 e s2)
  then show ?case using server_step_accepting [OF step.hyps(2)] by auto
qed simp

lemma running_can_run:
  assumes "running_conns s \<noteq> {}" "\<And>h w req. \<exists>r. handle_request X h w req = Returns r"
  shows "\<exists>i req s'. server_step X c s (Ran i req) s'"
proof -
  obtain i cn req where cn: "conns s i = Some cn" "phase cn = Running req"
    using assms(1) by (auto simp: running_conns_def)
  obtain v h1 w1 where "handle_request X (handler cn) (world s) req = Returns (v, h1, w1)"
    using assms(2) by (metis prod_cases3)
  from server_step.ran [OF cn this, of c] show ?thesis by blast
qed

text \<open>A running request that does not end keeps its connection as it is.\<close>

lemma stuck_run:
  assumes "server_run X c s tr s'" "numbered s" "conns s i = Some cn" "phase cn = Running req" "P (world s)"
    and diverges: "\<And>w. P w \<Longrightarrow> handle_request X (handler cn) w req = Diverges"
    and keeps: "\<And>h w req v h1 w1. P w \<Longrightarrow> handle_request X h w req = Returns (v, h1, w1) \<Longrightarrow> P w1"
      "\<And>w conn. P w \<Longrightarrow> P (sq_close (sqlite X) conn w)"
  shows "conns s' i = Some cn \<and> P (world s')"
proof -
  have one: "conns s2 i = Some cn \<and> P (world s2)"
    if "server_step X c s1 e s2" "numbered s1" "conns s1 i = Some cn" "P (world s1)" for s1 e s2
    using that
  proof (induction rule: server_step.induct)
    case (accepted s1 ip st)
    then show ?case using assms(4) by (auto simp: server_sels numbered_def)
  next
    case (ran s1 j cn1 req1 v h1 w1)
    then have "j \<noteq> i" using diverges assms(4) by auto
    with ran keeps(1) show ?case by (auto simp: server_sels)
  qed (use assms(4) drop_handler_keeps [of P X, OF keeps(2)] in \<open>auto simp: server_sels\<close>)
  from assms(1,2,3,5) show ?thesis
  proof (induction rule: server_run.induct)
    case (step s tr s1 e s2)
    then show ?case using one [of s1 e s2] numbered_run [of X c s tr s1] by blast
  qed simp
qed

lemma run_server_Returns:
  "run_server rt c = Returns r \<longleftrightarrow>
     rt_semaphore rt (worker_count c) = Returns () \<and>
     ((\<exists>e. rt_bind rt (listen_addr c) = Inl e \<and> r = Inl e) \<or>
      (\<exists>l e. rt_bind rt (listen_addr c) = Inr l \<and> rt_local_addr rt l = Inl e \<and> r = Inl e) \<or>
      (\<exists>l a. rt_bind rt (listen_addr c) = Inr l \<and> rt_local_addr rt l = Inr a \<and>
         rt_signals rt = Returns () \<and> r = Inr (banner c a)))"
  by (auto simp: run_server_def run_bind_Returns_iff split: sum.splits)

lemma main_process_loaded:
  assumes "parse_config env a = Inr (Some c)"
  shows "main_process env rt a =
    run_bind (rt_build rt (worker_count c)) (\<lambda>r.
      case r of
        Inl e \<Rightarrow> Panics
      | Inr _ \<Rightarrow> run_bind (run_server rt c) (\<lambda>r. Returns (process_of c r)))"
  using assms by (simp add: main_process_def)

lemma main_process_loaded_Returns:
  assumes "parse_config env a = Inr (Some c)" "main_process env rt a = Returns p"
  obtains r where "run_server rt c = Returns r" "p = process_of c r"
  using assms
  by (cases "rt_build rt (worker_count c)"; cases "run_server rt c")
    (auto simp: main_process_loaded split: sum.splits)

section \<open>Properties\<close>

text \<open>C33: The process ends before it serves in exactly two ways, with code 0 and no message when
  only the version was asked for, and with code 1 and the reason otherwise; a process that listens
  does so with the loaded configuration, whose whitelist is canonical and whose folder exists,
  on at least one worker.\<close>

theorem main_process_outcome:
  assumes "main_process env rt a = Returns p" "env_ok env"
  shows "case p of
      Exited code err \<Rightarrow>
        code = 0 \<and> err = [] \<and> arg_version a \<or>
        code = 1 \<and> \<not> arg_version a \<and>
          ((\<exists>e. parse_config env a = Inl e \<and>
              err = ''Config error:'' @ [CHR 0x0A, CHR 0x09] @ e @ [CHR 0x0A]) \<or>
           (\<exists>c e. parse_config env a = Inr (Some c) \<and> run_server rt c = Returns (Inl e) \<and>
              err = ''Server error: '' @ e @ [CHR 0x0A]))
    | Listening c out \<Rightarrow>
        parse_config env a = Inr (Some c) \<and> config_ok env c \<and> worker_count c \<noteq> 0 \<and>
        (\<exists>l addr. rt_bind rt (listen_addr c) = Inr l \<and> rt_local_addr rt l = Inr addr \<and>
           out = banner c addr)"
proof -
  consider (failed) e where "parse_config env a = Inl e"
    | (version) "parse_config env a = Inr None"
    | (loaded) c where "parse_config env a = Inr (Some c)"
    by (metis option.exhaust sum.exhaust)
  then show ?thesis
  proof cases
    case failed
    then have "\<not> arg_version a" by (auto simp: parse_config_def)
    then show ?thesis using failed assms(1) by (auto simp: main_process_def)
  next
    case version
    then have "arg_version a"
      by (auto simp: parse_config_def res_bind_Inr_iff split: if_splits)
    then show ?thesis using version assms(1) by (auto simp: main_process_def)
  next
    case loaded
    then have v: "\<not> arg_version a" by (auto simp: parse_config_def)
    obtain r where r: "run_server rt c = Returns r" "p = process_of c r"
      using main_process_loaded_Returns [OF loaded assms(1)] .
    have ok: "config_ok env c" using parse_config_config_ok [OF loaded assms(2)] .
    show ?thesis
      using r run_server_Returns [of rt c r] loaded v ok worker_count_positive [of c]
      by (auto simp: process_of_def split: sum.splits)
  qed
qed

text \<open>The runtime of the witnesses: what is documented of \<open>tokio\<close>, and a listener on any address.\<close>

definition demo_runtime :: "socket_addr runtime" where
  "demo_runtime =
     \<lparr>rt_build = (\<lambda>n. if n = 0 then Panics else Returns (Inr ())),
      rt_semaphore = (\<lambda>n. if unat n < 2 ^ 61 then Returns () else Panics),
      rt_bind = (\<lambda>a. if sock_port a = 1 then Inl ''denied'' else Inr a), rt_local_addr = Inr,
      rt_signals = Returns (), rt_drop = (\<lambda>blocking. blocking = {})\<rparr>"

lemma demo_parse: "parse_config demo_env (default_args\<lparr>arg_config := Some ''c.json''\<rparr>) = Inr (Some demo_config)"
  by (simp add: parse_config_def default_args_def demo_from_file)

lemma demo_main:
  "main_process demo_env demo_runtime (default_args\<lparr>arg_config := Some ''c.json''\<rparr>) =
     Returns (Listening demo_config (banner demo_config (listen_addr demo_config)))"
  by (simp add: main_process_def demo_parse run_server_def demo_runtime_def worker_count_def
      process_of_def demo_config_def max_def)

theorem main_process_outcome_witness:
  "main_process demo_env demo_runtime (default_args\<lparr>arg_config := Some ''c.json''\<rparr>) =
     Returns (Listening demo_config (banner demo_config (listen_addr demo_config))) \<and>
   config_ok demo_env demo_config"
  using demo_main main_process_outcome [OF demo_main demo_env_ok] by simp

text \<open>A run to a request that executes, whatever the engine is.\<close>

definition demo_begun :: "('c, string list) server" where
  "demo_begun =
     (let s1 = spawn (demo_server []) (V4 1) (demo_stream [''loop'']) (start_server (demo_server []) demo_world)
      in (set_conn 0 \<lparr>peer = V4 1, handler = new_handler (demo_server []),
            socket = (demo_stream [''loop''])\<lparr>inbox := []\<rparr>, phase = Running ''loop''\<rparr> s1)
          \<lparr>permits := permits s1 - 1\<rparr>)"

lemma demo_begun_sels:
  "conns demo_begun = [0 \<mapsto> \<lparr>peer = V4 1, handler = new_handler (demo_server []),
     socket = (demo_stream [''loop''])\<lparr>inbox := []\<rparr>, phase = Running ''loop''\<rparr>]"
  "permits demo_begun = 3" "files (world demo_begun) = demo_files" "accepting demo_begun"
  by (simp_all add: demo_begun_def spawn_def start_server_def set_conn_def query_limit_def
      demo_server_def Let_def)

lemma demo_begins:
  fixes X :: "(string list, 'c, 's, 'r, 'w) externals"
  shows "server_run X (demo_server []) (start_server (demo_server []) demo_world)
     [Accepted 0 (V4 1), Received 0 ''loop'', Acquired 0] demo_begun"
proof -
  let ?c = "demo_server []" and ?h = "new_handler (demo_server []) :: 'c request_handler"
  let ?in = "demo_stream [''loop'']" and ?ip = "V4 1"
  let ?st = "?in\<lparr>inbox := []\<rparr>"
  let ?s1 = "spawn ?c ?ip ?in (start_server ?c demo_world) :: ('c, string list) server"
  let ?cn = "\<lambda>ph. \<lparr>peer = ?ip, handler = ?h, socket = ?st, phase = ph\<rparr>"
  let ?s2 = "set_conn 0 (?cn (Waiting ''loop'')) ?s1"
  let ?s3 = "(set_conn 0 (?cn (Running ''loop'')) ?s2)\<lparr>permits := permits ?s2 - 1\<rparr>"
  have "is_ip_allowed ?c ?ip = Returns True" by (simp add: is_ip_allowed_def demo_server_def)
  then have a: "server_step X ?c (start_server ?c demo_world) (Accepted 0 ?ip) ?s1"
    using server_step.accepted [of "start_server ?c demo_world" ?c ?ip ?in X]
    by (simp add: start_server_def demo_stream_def)
  have r: "read_request ?c ?in = (Some ''loop'', ?st)"
  proof -
    have "fst (read_request ?c ?in) = Some ''loop''" "inbox (snd (read_request ?c ?in)) = []"
      "outbox (snd (read_request ?c ?in)) = outbox ?in" "accepts (snd (read_request ?c ?in)) = accepts ?in"
      by code_simp+
    then show ?thesis by (cases "read_request ?c ?in") simp
  qed
  have b: "server_step X ?c ?s1 (Received 0 ''loop'') ?s2"
    using server_step.received [of ?s1 0 "\<lparr>peer = ?ip, handler = ?h, socket = ?in, phase = Reading\<rparr>" ?c
        "''loop''" ?st X] r
    by (simp add: spawn_def start_server_def)
  have d: "server_step X ?c ?s2 (Acquired 0) ?s3"
    using server_step.acquired [of ?s2 0 "?cn (Waiting ''loop'')" "''loop''" X ?c]
    by (simp add: spawn_def start_server_def set_conn_def query_limit_def)
  have "?s3 = demo_begun" by (simp add: demo_begun_def set_conn_def Let_def)
  with server_run_Cons [OF a server_run_Cons [OF b server_run_Cons [OF d server_run.start]]]
  show ?thesis by simp
qed

text \<open>Given the documented behaviour of the runtime (a pool for any positive number of
  threads, a semaphore for fewer than 2^61 permits), the process never panics before it serves,
  whatever else is configured, except for a worker count of 2^61 or more, which is accepted
  unchecked by the configuration.\<close>

theorem main_process_panics:
  assumes "\<And>n. rt_semaphore rt n = (if unat n < 2 ^ 61 then Returns () else Panics)"
    and "\<And>n. n \<noteq> 0 \<Longrightarrow> unat n < 2 ^ 61 \<Longrightarrow> rt_build rt n = Returns (Inr ())"
    and "\<And>n. rt_build rt n \<noteq> Diverges" "rt_signals rt = Returns ()"
  shows "main_process env rt a \<noteq> Diverges \<and>
    (main_process env rt a = Panics \<longleftrightarrow>
      (\<exists>c. parse_config env a = Inr (Some c) \<and> 2 ^ 61 \<le> unat (workers c)))"
proof (cases "\<exists>c. parse_config env a = Inr (Some c)")
  case True
  then obtain c where c: "parse_config env a = Inr (Some c)" by blast
  have n: "unat (worker_count c) < 2 ^ 61 \<longleftrightarrow> unat (workers c) < 2 ^ 61"
    by (simp add: unat_worker_count query_limit_def)
  show ?thesis
  proof (cases "unat (worker_count c) < 2 ^ 61")
    case True
    have "run_server rt c \<noteq> Panics \<and> run_server rt c \<noteq> Diverges"
      using True assms(1) [of "worker_count c"] assms(4) by (simp add: run_server_def split: sum.split)
    then show ?thesis
      using True n c assms(2) [OF worker_count_positive True]
      by (cases "run_server rt c") (auto simp: main_process_loaded [OF c])
  next
    case False
    have "run_server rt c = Panics"
      using False assms(1) [of "worker_count c"] by (simp add: run_server_def)
    then show ?thesis
      using False n c assms(3) [of "worker_count c"]
      by (cases "rt_build rt (worker_count c)") (auto simp: main_process_loaded [OF c] split: sum.split)
  qed
next
  case False
  then show ?thesis
    by (auto simp: main_process_def split: sum.splits option.splits)
qed

theorem main_process_panics_witness:
  "main_process demo_env demo_runtime (default_args\<lparr>arg_databases_folder := ''/data'', arg_workers := Some (-1)\<rparr>) = Panics"
proof -
  let ?a = "default_args\<lparr>arg_databases_folder := ''/data'', arg_workers := Some (-1)\<rparr>"
  have p: "case parse_config demo_env ?a of Inr (Some c) \<Rightarrow> workers c = 0xFFFFFFFFFFFFFFFF | _ \<Rightarrow> False"
    by code_simp
  then have "\<exists>c. parse_config demo_env ?a = Inr (Some c) \<and> 2 ^ 61 \<le> unat (workers c)"
    by (auto split: sum.splits option.splits)
  moreover have "main_process demo_env demo_runtime ?a \<noteq> Diverges \<and>
    (main_process demo_env demo_runtime ?a = Panics \<longleftrightarrow>
      (\<exists>c. parse_config demo_env ?a = Inr (Some c) \<and> 2 ^ 61 \<le> unat (workers c)))"
    by (rule main_process_panics) (simp_all add: demo_runtime_def)
  ultimately show ?thesis by blast
qed

text \<open>The startup line tells whether a password is set and nothing else about it.\<close>

theorem banner_hides_password:
  "banner (c\<lparr>auth := p\<rparr>) a = banner (c\<lparr>auth := q\<rparr>) a \<longleftrightarrow> (p = [] \<longleftrightarrow> q = [])"
  by (auto simp: banner_def ip_whitelist_repr_def)

text \<open>C34: Once a shutdown signal was taken the process comes to its end, if every request returns
  and the runtime is dropped as documented: the accept loop does nothing any more, only finitely
  many steps of the open connections are left, and after each of them the process exits with
  code 0 as soon as the runtime is dropped, or else a request that executes can finish, whatever
  the other connections wait for.\<close>

theorem process_exits_after_shutdown:
  assumes "server_run X c (start_server c w) tr s" "\<not> accepting s" "drop_waits rt"
    and "\<And>h w req. \<exists>r. handle_request X h w req = Returns r"
    and "server_run X c s tr' s'"
  shows "(\<forall>e \<in> set tr'. event_conn e \<noteq> None) \<and>
    length tr' \<le> (\<Sum>i < next_id s. work_left (conns s i)) \<and>
    (process_run rt X w (Listening c out) (tr @ tr') (Exited 0 []) s' \<or>
     (\<exists>i req s''. server_step X c s' (Ran i req) s''))"
proof -
  have off: "(\<forall>e \<in> set tr'. event_conn e \<noteq> None) \<and> \<not> accepting s'"
    using assms(5,2) by (rule server_run_not_accepting)
  have "numbered s" using server_reached [OF assms(1)] by (simp add: server_inv_def)
  then have "length tr' + total work_left s' \<le> total work_left s"
    using task_run_work [OF assms(5)] off by blast
  then have work: "length tr' \<le> (\<Sum>i < next_id s. work_left (conns s i))" by (simp add: total_def)
  have "process_run rt X w (Listening c out) (tr @ tr') (Exited 0 []) s' \<or>
    (\<exists>i req s''. server_step X c s' (Ran i req) s'')"
  proof (cases "running_conns s' = {}")
    case True
    then have "rt_drop rt (running_conns s')" using assms(3) by (simp add: drop_waits_def)
    with process_run.ended [OF server_run_trans [OF assms(5,1)]] off show ?thesis by blast
  next
    case False
    with running_can_run [where X = X, OF False assms(4)] show ?thesis by blast
  qed
  with off work show ?thesis by (elim conjE) (intro conjI)
qed

theorem process_exits_after_shutdown_witness:
  "\<exists>s s' :: (string, string list) server. \<exists>i req s''.
     server_run finite_externals (demo_server []) (start_server (demo_server []) demo_world)
       [Accepted 0 (V4 1), Received 0 ''loop'', Acquired 0, Shutdown] s \<and>
     server_step finite_externals (demo_server []) s (Ran i req) s'' \<and>
     server_run finite_externals (demo_server []) s [Ran i req] s' \<and>
     process_run demo_runtime finite_externals demo_world (Listening (demo_server []) [])
       [Accepted 0 (V4 1), Received 0 ''loop'', Acquired 0, Shutdown, Ran i req] (Exited 0 []) s'"
proof -
  let ?X = finite_externals and ?c = "demo_server []"
  let ?b = "demo_begun :: (string, string list) server" and ?s = "demo_begun\<lparr>accepting := False\<rparr> :: (string, string list) server"
  have "server_step ?X ?c ?b Shutdown ?s" by (rule server_step.shutdown) (simp add: demo_begun_sels)
  from server_run.step [OF demo_begins this]
  have run: "server_run ?X ?c (start_server ?c demo_world)
      [Accepted 0 (V4 1), Received 0 ''loop'', Acquired 0, Shutdown] ?s" by simp
  have d: "drop_waits demo_runtime" by (simp add: drop_waits_def demo_runtime_def)
  have r: "running_conns ?s = {0}" by (auto simp: running_conns_def demo_begun_sels)
  have off: "\<not> accepting ?s" by simp
  let ?p = "\<lambda>tr. process_run demo_runtime ?X demo_world (Listening ?c [])
      ([Accepted 0 (V4 1), Received 0 ''loop'', Acquired 0, Shutdown] @ tr) (Exited 0 [])"
  have exits: "?p tr s' \<or> (\<exists>i req s''. server_step ?X ?c s' (Ran i req) s'')"
    if "server_run ?X ?c ?s tr s'" for tr s'
    by (rule process_exits_after_shutdown [OF run off d finite_handle_request that, of "[]",
          THEN conjunct2, THEN conjunct2])
  have n: "\<not> ?p [] ?s"
  proof
    assume "?p [] ?s"
    then have "rt_drop demo_runtime (running_conns ?s)" by (rule process_run_Listening) simp_all
    with r show False by (simp add: demo_runtime_def)
  qed
  have "\<exists>i req s''. server_step ?X ?c ?s (Ran i req) s''"
  proof (rule disjE [OF exits [OF server_run.start]])
    assume "?p [] ?s"
    with n show ?thesis by contradiction
  qed
  then obtain i req s'' where step: "server_step ?X ?c ?s (Ran i req) s''" by (elim exE)
  then have idle: "running_conns s'' = {}"
  proof (cases rule: server_step.cases)
    case (ran cn v h1 w1)
    then have "i = 0" by (simp add: demo_begun_sels split: if_splits)
    with ran show ?thesis by (auto simp: running_conns_def demo_begun_sels set_conn_def)
  qed
  have "\<not> server_step ?X ?c s'' (Ran j q) s3" for j q s3
  proof
    assume "server_step ?X ?c s'' (Ran j q) s3"
    then show False using idle by (cases rule: server_step.cases) (auto simp: running_conns_def)
  qed
  moreover note one = server_run_Cons [OF step server_run.start]
  ultimately have "?p [Ran i req] s''"
    using exits [OF one] by blast
  then have "process_run demo_runtime ?X demo_world (Listening ?c [])
      [Accepted 0 (V4 1), Received 0 ''loop'', Acquired 0, Shutdown, Ran i req] (Exited 0 []) s''" by simp
  with run step one show ?thesis by blast
qed

text \<open>C23: One query that never ends keeps the process from ending, given that dropping a runtime
  waits for the tasks that block: however many other workers are free, whatever else happens and
  whatever signals arrive, the process does not exit as long as the other requests leave the
  world such that the query does not end.\<close>

theorem endless_query_blocks_exit:
  assumes "server_run X c (start_server c w) tr s" "conns s i = Some cn" "phase cn = Running req"
    and "P (world s)" "\<And>w. P w \<Longrightarrow> handle_request X (handler cn) w req = Diverges"
    and "\<And>h w req v h1 w1. P w \<Longrightarrow> handle_request X h w req = Returns (v, h1, w1) \<Longrightarrow> P w1"
    and "\<And>w conn. P w \<Longrightarrow> P (sq_close (sqlite X) conn w)"
    and "server_run X c s tr' s'" "drop_waits rt"
  shows "\<not> process_run rt X w (Listening c out) (tr @ tr') (Exited 0 []) s'"
proof -
  have "numbered s" using server_reached [OF assms(1)] by (simp add: server_inv_def)
  then have "conns s' i = Some cn"
    using stuck_run [OF assms(8) _ assms(2,3), of P] assms(4-7) by blast
  then have "running_conns s' \<noteq> {}" using assms(3) by (auto simp: running_conns_def)
  then show ?thesis using assms(9) by (auto simp: drop_waits_def elim: process_run_Listening)
qed

text \<open>The engine of the witnesses behind a parser that knows one request, the endless query.\<close>

definition loop_externals :: "(string list, string, string, int, int) externals" where
  "loop_externals =
     demo_externals\<lparr>json_from_str := (\<lambda>s.
       if s = ''loop'' then Inr (demo_request ''QUERY'' ''a'' ''LOOP'') else Inl ''expected value'')\<rparr>"

lemma loop_sqlite: "sqlite loop_externals = demo_sqlite"
  by (simp add: loop_externals_def)

lemma loop_parse:
  "parse_request loop_externals req = Inr v \<Longrightarrow> v = demo_request ''QUERY'' ''a'' ''LOOP''"
  by (auto simp: parse_request_def loop_externals_def split: if_splits sum.splits)

lemma loop_keeps_files:
  assumes "handle_request loop_externals h w req = Returns (v, h1, w1)"
  shows "files w1 = files w"
proof -
  let ?I = "\<lambda>w1. files w1 = files w"
  have k: "sqlite_keeps (sqlite loop_externals) ?I"
    by (auto simp: loop_sqlite sqlite_keeps_def demo_sqlite_def demo_log_def)
  have d: "dispatch X h w req (demo_request ''QUERY'' ''a'' ''LOOP'') =
      handle_query X h w (demo_request ''QUERY'' ''a'' ''LOOP'')"
    for X :: "(string list, string, string, int, int) externals"
    by (simp add: dispatch_def demo_request_get)
  show ?thesis
    using assms handle_query_keeps [OF k, of h w]
    by (cases "parse_request loop_externals req")
      (auto simp: handle_request_def d dest!: loop_parse split: if_splits)
qed

lemma loop_diverges:
  assumes "files w = demo_files"
  shows "handle_request loop_externals (new_handler (demo_server [])) w ''loop'' = Diverges"
proof -
  have p: "parse_request demo_externals ''loop'' = parse_request loop_externals ''loop''"
    by code_simp
  have rq: "run_query loop_externals = run_query demo_externals"
    unfolding run_query_def [abs_def] get_connection_def [abs_def] run_statement_def [abs_def]
      loop_sqlite demo_simps(4) ..
  have "handle_query loop_externals = handle_query demo_externals"
    unfolding handle_query_def [abs_def] rq ..
  then show ?thesis
    using demo_loop_diverges [OF assms] p
    by (auto simp: handle_request_def dispatch_def demo_request_get split: sum.splits dest!: loop_parse)
qed

theorem endless_query_blocks_exit_witness:
  "\<exists>s :: (string, string list) server. permits s = 3 \<and>
     server_run loop_externals (demo_server []) (start_server (demo_server []) demo_world)
       [Accepted 0 (V4 1), Received 0 ''loop'', Acquired 0] s \<and>
     (\<forall>tr' s'. server_run loop_externals (demo_server []) s tr' s' \<longrightarrow>
        \<not> process_run demo_runtime loop_externals demo_world (Listening (demo_server []) [])
            ([Accepted 0 (V4 1), Received 0 ''loop'', Acquired 0] @ tr') (Exited 0 []) s')"
proof -
  let ?X = loop_externals and ?c = "demo_server []" and ?b = "demo_begun :: (string, string list) server"
  let ?cn = "\<lparr>peer = V4 1, handler = new_handler (demo_server []), socket = (demo_stream [''loop''])\<lparr>inbox := []\<rparr>,
    phase = Running ''loop''\<rparr>"
  have cn: "conns ?b 0 = Some ?cn" "permits ?b = 3" "files (world ?b) = demo_files"
    by (simp_all add: demo_begun_sels)
  have div: "handle_request ?X (handler ?cn) w ''loop'' = Diverges" if "files w = demo_files" for w
    unfolding conn.simps by (rule loop_diverges [OF that])
  have d: "drop_waits demo_runtime" by (simp add: drop_waits_def demo_runtime_def)
  have "\<not> process_run demo_runtime ?X demo_world (Listening ?c [])
      ([Accepted 0 (V4 1), Received 0 ''loop'', Acquired 0] @ tr') (Exited 0 []) s'"
    if "server_run ?X ?c ?b tr' s'" for tr' s'
    by (rule endless_query_blocks_exit [where P = "\<lambda>w. files w = demo_files",
          OF demo_begins cn(1) _ cn(3) div _ _ that d])
      (simp_all add: loop_keeps_files loop_sqlite demo_sqlite_def demo_log_def)
  with demo_begins [of ?X] cn(2) show ?thesis by blast
qed

end
