(* ===== verification/Build.thy ===== *)
theory Build
  imports Program
begin

text \<open>
  The build script (\<open>src/build.rs\<close>) with what \<open>--version\<close> prints of it (\<open>src/src/config.rs\<close>), and
  the wait for a shutdown signal (\<open>src/src/server.rs\<close>). Running \<open>git\<close> is a parameter; so is how
  \<open>cargo\<close> turns the lines of the script into the variables that \<open>env!\<close> reads.
\<close>

section \<open>The build script\<close>

text \<open>\<open>std::process::Output\<close>\<close>

record command_output =
  status_success :: bool
  stdout :: "u8 list"

definition git :: "(string list \<Rightarrow> string + command_output) \<Rightarrow> string list \<Rightarrow> string option" where
  "git run_git args =
     (case run_git args of
        Inl e \<Rightarrow> None
      | Inr out \<Rightarrow>
          if \<not> status_success out then None else Some (trim (from_utf8_lossy (stdout out))))"

definition or_unknown :: "string option \<Rightarrow> string" where
  "or_unknown r = (case r of Some s \<Rightarrow> s | None \<Rightarrow> ''unknown'')"

text \<open>The lines it prints.\<close>

definition build_script :: "(string list \<Rightarrow> string + command_output) \<Rightarrow> string list" where
  "build_script run_git =
     (let branch = or_unknown (git run_git [''rev-parse'', ''--abbrev-ref'', ''HEAD'']);
          commit = or_unknown (git run_git [''rev-parse'', ''HEAD''])
      in [''cargo:rustc-env=GIT_BRANCH='' @ branch, ''cargo:rustc-env=GIT_COMMIT_HASH='' @ commit,
          ''cargo:rerun-if-changed=.git/HEAD''])"

text \<open>What \<open>parse\<close> prints, given the variables at compile time.\<close>

definition version_text :: "(string \<Rightarrow> string) \<Rightarrow> string" where
  "version_text env_var =
     ''GIT Branch: '' @ env_var ''GIT_BRANCH'' @ [CHR 0x0A] @
     ''GIT Commit hash: '' @ env_var ''GIT_COMMIT_HASH'' @ [CHR 0x0A]"

definition parse_output :: "(string \<Rightarrow> string) \<Rightarrow> args \<Rightarrow> string" where
  "parse_output env_var a = (if arg_version a then version_text env_var else [])"

section \<open>The shutdown signal\<close>

datatype signal = SIGINT | SIGTERM | OtherSignal

text \<open>
  The signals that arrive, in order: what is left of them when the wait ends, or \<open>None\<close> when it
  does not. Installing the handlers may panic (\<open>expect\<close>).
\<close>

definition shutdown_signal :: "'l runtime \<Rightarrow> signal list \<Rightarrow> signal list option run" where
  "shutdown_signal rt signals =
     run_bind (rt_signals rt) (\<lambda>_.
       Returns
         (case dropWhile (\<lambda>s. s \<noteq> SIGINT \<and> s \<noteq> SIGTERM) signals of
            [] \<Rightarrow> None
          | _ # later \<Rightarrow> Some later))"

section \<open>Lemmas\<close>

text \<open>
  What is documented of \<open>cargo\<close>: a line \<open>cargo:rustc-env=K=V\<close> gives the variable \<open>K\<close> the value
  \<open>V\<close>, when it is the only line for \<open>K\<close> and has no line break in it.
\<close>

definition sets_env :: "(string list \<Rightarrow> string \<Rightarrow> string) \<Rightarrow> bool" where
  "sets_env cargo \<longleftrightarrow>
     (\<forall>before after k v. CHR 0x0A \<notin> set v \<and> CHR ''='' \<notin> set k \<and>
        (\<forall>l \<in> set (before @ after). \<not> prefix (''cargo:rustc-env='' @ k @ ''='') l) \<longrightarrow>
        cargo (before @ [''cargo:rustc-env='' @ k @ ''='' @ v] @ after) k = v)"

lemma git_branch_line:
  assumes "sets_env cargo" "CHR 0x0A \<notin> set b"
  shows "cargo [''cargo:rustc-env=GIT_BRANCH='' @ b, ''cargo:rustc-env=GIT_COMMIT_HASH='' @ c,
      ''cargo:rerun-if-changed=.git/HEAD''] ''GIT_BRANCH'' = b"
  using assms(1) [unfolded sets_env_def, rule_format, of b "''GIT_BRANCH''" "[]"
      "[''cargo:rustc-env=GIT_COMMIT_HASH='' @ c, ''cargo:rerun-if-changed=.git/HEAD'']"] assms(2)
  by (simp add: prefix_def)

lemma git_commit_line:
  assumes "sets_env cargo" "CHR 0x0A \<notin> set c"
  shows "cargo [''cargo:rustc-env=GIT_BRANCH='' @ b, ''cargo:rustc-env=GIT_COMMIT_HASH='' @ c,
      ''cargo:rerun-if-changed=.git/HEAD''] ''GIT_COMMIT_HASH'' = c"
  using assms(1) [unfolded sets_env_def, rule_format, of c "''GIT_COMMIT_HASH''"
      "[''cargo:rustc-env=GIT_BRANCH='' @ b]" "[''cargo:rerun-if-changed=.git/HEAD'']"] assms(2)
  by (simp add: prefix_def)

text \<open>
  The version names what \<open>git\<close> printed at build time, without white space around it, or
  \<open>unknown\<close> for what it could not tell.
\<close>

theorem version_names_commit:
  assumes "sets_env cargo" "arg_version a"
    and "\<forall>s \<in> set_option (git run_git [''rev-parse'', ''--abbrev-ref'', ''HEAD'']) \<union>
      set_option (git run_git [''rev-parse'', ''HEAD'']). CHR 0x0A \<notin> set s"
  shows "parse_output (cargo (build_script run_git)) a =
    ''GIT Branch: '' @ or_unknown (git run_git [''rev-parse'', ''--abbrev-ref'', ''HEAD'']) @ [CHR 0x0A] @
    ''GIT Commit hash: '' @ or_unknown (git run_git [''rev-parse'', ''HEAD'']) @ [CHR 0x0A] \<and>
    parse_config env a = Inr None"
proof -
  have "CHR 0x0A \<notin> set (or_unknown r)" if "\<forall>s \<in> set_option r. CHR 0x0A \<notin> set s" for r
    using that by (cases r) (auto simp: or_unknown_def)
  then have lines: "CHR 0x0A \<notin> set (or_unknown (git run_git [''rev-parse'', ''--abbrev-ref'', ''HEAD'']))"
    "CHR 0x0A \<notin> set (or_unknown (git run_git [''rev-parse'', ''HEAD'']))"
    using assms(3) by blast+
  show ?thesis
    unfolding parse_output_def version_text_def build_script_def Let_def
      git_branch_line [OF assms(1) lines(1)] git_commit_line [OF assms(1) lines(2)]
    using assms(2) by (simp add: parse_config_def)
qed

text \<open>The wait ends with the first \<open>SIGINT\<close> or \<open>SIGTERM\<close>, and only with one.\<close>

lemma shutdown_signal_first:
  assumes "rt_signals rt = Returns ()"
  shows "shutdown_signal rt signals =
    Returns (if set signals \<inter> {SIGINT, SIGTERM} = {} then None
      else Some (tl (dropWhile (\<lambda>s. s \<noteq> SIGINT \<and> s \<noteq> SIGTERM) signals)))"
proof -
  have "dropWhile (\<lambda>s. s \<noteq> SIGINT \<and> s \<noteq> SIGTERM) signals = [] \<longleftrightarrow> set signals \<inter> {SIGINT, SIGTERM} = {}"
    by (auto simp: dropWhile_eq_Nil_conv)
  then show ?thesis
    by (cases "dropWhile (\<lambda>s. s \<noteq> SIGINT \<and> s \<noteq> SIGTERM) signals") 
      (simp_all add: shutdown_signal_def assms del: dropWhile_eq_Nil_conv)
qed

end
