(* ===== verification/Client_Values.thy ===== *)
theory Client_Values
  imports Regex Sqlite
begin

text \<open>
  The values of the reference client (\<open>src/examples/rust/client.rs\<close>): the \<open>Param\<close> enum and
  its conversions, their SQL literals, the binding of placeholders, and the decoder of BLOB
  literals. The text of a finite \<open>f64\<close> is a parameter, like the regex engine.
\<close>

section \<open>Parameters\<close>

datatype param = Null | Bool bool | Int' i64 | Real f64 | Text string | Blob "u8 list"

text \<open>The \<open>From\<close> instances.\<close>

definition param_of_i64 :: "i64 \<Rightarrow> param" where "param_of_i64 v = Int' v"
definition param_of_i32 :: "i32 \<Rightarrow> param" where "param_of_i32 v = Int' (scast v)"
definition param_of_f64 :: "f64 \<Rightarrow> param" where "param_of_f64 v = Real v"
definition param_of_bool :: "bool \<Rightarrow> param" where "param_of_bool v = Bool v"
definition param_of_str :: "string \<Rightarrow> param" where "param_of_str v = Text v"
definition param_of_string :: "string \<Rightarrow> param" where "param_of_string v = Text v"
definition param_of_vec :: "u8 list \<Rightarrow> param" where "param_of_vec v = Blob v"

definition param_of_option :: "('t \<Rightarrow> param) \<Rightarrow> 't option \<Rightarrow> param" where
  "param_of_option into v = (case v of Some x \<Rightarrow> into x | None \<Rightarrow> Null)"

section \<open>SQL literals\<close>

text \<open>\<open>Display\<close> of an \<open>i64\<close>.\<close>

definition dec_of_i64 :: "i64 \<Rightarrow> string" where
  "dec_of_i64 n =
     (if sint n < 0 then ''-'' @ dec_of_nat (nat (- sint n)) else dec_of_nat (nat (sint n)))"

definition client_to_hex :: "u8 list \<Rightarrow> string" where
  "client_to_hex bytes =
     concat (map (\<lambda>b. [''0123456789abcdef'' ! unat (drop_bit 4 b),
                        ''0123456789abcdef'' ! unat (b AND 0x0F)]) bytes)"

text \<open>\<open>s.replace('\'', "''")\<close>\<close>

definition double_quotes :: "string \<Rightarrow> string" where
  "double_quotes s = concat (map (\<lambda>c. if c = single_quote then [c, c] else [c]) s)"

fun serialize_sql_value :: "(f64 \<Rightarrow> string) \<Rightarrow> param \<Rightarrow> string" where
  "serialize_sql_value show_f64 Null = ''NULL''"
| "serialize_sql_value show_f64 (Bool b) = (if b then ''1'' else ''0'')"
| "serialize_sql_value show_f64 (Int' n) = dec_of_i64 n"
| "serialize_sql_value show_f64 (Real f) =
     (if f64_is_nan f then ''NULL''
      else if f64_is_infinite f then (if \<not> f64_is_negative f then ''9e999'' else ''-9e999'')
      else show_f64 f)"
| "serialize_sql_value show_f64 (Text s) = [single_quote] @ double_quotes s @ [single_quote]"
| "serialize_sql_value show_f64 (Blob bytes) =
     ''X'' @ [single_quote] @ client_to_hex bytes @ [single_quote]"

section \<open>Binding\<close>

definition bind_pattern :: string where
  "bind_pattern = [CHR 0x5C] @ ''?('' @ [CHR 0x5C] @ ''d+)|'' @ [CHR 0x5C] @ ''?''"

text \<open>The replacement closure; its state is the number of bare \<open>?\<close> that took a value.\<close>

definition bind_value ::
  "(f64 \<Rightarrow> string) \<Rightarrow> param list \<Rightarrow> string \<Rightarrow> captures \<Rightarrow> nat \<Rightarrow> string \<times> nat" where
  "bind_value show_f64 params sql caps next =
     (if 1 < length caps \<and> caps ! 1 \<noteq> None then
        let index = (case parse_unsigned (2 ^ 64) (group_text sql caps 1) of Some n \<Rightarrow> n | None \<Rightarrow> 0) in
        (if 1 \<le> index \<and> index \<le> length params
         then serialize_sql_value show_f64 (params ! (index - 1))
         else group_text sql caps 0, next)
      else if next < length params then (serialize_sql_value show_f64 (params ! next), next + 1)
      else (''?'', next))"

definition bind_params ::
  "(string \<Rightarrow> string \<Rightarrow> captures list) \<Rightarrow> (f64 \<Rightarrow> string) \<Rightarrow> string \<Rightarrow> param list \<Rightarrow> string" where
  "bind_params captures show_f64 sql params =
     replace_from sql 0 (captures bind_pattern sql) (bind_value show_f64 params sql) 0"

section \<open>BLOB literals\<close>

definition hex_val :: "u8 \<Rightarrow> u8 option" where
  "hex_val c =
     (if 0x30 \<le> c \<and> c \<le> 0x39 then Some (c - 0x30)
      else if 0x61 \<le> c \<and> c \<le> 0x66 then Some (c - 0x61 + 10)
      else if 0x41 \<le> c \<and> c \<le> 0x46 then Some (c - 0x41 + 10)
      else None)"

text \<open>The loop over the digits, of which there is an even number.\<close>

fun decode_hex :: "u8 list \<Rightarrow> u8 list option" where
  "decode_hex (a # b # h) =
     (case hex_val a of
        None \<Rightarrow> None
      | Some x \<Rightarrow>
          (case hex_val b of
             None \<Rightarrow> None
           | Some y \<Rightarrow> map_option (\<lambda>out. (push_bit 4 x OR y) # out) (decode_hex h)))"
| "decode_hex h = Some []"

definition decode_blob_literal :: "string \<Rightarrow> u8 list option" where
  "decode_blob_literal literal =
     (let bytes = bytes_of_str literal in
      if length bytes < 3 \<or> \<not> (bytes ! 0 = 0x58 \<or> bytes ! 0 = 0x78) \<or> bytes ! 1 \<noteq> 0x27 then None
      else if last bytes \<noteq> 0x27 then None
      else
        let hex = take (length bytes - 3) (drop 2 bytes) in
        if odd (length hex) then None else decode_hex hex)"

end
