(* ===== verification/Client_Binding.thy ===== *)
theory Client_Binding
  imports Client_Values
begin

text \<open>
  What \<open>bind\<close> does: a template is a sequence of plain text, bare placeholders and numbered
  placeholders, and binding replaces each placeholder by the literal of its parameter in one
  pass. The matches of the engine on a template in which no placeholder is followed by a
  non-ASCII digit are given as an executable function.
\<close>

section \<open>The matches\<close>

definition is_digit :: "char \<Rightarrow> bool" where
  "is_digit = in_class [(CHR ''0'', CHR ''9'')]"

abbreviation question :: char where "question \<equiv> CHR ''?''"

definition placeholder_match :: matcher where
  "placeholder_match s =
     (case s of
        [] \<Rightarrow> None
      | c # cs \<Rightarrow>
          if c = question then
            let d = length (takeWhile is_digit cs) in
            Some (if 0 < d then (1 + d, [Some (0, 1 + d), Some (1, 1 + d)]) else (1, [Some (0, 1), None]))
          else None)"

definition bind_captures :: "string \<Rightarrow> captures list" where
  "bind_captures s = all_matches placeholder_match 0 s"

lemma placeholder_match_ok: "matcher_ok placeholder_match"
  by (auto simp: matcher_ok_def placeholder_match_def Let_def split: list.splits if_splits)

lemma bind_value_shift:
  "bind_value show_f64 params s (shift i caps) st = bind_value show_f64 params (drop i s) caps st"
proof -
  have "1 < length (shift i caps) \<and> shift i caps ! 1 \<noteq> None \<longleftrightarrow> 1 < length caps \<and> caps ! 1 \<noteq> None"
    by (auto simp: shift_def)
  then show ?thesis by (simp only: bind_value_def group_text_shift)
qed

section \<open>Templates\<close>

datatype token = Plain string | Next | Numbered string

fun token_text :: "token \<Rightarrow> string" where
  "token_text (Plain s) = s"
| "token_text Next = [question]"
| "token_text (Numbered ds) = question # ds"

definition template :: "token list \<Rightarrow> string" where
  "template ts = concat (map token_text ts)"

definition starts_with_digit :: "string \<Rightarrow> bool" where
  "starts_with_digit s = (case s of [] \<Rightarrow> False | c # _ \<Rightarrow> is_digit c)"

text \<open>The reading the pattern gives: digits after a \<open>?\<close> belong to it.\<close>

fun tokens_ok :: "token list \<Rightarrow> bool" where
  "tokens_ok [] = True"
| "tokens_ok (Plain s # ts) = (question \<notin> set s \<and> tokens_ok ts)"
| "tokens_ok (Next # ts) = (\<not> starts_with_digit (template ts) \<and> tokens_ok ts)"
| "tokens_ok (Numbered ds # ts) =
     (ds \<noteq> [] \<and> list_all is_digit ds \<and> \<not> starts_with_digit (template ts) \<and> tokens_ok ts)"

text \<open>The bound statement; \<open>next\<close> values have been used by bare placeholders.\<close>

fun bind_tokens :: "(f64 \<Rightarrow> string) \<Rightarrow> param list \<Rightarrow> nat \<Rightarrow> token list \<Rightarrow> string" where
  "bind_tokens show_f64 params next [] = []"
| "bind_tokens show_f64 params next (Plain s # ts) = s @ bind_tokens show_f64 params next ts"
| "bind_tokens show_f64 params next (Next # ts) =
     (if next < length params
      then serialize_sql_value show_f64 (params ! next) @ bind_tokens show_f64 params (Suc next) ts
      else question # bind_tokens show_f64 params next ts)"
| "bind_tokens show_f64 params next (Numbered ds # ts) =
     (case parse_unsigned (2 ^ 64) ds of
        Some n \<Rightarrow>
          if 1 \<le> n \<and> n \<le> length params then serialize_sql_value show_f64 (params ! (n - 1))
          else question # ds
      | None \<Rightarrow> question # ds) @ bind_tokens show_f64 params next ts"

lemma placeholder_match_other: "c \<noteq> question \<Longrightarrow> placeholder_match (c # cs) = None"
  by (simp add: placeholder_match_def)

lemma rewrite_plain:
  "question \<notin> set s \<Longrightarrow>
     rewrite placeholder_match f st (s @ t) = s @ rewrite placeholder_match f st t"
  by (induction s) (auto simp: rewrite.simps(2) placeholder_match_other)

lemma takeWhile_digits:
  "list_all is_digit ds \<Longrightarrow> \<not> starts_with_digit t \<Longrightarrow> takeWhile is_digit (ds @ t) = ds"
  by (induction ds) (auto simp: starts_with_digit_def split: list.splits)

lemma placeholder_match_bare:
  "\<not> starts_with_digit t \<Longrightarrow> placeholder_match (question # t) = Some (1, [Some (0, 1), None])"
  using takeWhile_digits [of "[]" t] by (simp add: placeholder_match_def)

lemma placeholder_match_numbered:
  "list_all is_digit ds \<Longrightarrow> ds \<noteq> [] \<Longrightarrow> \<not> starts_with_digit t \<Longrightarrow>
     placeholder_match (question # ds @ t) =
       Some (1 + length ds, [Some (0, 1 + length ds), Some (1, 1 + length ds)])"
  by (simp add: placeholder_match_def takeWhile_digits Let_def)

lemma bind_value_bare:
  "bind_value show_f64 params s [Some (0, 1), None] next =
     (if next < length params then (serialize_sql_value show_f64 (params ! next), Suc next)
      else ([question], next))"
  by (simp add: bind_value_def)

lemma bind_value_numbered:
  "bind_value show_f64 params (question # ds @ t) [Some (0, 1 + length ds), Some (1, 1 + length ds)] next =
     (case parse_unsigned (2 ^ 64) ds of
        Some n \<Rightarrow>
          if 1 \<le> n \<and> n \<le> length params then serialize_sql_value show_f64 (params ! (n - 1))
          else question # ds
      | None \<Rightarrow> question # ds, next)"
  by (auto simp: bind_value_def group_text_def Let_def split: option.split)

lemma rewrite_template:
  "tokens_ok ts \<Longrightarrow>
     rewrite placeholder_match (bind_value show_f64 params) next (template ts) =
       bind_tokens show_f64 params next ts"
proof (induction ts arbitrary: "next" rule: tokens_ok.induct)
  case (2 s ts)
  then show ?case by (simp add: template_def rewrite_plain)
next
  case (3 ts)
  then have m: "placeholder_match (question # template ts) = Some (1, [Some (0, 1), None])"
    by (simp add: placeholder_match_bare)
  have t: "template (Next # ts) = question # template ts" by (simp add: template_def)
  from 3 show ?case
    unfolding t rewrite.simps(2) m option.case prod.case bind_value_bare by simp
next
  case (4 ds ts)
  then have m: "placeholder_match (question # ds @ template ts) =
      Some (1 + length ds, [Some (0, 1 + length ds), Some (1, 1 + length ds)])"
    by (simp add: placeholder_match_numbered)
  have t: "template (Numbered ds # ts) = question # ds @ template ts" by (simp add: template_def)
  from 4 show ?case
    unfolding t rewrite.simps(2) m option.case prod.case bind_value_numbered by simp
qed (simp add: template_def)

lemma template_Cons: "template (t # ts) = token_text t @ template ts"
  by (simp add: template_def)

lemma starts_with_digit_rest: "\<not> starts_with_digit (dropWhile is_digit s)"
  by (induction s) (auto simp: starts_with_digit_def)

text \<open>Every text is a template.\<close>

lemma template_exists: "\<exists>ts. tokens_ok ts \<and> template ts = s"
proof (induction "length s" arbitrary: s rule: less_induct)
  case less
  show ?case
  proof (cases s)
    case Nil
    then show ?thesis by (intro exI [of _ "[]"]) (simp add: template_def)
  next
    case (Cons c cs)
    let ?ds = "takeWhile is_digit cs" and ?t = "dropWhile is_digit cs"
    show ?thesis
    proof (cases "c = question")
      case False
      obtain ts where "tokens_ok ts" "template ts = cs" using less [of cs] Cons by auto
      with False Cons show ?thesis by (intro exI [of _ "Plain [c] # ts"]) (simp add: template_def)
    next
      case True
      have "length ?t < length s"
        using length_dropWhile_le [of is_digit cs] unfolding Cons by (simp add: less_Suc_eq_le)
      then obtain ts where ts: "tokens_ok ts" "template ts = ?t" using less by blast
      have "\<not> starts_with_digit ?t" by (rule starts_with_digit_rest)
      moreover have "list_all is_digit ?ds" by (auto simp: list_all_iff dest: set_takeWhileD)
      moreover have "c # cs = question # ?ds @ ?t" using True by simp
      moreover have "template ts = cs" if "?ds = []"
        using that ts(2) takeWhile_dropWhile_id [of is_digit cs] by simp
      moreover have "?ds @ template ts = cs" using ts(2) by simp
      ultimately have "tokens_ok (if ?ds = [] then Next # ts else Numbered ?ds # ts) \<and>
          template (if ?ds = [] then Next # ts else Numbered ?ds # ts) = s"
        using ts(1) Cons True unfolding ts(2) [symmetric] by (cases "?ds = []") (simp_all add: template_Cons)
      then show ?thesis ..
    qed
  qed
qed

section \<open>Properties\<close>

text \<open>C17: Binding replaces exactly the placeholders of the template, in one pass: a bare \<open>?\<close> by
  the literal of the next parameter, \<open>?N\<close> by the literal of the N-th, both left alone when there
  is no such parameter; all other text is kept, and no inserted literal is scanned again. Every
  text is such a template.\<close>

theorem bind_template:
  assumes "tokens_ok ts" "captures bind_pattern (template ts) = bind_captures (template ts)"
  shows "bind_params captures show_f64 (template ts) params = bind_tokens show_f64 params 0 ts \<and>
    (\<forall>sql. \<exists>ts'. tokens_ok ts' \<and> template ts' = sql)"
proof -
  have "bind_params captures show_f64 (template ts) params =
      rewrite placeholder_match (bind_value show_f64 params) 0 (template ts)"
    using replace_all_matches [OF placeholder_match_ok, of "bind_value show_f64 params"] assms(2)
    by (simp add: bind_params_def bind_captures_def bind_value_shift)
  then show ?thesis using template_exists by (simp add: rewrite_template assms(1))
qed

theorem bind_template_witness:
  "bind_params (\<lambda>p s. bind_captures s) (\<lambda>f. []) ''VALUES (?,?2,?9,'?')'' [Text ''a?b'', Int' 7] =
     ''VALUES ('a?b',7,?9,'7')''"
proof -
  let ?ts = "[Plain ''VALUES ('', Next, Plain '','', Numbered ''2'', Plain '','', Numbered ''9'',
    Plain '','', Plain [single_quote], Next, Plain [single_quote], Plain '')'']"
  have ok: "tokens_ok ?ts"
    by code_simp
  have t: "template ?ts = ''VALUES (?,?2,?9,'?')''"
    by (simp add: template_def)
  have n: "parse_unsigned 18446744073709551616 ''2'' = Some 2"
    "parse_unsigned 18446744073709551616 ''9'' = Some 9"
    by (simp_all add: parse_unsigned_def to_digit_def)
  have i: "dec_of_i64 7 = ''7''"
    by code_simp
  show ?thesis
    using bind_template [OF ok, of "\<lambda>p s. bind_captures s" "\<lambda>f. []" "[Text ''a?b'', Int' 7]"]
    unfolding t by (simp add: n i double_quotes_def)
qed

end
