(* ===== verification/Client_Literals.thy ===== *)
theory Client_Literals
  imports Client_Binding
begin

text \<open>
  The literals of the reference client against the syntax of SQL, and its decoder against the
  values the server sends. The reader of SQL expressions is the engine's and a parameter, as are
  its conversion of decimals and the \<open>Display\<close> of \<open>f64\<close>; \<open>reads_literals\<close> and \<open>displays_f64\<close>
  state what is documented of them. \<open>read_literal\<close> is one such reader, for the witnesses.
\<close>

section \<open>The syntax of literals\<close>

text \<open>A quoted string after its opening quote; a doubled quote stands for one.\<close>

fun read_quoted :: "string \<Rightarrow> (string \<times> string) option" where
  "read_quoted [] = None"
| "read_quoted [c] = (if c = single_quote then Some ([], []) else None)"
| "read_quoted (c # d # ds) =
     (if c = single_quote then
        if d = single_quote then map_option (\<lambda>(s, r). (c # s, r)) (read_quoted ds)
        else Some ([], d # ds)
      else map_option (\<lambda>(s, r). (c # s, r)) (read_quoted (d # ds)))"

definition is_ident :: "char \<Rightarrow> bool" where
  "is_ident c \<longleftrightarrow> is_alnum c \<or> c = CHR ''_'' \<or> c = CHR ''$'' \<or> 128 \<le> (of_char c :: nat)"

text \<open>Where a token that starts like a word or a number ends.\<close>

definition token_ends :: "string \<Rightarrow> bool" where
  "token_ends s =
     (case s of [] \<Rightarrow> True | c # _ \<Rightarrow> \<not> is_ident c \<and> c \<noteq> CHR ''.'' \<and> c \<noteq> single_quote)"

text \<open>The digits of a BLOB literal, in pairs.\<close>

fun hex_pairs :: "string \<Rightarrow> u8 list option" where
  "hex_pairs [] = Some []"
| "hex_pairs [c] = None"
| "hex_pairs (c # d # s) =
     (case (to_digit 16 c, to_digit 16 d, hex_pairs s) of
        (Some x, Some y, Some bs) \<Rightarrow> Some (word_of_nat (16 * x + y) # bs)
      | _ \<Rightarrow> None)"

text \<open>The bit patterns of a double: its magnitude, and its negation.\<close>

definition f64_abs :: "f64 \<Rightarrow> f64" where
  "f64_abs f = f AND 0x7FFFFFFFFFFFFFFF"

definition f64_neg :: "f64 \<Rightarrow> f64" where
  "f64_neg f = f XOR 0x8000000000000000"

text \<open>A numeric literal with a fraction or an exponent.\<close>

definition real_literal :: "string \<Rightarrow> bool" where
  "real_literal s \<longleftrightarrow>
     (\<exists>ds c es. s = ds @ c # es \<and> ds \<noteq> [] \<and> es \<noteq> [] \<and> list_all is_digit ds \<and> list_all is_digit es \<and>
        (c = CHR ''.'' \<or> c = CHR ''e''))"

text \<open>
  What is documented of the engine that evaluates the expression at the start of a text and
  returns what follows, where \<open>to_f64\<close> is its conversion of unsigned decimals
  (\<open>lang_expr.html\<close>, Literal Values). An integer literal that does not fit 64 bits is a real,
  except that the smallest integer may be written; \<open>9e999\<close> overflows to infinity; the text of a
  statement ends at its first NUL, which leaves a string unterminated.
\<close>

definition reads_numbers :: "(string \<Rightarrow> (value_ref \<times> string) option) \<Rightarrow> (string \<Rightarrow> f64) \<Rightarrow> bool" where
  "reads_numbers read to_f64 \<longleftrightarrow>
     (\<forall>n rest. token_ends rest \<longrightarrow>
        read (dec_of_nat n @ rest) =
          Some (if n < 2 ^ 63 then Integer (word_of_nat n) else value_ref.Real (to_f64 (dec_of_nat n)), rest) \<and>
        read (''-'' @ dec_of_nat n @ rest) =
          Some (if n \<le> 2 ^ 63 then Integer (- word_of_nat n)
                else value_ref.Real (f64_neg (to_f64 (dec_of_nat n))), rest)) \<and>
     (\<forall>s rest. real_literal s \<and> token_ends rest \<longrightarrow>
        read (s @ rest) = Some (value_ref.Real (to_f64 s), rest) \<and>
        read (''-'' @ s @ rest) = Some (value_ref.Real (f64_neg (to_f64 s)), rest)) \<and>
     to_f64 ''9e999'' = f64_exponent"

definition reads_literals :: "(string \<Rightarrow> (value_ref \<times> string) option) \<Rightarrow> (string \<Rightarrow> f64) \<Rightarrow> bool" where
  "reads_literals read to_f64 \<longleftrightarrow>
     reads_numbers read to_f64 \<and>
     (\<forall>rest. token_ends rest \<longrightarrow> read (''NULL'' @ rest) = Some (value_ref.Null, rest)) \<and>
     (\<forall>s t rest. read_quoted s = Some (t, rest) \<longrightarrow>
        read (single_quote # s) =
          (if CHR 0x00 \<in> set t then None else Some (value_ref.Text (bytes_of_str t), rest))) \<and>
     (\<forall>s hex rest bs. read_quoted s = Some (hex, rest) \<and> hex_pairs hex = Some bs \<longrightarrow>
        read (CHR ''X'' # single_quote # s) = Some (value_ref.Blob bs, rest))"

text \<open>\<open>Display\<close> of a finite \<open>f64\<close>: a sign, digits, and a fraction if there is one; no exponent.\<close>

definition displays_f64 :: "(f64 \<Rightarrow> string) \<Rightarrow> bool" where
  "displays_f64 show_f64 \<longleftrightarrow>
     (\<forall>f. f64_is_finite f \<longrightarrow>
        (\<exists>n es. list_all is_digit es \<and>
           show_f64 f = (if f64_is_negative f then ''-'' else []) @ dec_of_nat n @
             (if es = [] then [] else CHR ''.'' # es)))"

text \<open>A text without its sign; the 64-bit integer a text denotes, if it denotes one.\<close>

definition unsigned_text :: "string \<Rightarrow> string" where
  "unsigned_text s = (if prefix ''-'' s then tl s else s)"

definition i64_text :: "string \<Rightarrow> i64 option" where
  "i64_text s =
     (if prefix ''-'' s then map_option (\<lambda>n. - word_of_nat n) (parse_unsigned (2 ^ 63 + 1) (tl s))
      else map_option word_of_nat (parse_unsigned (2 ^ 63) s))"

text \<open>The engine converts the text of a real parameter back to its magnitude.\<close>

definition converts_back :: "(string \<Rightarrow> f64) \<Rightarrow> (f64 \<Rightarrow> string) \<Rightarrow> param \<Rightarrow> bool" where
  "converts_back to_f64 show_f64 p \<longleftrightarrow>
     (\<forall>f. p = Real f \<longrightarrow> f64_is_finite f \<longrightarrow> to_f64 (unsigned_text (show_f64 f)) = f64_abs f)"

text \<open>The value a parameter stands for.\<close>

fun value_of_param :: "param \<Rightarrow> value_ref" where
  "value_of_param Null = value_ref.Null"
| "value_of_param (Bool b) = Integer (if b then 1 else 0)"
| "value_of_param (Int' n) = Integer n"
| "value_of_param (Real f) = value_ref.Real f"
| "value_of_param (Text s) = value_ref.Text (bytes_of_str s)"
| "value_of_param (Blob bs) = value_ref.Blob bs"

section \<open>Hexadecimal\<close>

lemma client_to_hex: "client_to_hex = to_hex"
  by (simp add: fun_eq_iff client_to_hex_def to_hex_def HEX_def)

lemma hex_val_HEX: "i < 16 \<Longrightarrow> hex_val (byte_of_char (HEX ! i)) = Some (word_of_nat i)"
proof -
  have "\<forall>i \<in> set [0..<16]. hex_val (byte_of_char (HEX ! i)) = Some (word_of_nat i)" by code_simp
  then show "i < 16 \<Longrightarrow> ?thesis" by simp
qed

lemma join_nibbles: "push_bit 4 (drop_bit 4 b) OR (b AND 0x0F) = (b :: u8)"
  by (rule bit_eqI) (auto simp: bit_simps and_0xF)

lemma decode_hex_to_hex: "decode_hex (bytes_of_str (to_hex bs)) = Some bs"
proof (induction bs)
  case (Cons b bs)
  have "hex_val (byte_of_char (HEX ! unat (drop_bit 4 b))) = Some (drop_bit 4 b)"
    "hex_val (byte_of_char (HEX ! unat (b AND 0x0F))) = Some (b AND 0x0F)"
    using hex_val_HEX nibbles_less [of b] by simp_all
  with Cons show ?case by (simp add: to_hex_def bytes_of_str_def join_nibbles)
qed (simp add: to_hex_def bytes_of_str_def)

lemma decode_blob_to_hex:
  "decode_blob_literal (''X'' @ [single_quote] @ to_hex bs @ [single_quote]) = Some bs"
proof -
  have l: "bytes_of_str (''X'' @ [single_quote] @ to_hex bs @ [single_quote]) =
      0x58 # 0x27 # bytes_of_str (to_hex bs) @ [0x27]"
    by (simp add: bytes_of_str_def byte_of_char_def)
  show ?thesis
    unfolding decode_blob_literal_def l
    by (simp add: Let_def length_to_hex decode_hex_to_hex)
qed

section \<open>Reading what the client writes\<close>

lemma read_quoted_other:
  "c \<noteq> single_quote \<Longrightarrow> t \<noteq> [] \<Longrightarrow>
     read_quoted (c # t) = map_option (\<lambda>(s, r). (c # s, r)) (read_quoted t)"
  by (cases t) simp_all

lemma read_quoted_doubled:
  "token_ends rest \<Longrightarrow> read_quoted (double_quotes s @ single_quote # rest) = Some (s, rest)"
proof (induction s)
  case Nil
  then show ?case by (cases rest) (auto simp: double_quotes_def token_ends_def)
next
  case (Cons c s)
  then show ?case
    by (cases "c = single_quote") (simp_all add: double_quotes_def read_quoted_other)
qed

lemma double_quotes_id: "single_quote \<notin> set s \<Longrightarrow> double_quotes s = s"
  by (induction s) (auto simp: double_quotes_def)

lemma no_quote_to_hex: "single_quote \<notin> set (to_hex bs)"
proof -
  have "single_quote \<notin> set HEX" by code_simp
  then show ?thesis using to_hex_chars by blast
qed

lemma to_digit_HEX: "i < 16 \<Longrightarrow> to_digit 16 (HEX ! i) = Some i"
proof -
  have "\<forall>i \<in> set [0..<16]. to_digit 16 (HEX ! i) = Some i" by code_simp
  then show "i < 16 \<Longrightarrow> ?thesis" by simp
qed

lemma nibbles_value: "16 * unat (drop_bit 4 b) + unat (b AND 0x0F) = unat (b :: u8)"
  by (simp add: and_0xF take_bit_eq_mod drop_bit_eq_div unat_div_distrib unat_mod_distrib)

lemma hex_pairs_to_hex: "hex_pairs (to_hex bs) = Some bs"
  by (induction bs) (simp_all add: to_hex_def to_digit_HEX nibbles_less nibbles_value)

lemma is_digit_code: "is_digit c \<longleftrightarrow> 48 \<le> (of_char c :: nat) \<and> (of_char c :: nat) \<le> 57"
  by (simp add: is_digit_def in_class_def less_eq_char_def)

lemma digits_dec_of_nat: "list_all is_digit (dec_of_nat n)"
  using dec_of_nat_digits by (auto simp: list_all_iff is_digit_code)

lemma token_ends_digit: "token_ends rest \<Longrightarrow> \<not> starts_with_digit rest"
  by (auto simp: token_ends_def starts_with_digit_def is_ident_def is_alnum_def is_digit_def
      in_class_def split: list.splits)

lemma digits_value_mono:
  "digits_value radix limit acc s = Some n \<Longrightarrow> limit \<le> limit' \<Longrightarrow> digits_value radix limit' acc s = Some n"
  by (induction s arbitrary: acc) (auto split: option.splits if_splits)

lemma parse_unsigned_mono:
  "parse_unsigned limit s = Some n \<Longrightarrow> limit \<le> limit' \<Longrightarrow> parse_unsigned limit' s = Some n"
  by (auto simp: parse_unsigned_def simp del: digits_value.simps dest: digits_value_mono
      split: list.splits if_splits)

lemma parse_unsigned_less:
  "parse_unsigned limit s = Some n \<Longrightarrow> 0 < limit \<Longrightarrow> n < limit"
  by (auto simp: parse_unsigned_def simp del: digits_value.simps dest: digits_value_limit
      split: list.splits if_splits)

lemma parse_unsigned_dec:
  "0 < limit \<Longrightarrow> parse_unsigned limit (dec_of_nat n) = (if n < limit then Some n else None)"
proof (cases "parse_unsigned limit (dec_of_nat n)")
  case (Some k)
  moreover assume "0 < limit"
  ultimately have "k < limit" using parse_unsigned_less by blast
  moreover have "parse_unsigned (max limit (Suc n)) (dec_of_nat n) = Some k"
    using parse_unsigned_mono [OF Some] by simp
  then have "k = n" using parse_unsigned_dec_of_nat [of n "max limit (Suc n)"] by simp
  ultimately show ?thesis using Some by simp
qed (use parse_unsigned_dec_of_nat [of n limit] in \<open>auto split: if_splits\<close>)

lemma parse_unsigned_fraction:
  "es \<noteq> [] \<Longrightarrow> parse_unsigned limit (dec_of_nat n @ CHR ''.'' # es) = None"
proof -
  obtain c cs where s: "dec_of_nat n = c # cs" using dec_of_nat_nonempty by (meson neq_Nil_conv)
  have "c \<noteq> CHR ''+''" using dec_of_nat_digits [of c n] s by auto
  moreover have "to_digit 10 CHR ''.'' = None" by code_simp
  ultimately show ?thesis
    using s digits_value_append [of 10 limit 0 "c # cs" "CHR ''.'' # es"]
    by (auto simp: parse_unsigned_def split: Option.bind_splits)
qed

lemma not_minus_dec: "prefix ''-'' (dec_of_nat n @ s) \<longleftrightarrow> False"
proof -
  obtain c cs where s: "dec_of_nat n = c # cs" using dec_of_nat_nonempty by (meson neq_Nil_conv)
  then have "c \<noteq> CHR ''-''" using dec_of_nat_digits [of c n] by auto
  with s show ?thesis by simp
qed

section \<open>Doubles\<close>

lemma f64_abs_mask: "f64_abs f = take_bit 63 f"
proof -
  have "(0x7FFFFFFFFFFFFFFF :: f64) = mask 63" by code_simp
  then show ?thesis by (simp add: f64_abs_def take_bit_eq_mask)
qed

lemma f64_neg_flip: "f64_neg f = flip_bit 63 f"
proof -
  have "(0x8000000000000000 :: f64) = push_bit 63 1" by code_simp
  then show ?thesis by (simp add: f64_neg_def flip_bit_eq_xor)
qed

lemma f64_of_abs: "f = (if f64_is_negative f then f64_neg (f64_abs f) else f64_abs f)"
proof (rule bit_eqI)
  fix n
  assume "possible_bit TYPE(f64) n"
  then show "bit f n = bit (if f64_is_negative f then f64_neg (f64_abs f) else f64_abs f) n"
    by (cases "n = 63")
      (auto simp: f64_abs_mask f64_neg_flip f64_is_negative_def bit_flip_bit_iff bit_take_bit_iff)
qed

lemma f64_abs_infinite: "f64_is_infinite f \<longleftrightarrow> f64_abs f = f64_exponent"
  by (simp add: f64_is_infinite_def f64_abs_def)

lemma f64_cases: "f64_is_nan f \<or> f64_is_infinite f \<or> f64_is_finite f"
proof -
  have "(0x7FFFFFFFFFFFFFFF :: f64) = f64_exponent OR 0x000FFFFFFFFFFFFF" by code_simp
  then have "f AND 0x7FFFFFFFFFFFFFFF = (f AND f64_exponent) OR (f AND 0x000FFFFFFFFFFFFF)"
    by (simp only: bit.conj_disj_distrib)
  then show ?thesis by (auto simp: f64_is_nan_def f64_is_infinite_def f64_is_finite_def)
qed

lemma f64_finite_cases: "f64_is_finite f \<Longrightarrow> \<not> f64_is_nan f \<and> \<not> f64_is_infinite f"
proof -
  assume f: "f64_is_finite f"
  have "\<not> f64_is_infinite f"
  proof
    assume "f64_is_infinite f"
    then have "(f AND 0x7FFFFFFFFFFFFFFF) AND f64_exponent = f64_exponent"
      by (simp add: f64_is_infinite_def)
    moreover have "0x7FFFFFFFFFFFFFFF AND f64_exponent = f64_exponent" by (simp add: f64_exponent_def)
    ultimately have "f AND f64_exponent = f64_exponent" by (simp add: and.assoc)
    with f show False by (simp add: f64_is_finite_def)
  qed
  with f show ?thesis by (simp add: f64_is_finite_def f64_is_nan_def)
qed

section \<open>What the engine reads\<close>

lemma reads_dec:
  assumes "reads_numbers read to_f64" "token_ends rest"
  shows "read (dec_of_nat n @ rest) =
      Some (if n < 2 ^ 63 then Integer (word_of_nat n) else value_ref.Real (to_f64 (dec_of_nat n)), rest)"
    "read (CHR ''-'' # dec_of_nat n @ rest) =
      Some (if n \<le> 2 ^ 63 then Integer (- word_of_nat n)
            else value_ref.Real (f64_neg (to_f64 (dec_of_nat n))), rest)"
  using assms unfolding reads_numbers_def by (simp_all only: append.simps)

lemma reads_real:
  assumes "reads_numbers read to_f64" "token_ends rest" "real_literal s"
  shows "read (s @ rest) = Some (value_ref.Real (to_f64 s), rest)"
    "read (CHR ''-'' # s @ rest) = Some (value_ref.Real (f64_neg (to_f64 s)), rest)"
  using assms unfolding reads_numbers_def by (simp_all only: append.simps)

lemma reads_i64:
  assumes "reads_numbers read to_f64" "token_ends rest"
  shows "read (dec_of_i64 n @ rest) = Some (Integer n, rest)"
proof (cases "sint n < 0")
  case True
  have "- (2 ^ 63) \<le> sint n" using sint_ge [of n] by simp
  then have "nat (- sint n) \<le> 2 ^ 63" by simp
  moreover have "- word_of_nat (nat (- sint n)) = n"
    using True by (simp add: of_nat_nat)
  ultimately show ?thesis
    using True reads_dec(2) [OF assms, of "nat (- sint n)"] by (simp add: dec_of_i64_def)
next
  case False
  have "sint n < 2 ^ 63" using sint_lt [of n] by simp
  then have "nat (sint n) < 2 ^ 63" using False by simp
  then show ?thesis
    using False reads_dec(1) [OF assms, of "nat (sint n)"] by (simp add: dec_of_i64_def of_nat_nat)
qed

text \<open>A finite real, by the text that stands for it.\<close>

lemma reads_finite:
  assumes r: "reads_numbers read to_f64" "token_ends rest" and d: "displays_f64 show_f64"
    and f: "f64_is_finite f" "to_f64 (unsigned_text (show_f64 f)) = f64_abs f"
  shows "read (show_f64 f @ rest) =
    Some (case i64_text (show_f64 f) of Some k \<Rightarrow> Integer k | None \<Rightarrow> value_ref.Real f, rest)"
proof -
  obtain n es where t: "list_all is_digit es" "show_f64 f = (if f64_is_negative f then ''-'' else []) @
      dec_of_nat n @ (if es = [] then [] else CHR ''.'' # es)"
    using d f(1) by (auto simp: displays_f64_def)
  have l: "real_literal (dec_of_nat n @ CHR ''.'' # es)" if "es \<noteq> []"
    using that t(1) digits_dec_of_nat [of n] dec_of_nat_nonempty [of n] unfolding real_literal_def by blast
  note s = f64_of_abs [of f] f(2) t(2)
  show ?thesis
  proof (cases "es = []")
    case True
    then show ?thesis
      using s reads_dec [OF r, of n]
      by (cases "f64_is_negative f")
        (auto simp: i64_text_def unsigned_text_def parse_unsigned_dec not_minus_dec [of n "[]", simplified])
  next
    case False
    then show ?thesis
      using s reads_real [OF r l [OF False]]
      by (cases "f64_is_negative f")
        (auto simp: i64_text_def unsigned_text_def parse_unsigned_fraction not_minus_dec)
  qed
qed

lemma reads_infinite:
  assumes r: "reads_numbers read to_f64" "token_ends rest" and f: "f64_is_infinite f"
  shows "read ((if \<not> f64_is_negative f then ''9e999'' else ''-9e999'') @ rest) =
    Some (value_ref.Real f, rest)"
proof -
  have l: "real_literal ''9e999''"
    unfolding real_literal_def
    by (rule exI [of _ "''9''"], rule exI [of _ "CHR ''e''"], rule exI [of _ "''999''"]) code_simp
  have "to_f64 ''9e999'' = f64_exponent" using r(1) by (simp add: reads_numbers_def)
  then show ?thesis
    using reads_real [OF r l] f64_of_abs [of f] f by (auto simp: f64_abs_infinite split: if_splits)
qed

lemma reads_text:
  assumes "reads_literals read to_f64" "token_ends rest"
  shows "read (single_quote # double_quotes s @ single_quote # rest) =
    (if CHR 0x00 \<in> set s then None else Some (value_ref.Text (bytes_of_str s), rest))"
  using assms(1) read_quoted_doubled [OF assms(2), of s] unfolding reads_literals_def by blast

lemma reads_blob:
  assumes "reads_literals read to_f64" "token_ends rest"
  shows "read (CHR ''X'' # single_quote # client_to_hex bs @ single_quote # rest) =
    Some (value_ref.Blob bs, rest)"
proof -
  have "read_quoted (to_hex bs @ single_quote # rest) = Some (to_hex bs, rest)"
    using read_quoted_doubled [OF assms(2), of "to_hex bs"] no_quote_to_hex [of bs]
    by (simp add: double_quotes_id)
  then show ?thesis
    using assms(1) hex_pairs_to_hex [of bs] unfolding reads_literals_def client_to_hex by blast
qed

lemma reads_serialized:
  assumes r: "reads_literals read to_f64" "token_ends rest" and d: "displays_f64 show_f64"
    and p: "converts_back to_f64 show_f64 p"
  shows "read (serialize_sql_value show_f64 p @ rest) =
    (case p of
       Real f \<Rightarrow>
         Some (if f64_is_nan f then value_ref.Null
               else if f64_is_infinite f then value_ref.Real f
               else (case i64_text (show_f64 f) of Some k \<Rightarrow> Integer k | None \<Rightarrow> value_ref.Real f), rest)
     | Text s \<Rightarrow>
         if CHR 0x00 \<in> set s then None else Some (value_ref.Text (bytes_of_str s), rest)
     | _ \<Rightarrow> Some (value_of_param p, rest))"
proof -
  have n: "reads_numbers read to_f64" and null: "read (''NULL'' @ rest) = Some (value_ref.Null, rest)"
    using r by (simp_all add: reads_literals_def)
  show ?thesis
  proof (cases p)
    case (Bool b)
    have "dec_of_i64 1 = ''1''" "dec_of_i64 0 = ''0''" by code_simp+
    with reads_i64 [OF n r(2), of 1] reads_i64 [OF n r(2), of 0] Bool show ?thesis by (cases b) simp_all
  next
    case (Real f)
    then show ?thesis
      using f64_cases [of f] reads_infinite [OF n r(2), of f] null reads_finite [OF n r(2) d, of f] p
      by (auto simp: converts_back_def)
  qed (use null reads_i64 [OF n r(2)] reads_text [OF r] reads_blob [OF r] in simp_all)
qed

section \<open>Properties\<close>

section \<open>A reader\<close>

text \<open>One engine that behaves as documented, for the witnesses.\<close>

definition read_number :: "(string \<Rightarrow> f64) \<Rightarrow> bool \<Rightarrow> string \<Rightarrow> (value_ref \<times> string) option" where
  "read_number to_f64 negative s =
     (let ds = takeWhile is_digit s; r = dropWhile is_digit s;
          real = (\<lambda>t. value_ref.Real (if negative then f64_neg (to_f64 t) else to_f64 t));
          whole = Some (case parse_unsigned (2 ^ 63 + (if negative then 1 else 0)) ds of
              Some n \<Rightarrow> Integer (if negative then - word_of_nat n else word_of_nat n)
            | None \<Rightarrow> real ds, r)
      in case r of
           [] \<Rightarrow> whole
         | c # t \<Rightarrow>
             if (c = CHR ''.'' \<or> c = CHR ''e'') \<and> starts_with_digit t
             then Some (real (ds @ c # takeWhile is_digit t), dropWhile is_digit t)
             else whole)"

definition read_literal :: "(string \<Rightarrow> f64) \<Rightarrow> string \<Rightarrow> (value_ref \<times> string) option" where
  "read_literal to_f64 s =
     (case s of
        [] \<Rightarrow> None
      | c # r \<Rightarrow>
          if c = single_quote
          then Option.bind (read_quoted r) (\<lambda>(t, r).
            if CHR 0x00 \<in> set t then None else Some (value_ref.Text (bytes_of_str t), r))
          else if is_digit c then read_number to_f64 False s
          else if c = CHR ''-'' then read_number to_f64 True r
          else if prefix (''X'' @ [single_quote]) s then
            Option.bind (read_quoted (tl r)) (\<lambda>(hex, r).
              map_option (\<lambda>bs. (value_ref.Blob bs, r)) (hex_pairs hex))
          else if prefix ''NULL'' s \<and> token_ends (drop 4 s) then Some (value_ref.Null, drop 4 s)
          else None)"

lemma digits_then:
  assumes "list_all is_digit ds" "\<not> starts_with_digit rest"
  shows "takeWhile is_digit (ds @ rest) = ds" "dropWhile is_digit (ds @ rest) = rest"
proof -
  show "takeWhile is_digit (ds @ rest) = ds" by (rule takeWhile_digits [OF assms])
  then show "dropWhile is_digit (ds @ rest) = rest"
    by (metis same_append_eq takeWhile_dropWhile_id)
qed

lemma read_number_whole:
  assumes "token_ends rest"
  shows "read_number to_f64 negative (dec_of_nat n @ rest) =
    Some (if n < 2 ^ 63 + (if negative then 1 else 0)
          then Integer (if negative then - word_of_nat n else word_of_nat n)
          else value_ref.Real (if negative then f64_neg (to_f64 (dec_of_nat n)) else to_f64 (dec_of_nat n)), rest)"
proof -
  note d = digits_then [OF digits_dec_of_nat [of n] token_ends_digit [OF assms]]
  have e: "\<not> (c = CHR ''.'' \<or> c = CHR ''e'')" if "rest = c # t" for c t
    using assms that
    by (auto simp: token_ends_def is_ident_def is_alnum_def in_class_def less_eq_char_def)
  have v: "parse_unsigned (2 ^ 63 + (if negative then 1 else 0)) (dec_of_nat n) =
      (if n < 2 ^ 63 + (if negative then 1 else 0) then Some n else None)"
    by (rule parse_unsigned_dec) simp
  show ?thesis
    using e unfolding read_number_def d Let_def v by (cases rest) auto
qed

lemma read_number_real:
  assumes "real_literal s" "token_ends rest"
  shows "read_number to_f64 negative (s @ rest) =
    Some (value_ref.Real (if negative then f64_neg (to_f64 s) else to_f64 s), rest)"
proof -
  obtain ds c es where s: "s = ds @ c # es" "es \<noteq> []" "list_all is_digit ds" "list_all is_digit es"
    "c = CHR ''.'' \<or> c = CHR ''e''"
    using assms(1) unfolding real_literal_def by blast
  have "\<not> is_digit c" using s(5) by (auto simp: is_digit_code)
  then have "\<not> starts_with_digit (c # es @ rest)" by (simp add: starts_with_digit_def)
  note d = digits_then [OF s(3) this] digits_then [OF s(4) token_ends_digit [OF assms(2)]]
  have "starts_with_digit (es @ rest)"
    using s(2,4) by (cases es) (simp_all add: starts_with_digit_def)
  with d s(1,5) show ?thesis by (simp add: read_number_def Let_def)
qed

lemma read_literal_digit: "starts_with_digit s \<Longrightarrow> read_literal to_f64 s = read_number to_f64 False s"
  by (auto simp: starts_with_digit_def read_literal_def is_digit_code split: list.splits)

lemma read_literal_minus: "read_literal to_f64 (CHR ''-'' # s) = read_number to_f64 True s"
  by (simp add: read_literal_def is_digit_code)

lemma starts_dec: "starts_with_digit (dec_of_nat n @ s)"
  using digits_dec_of_nat [of n] dec_of_nat_nonempty [of n]
  by (cases "dec_of_nat n") (simp_all add: starts_with_digit_def)

lemma starts_real: "real_literal t \<Longrightarrow> starts_with_digit (t @ s)"
  by (auto simp: real_literal_def starts_with_digit_def neq_Nil_conv)

lemma read_literal_numbers:
  assumes "to_f64 ''9e999'' = f64_exponent"
  shows "reads_numbers (read_literal to_f64) to_f64"
  unfolding reads_numbers_def
  by (simp add: assms read_literal_minus read_literal_digit starts_dec starts_real read_number_whole
      read_number_real less_Suc_eq_le)

lemma read_literal_reads:
  assumes "to_f64 ''9e999'' = f64_exponent"
  shows "reads_literals (read_literal to_f64) to_f64"
  unfolding reads_literals_def
proof (intro conjI allI impI)
  show "reads_numbers (read_literal to_f64) to_f64" by (rule read_literal_numbers) (rule assms)
qed (auto simp: read_literal_def is_digit_code)

text \<open>
  The display and the conversion of the witnesses: right for 3.0 and 3.5, and otherwise any text
  that can be read back, the digits of the bit pattern with a fraction.
\<close>

definition demo_show_f64 :: "f64 \<Rightarrow> string" where
  "demo_show_f64 f =
     (if f64_is_negative f then ''-'' else []) @
     (if f64_abs f = 0x4008000000000000 then ''3''
      else if f64_abs f = 0x400C000000000000 then ''3.5''
      else dec_of_nat (unat (f64_abs f)) @ ''.25'')"

definition demo_to_f64 :: "string \<Rightarrow> f64" where
  "demo_to_f64 s =
     (if s = ''9e999'' then f64_exponent
      else if s = ''3'' then 0x4008000000000000
      else if s = ''3.5'' then 0x400C000000000000
      else case parse_unsigned (2 ^ 64) (takeWhile is_digit s) of Some n \<Rightarrow> word_of_nat n | None \<Rightarrow> 0)"

lemma demo_shown:
  "unsigned_text (demo_show_f64 f) =
     (if f64_abs f = 0x4008000000000000 then ''3''
      else if f64_abs f = 0x400C000000000000 then ''3.5''
      else dec_of_nat (unat (f64_abs f)) @ ''.25'')"
  using not_minus_dec [of "unat (f64_abs f)" "''.25''"]
  by (simp add: unsigned_text_def demo_show_f64_def)

lemma demo_displays: "displays_f64 demo_show_f64"
proof -
  have d: "dec_of_nat 3 = ''3''" "list_all is_digit ''5''" "list_all is_digit ''25''" by code_simp+
  have "\<exists>n es. list_all is_digit es \<and> t = dec_of_nat n @ (if es = [] then [] else CHR ''.'' # es)"
    if "t = ''3'' \<or> t = ''3.5'' \<or> t = dec_of_nat m @ ''.25''" for t m
    using that d(1)
  proof (elim disjE)
    show ?thesis if "t = ''3''" using that d by (intro exI [of _ 3] exI [of _ "[]"]) simp
    show ?thesis if "t = ''3.5''" using that d by (intro exI [of _ 3] exI [of _ "''5''"]) simp
    show ?thesis if "t = dec_of_nat m @ ''.25''"
      using that d by (intro exI [of _ m] exI [of _ "''25''"]) simp
  qed
  then show ?thesis by (simp add: displays_f64_def demo_show_f64_def)
qed

lemma demo_parses: "demo_to_f64 (unsigned_text (demo_show_f64 f)) = f64_abs f"
proof -
  let ?t = "dec_of_nat (unat (f64_abs f)) @ ''.25''"
  have "last ?t = CHR ''5''" "last (butlast ?t) = CHR ''2''" by (simp_all add: butlast_append)
  then have n: "?t \<noteq> ''9e999''" "?t \<noteq> ''3''" "?t \<noteq> ''3.5''" by auto
  have "\<not> is_digit CHR ''.''" by code_simp
  then have "takeWhile is_digit ?t = dec_of_nat (unat (f64_abs f))"
    by (intro digits_then(1) digits_dec_of_nat) (simp add: starts_with_digit_def)
  moreover have "parse_unsigned (2 ^ 64) (dec_of_nat (unat (f64_abs f))) = Some (unat (f64_abs f))"
    using unsigned_less [of "f64_abs f"] by (intro parse_unsigned_dec_of_nat) simp
  ultimately have "demo_to_f64 ?t = f64_abs f"
    unfolding demo_to_f64_def if_not_P [OF n(1)] if_not_P [OF n(2)] if_not_P [OF n(3)] by simp
  then show ?thesis unfolding demo_shown by (simp add: demo_to_f64_def)
qed

lemma demo_converts_back: "converts_back demo_to_f64 demo_show_f64 p"
  by (simp add: converts_back_def demo_parses)

lemma demo_whole: "i64_text (demo_show_f64 0x4008000000000000) = Some 3"
proof -
  have s: "demo_show_f64 0x4008000000000000 = dec_of_nat 3" by code_simp
  show ?thesis unfolding s i64_text_def
    by (simp add: parse_unsigned_dec not_minus_dec [of 3 "[]", simplified])
qed

lemma demo_reads: "reads_literals (read_literal demo_to_f64) demo_to_f64"
  by (rule read_literal_reads) (simp add: demo_to_f64_def)

section \<open>Properties\<close>

text \<open>C18: No parameter breaks out of its literal. For every parameter, an engine that reads numbers,
  strings and BLOBs as documented takes exactly the client's literal and goes on after it, with a
  text (quotes included), a BLOB, an integer or NULL as its value. A text with a NUL is the one that
  is not read: the statement ends inside it. A NaN is read as NULL, an infinity as itself, and a
  finite real that the engine converts back from its text as itself, unless the text is that of an
  integer that fits 64 bits (\<open>3\<close> for 3.0, \<open>-0\<close>): then it is that INTEGER.\<close>

theorem literal_reads_back:
  assumes "reads_literals read to_f64" "token_ends rest" "displays_f64 show_f64"
    and "converts_back to_f64 show_f64 p"
  shows "read (serialize_sql_value show_f64 p @ rest) =
    (case p of
       Real f \<Rightarrow>
         Some (if f64_is_nan f then value_ref.Null
               else if f64_is_infinite f then value_ref.Real f
               else (case i64_text (show_f64 f) of Some k \<Rightarrow> Integer k | None \<Rightarrow> value_ref.Real f), rest)
     | Text s \<Rightarrow>
         if CHR 0x00 \<in> set s then None else Some (value_ref.Text (bytes_of_str s), rest)
     | _ \<Rightarrow> Some (value_of_param p, rest))"
  using assms by (rule reads_serialized)

theorem literal_reads_back_witness:
  "read_literal demo_to_f64 (serialize_sql_value demo_show_f64 (Text (''O'' @ [single_quote] @ ''; DROP'')) @ '');'') =
     Some (value_ref.Text (bytes_of_str (''O'' @ [single_quote] @ ''; DROP'')), '');'') \<and>
   read_literal demo_to_f64 (serialize_sql_value demo_show_f64 (Text [CHR 0x00]) @ '');'') = None \<and>
   read_literal demo_to_f64 (serialize_sql_value demo_show_f64 (Real 0xC00C000000000000) @ '');'') =
     Some (value_ref.Real 0xC00C000000000000, '');'') \<and>
   read_literal demo_to_f64 (serialize_sql_value demo_show_f64 (Real 0x4008000000000000) @ '');'') =
     Some (Integer 3, '');'')"
proof -
  have e: "token_ends '');''" by code_simp
  have k: "i64_text (demo_show_f64 0xC00C000000000000) = None"
  proof -
    have s: "demo_show_f64 0xC00C000000000000 = CHR ''-'' # dec_of_nat 3 @ CHR ''.'' # ''5''" by code_simp
    show ?thesis unfolding s i64_text_def by (simp add: parse_unsigned_fraction)
  qed
  have f: "\<not> f64_is_nan 0xC00C000000000000 \<and> \<not> f64_is_infinite 0xC00C000000000000"
    "\<not> f64_is_nan 0x4008000000000000 \<and> \<not> f64_is_infinite 0x4008000000000000"
    by code_simp+
  note r = literal_reads_back [OF demo_reads e demo_displays demo_converts_back]
  show ?thesis
    using r [of "Text (''O'' @ [single_quote] @ ''; DROP'')"] r [of "Text [CHR 0x00]"]
      r [of "Real 0xC00C000000000000"] r [of "Real 0x4008000000000000"] f k demo_whole
    by (simp del: serialize_sql_value.simps)
qed

end
