(* ===== verification/Client_Result.thy ===== *)
theory Client_Result
  imports Client_Literals Handler
begin

text \<open>
  The result wrappers of the reference client (\<open>src/examples/rust/client.rs\<close>): \<open>Row\<close> and
  \<open>QueryResult\<close>. The conversion of a JSON number to an \<open>f64\<close> and the printer of
  \<open>serde_json\<close> are parameters; \<open>rust_f64\<close> states what is documented of the first.
\<close>

section \<open>Rows\<close>

text \<open>The newtype \<open>Row\<close> of a JSON object.\<close>

datatype row = Row "(string \<times> json) list"

fun row_map :: "row \<Rightarrow> (string \<times> json) list" where
  "row_map (Row m) = m"

definition row_get :: "row \<Rightarrow> string \<Rightarrow> json option" where
  "row_get r column = map_of (row_map r) column"

definition row_get_i64 :: "row \<Rightarrow> string \<Rightarrow> i64 option" where
  "row_get_i64 r column = Option.bind (map_of (row_map r) column) as_i64"

text \<open>\<open>Value::as_f64\<close>, with the conversion of its number.\<close>

fun as_f64 :: "(number \<Rightarrow> f64 option) \<Rightarrow> json \<Rightarrow> f64 option" where
  "as_f64 number_as_f64 (Number n) = number_as_f64 n"
| "as_f64 number_as_f64 v = None"

definition row_get_f64 :: "(number \<Rightarrow> f64 option) \<Rightarrow> row \<Rightarrow> string \<Rightarrow> f64 option" where
  "row_get_f64 number_as_f64 r column = Option.bind (map_of (row_map r) column) (as_f64 number_as_f64)"

definition row_get_str :: "row \<Rightarrow> string \<Rightarrow> string option" where
  "row_get_str r column = Option.bind (map_of (row_map r) column) as_str"

definition row_is_null :: "row \<Rightarrow> string \<Rightarrow> bool" where
  "row_is_null r column =
     (case map_of (row_map r) column of Some json.Null \<Rightarrow> True | None \<Rightarrow> True | Some _ \<Rightarrow> False)"

definition row_blob :: "row \<Rightarrow> string \<Rightarrow> u8 list option" where
  "row_blob r column =
     Option.bind (Option.bind (map_of (row_map r) column) as_str) decode_blob_literal"

section \<open>Query results\<close>

record query_response =
  payload :: json

definition new_result :: "json \<Rightarrow> query_response" where
  "new_result p = \<lparr>payload = p\<rparr>"

text \<open>\<open>value.get(key).and_then(Value::as_array)\<close>\<close>

definition get_array :: "json \<Rightarrow> string \<Rightarrow> json list option" where
  "get_array v k = Option.bind (value_get v k) as_array"

text \<open>The strings of an array, the other elements left out.\<close>

definition array_strings :: "json \<Rightarrow> string \<Rightarrow> string list" where
  "array_strings v k = (case get_array v k of Some a \<Rightarrow> List.map_filter as_str a | None \<Rightarrow> [])"

definition result_columns :: "query_response \<Rightarrow> string list" where
  "result_columns r = array_strings (payload r) ''columns''"

definition result_data :: "query_response \<Rightarrow> json list" where
  "result_data r = (case get_array (payload r) ''data'' of Some a \<Rightarrow> a | None \<Rightarrow> [])"

definition result_rows :: "query_response \<Rightarrow> row list" where
  "result_rows r = List.map_filter (\<lambda>v. map_option Row (as_object v)) (result_data r)"

definition result_len :: "query_response \<Rightarrow> nat" where
  "result_len r = length (result_data r)"

definition result_is_empty :: "query_response \<Rightarrow> bool" where
  "result_is_empty r \<longleftrightarrow> result_data r = []"

definition result_first :: "query_response \<Rightarrow> row option" where
  "result_first r = (case result_rows r of [] \<Rightarrow> None | x # _ \<Rightarrow> Some x)"

definition result_scalar :: "query_response \<Rightarrow> json option" where
  "result_scalar r =
     Option.bind (case result_data r of [] \<Rightarrow> None | v # _ \<Rightarrow> Some v) (\<lambda>v.
     Option.bind (as_object v) (\<lambda>first.
     Option.bind
       (case result_columns r of
          k # _ \<Rightarrow> Some k
        | [] \<Rightarrow> (case first of [] \<Rightarrow> None | (k, _) # _ \<Rightarrow> Some k))
       (\<lambda>key. map_of first key)))"

definition result_scalar_i64 :: "query_response \<Rightarrow> i64 option" where
  "result_scalar_i64 r = Option.bind (result_scalar r) as_i64"

definition result_server_error :: "(json \<Rightarrow> string) \<Rightarrow> query_response \<Rightarrow> string option" where
  "result_server_error show_json r =
     (case as_object (payload r) of
        None \<Rightarrow> None
      | Some obj \<Rightarrow>
          (case Option.bind (map_of obj ''error_message'') as_str of
             Some msg \<Rightarrow> Some msg
           | None \<Rightarrow>
               if map_of obj ''error_code'' \<noteq> None \<or> map_of obj ''generic_error'' \<noteq> None
               then Some (show_json (payload r))
               else None))"

section \<open>Lemmas\<close>

lemma decode_blob_quoted: "decode_blob_literal (CHR ''X'' # single_quote # to_hex bs @ [single_quote]) = Some bs"
  using decode_blob_to_hex [of bs] by simp

lemma map_filter_strings: "List.map_filter as_str (map String ss) = ss"
  by (induction ss) (simp_all add: List.map_filter_simps)

lemma map_filter_objects:
  "List.map_filter (\<lambda>v. map_option Row (as_object v)) (map Object objs) = map Row objs"
  by (induction objs) (simp_all add: List.map_filter_simps)

lemma get_array_json_object:
  "get_array (json_object kvs) k = Option.bind (map_of (rev kvs) k) as_array"
  by (simp add: get_array_def)

lemma map_of_json_object: "as_object (json_object kvs) = Some (obj_of_list kvs)"
  by (simp add: json_object_def)

section \<open>Reals\<close>

text \<open>
  What is documented of the reals of the standard library and of \<open>serde_json\<close>: the text of a
  double is parsed back to it, an integer is converted to the double its decimal text is parsed
  to (the nearest), and a float is itself.
\<close>

definition rust_f64 :: "(f64 \<Rightarrow> string) \<Rightarrow> (string \<Rightarrow> f64) \<Rightarrow> (number \<Rightarrow> f64 option) \<Rightarrow> bool" where
  "rust_f64 show_f64 parse_f64 number_as_f64 \<longleftrightarrow>
     displays_f64 show_f64 \<and>
     (\<forall>f. f64_is_finite f \<longrightarrow> parse_f64 (unsigned_text (show_f64 f)) = f64_abs f) \<and>
     (\<forall>f. number_as_f64 (Float f) = Some f) \<and>
     (\<forall>n. number_as_f64 (PosInt n) = Some (parse_f64 (dec_of_nat (unat n)))) \<and>
     (\<forall>n. number_as_f64 (NegInt n) = Some (f64_neg (parse_f64 (dec_of_nat (nat (- sint n))))))"

lemma dec_0: "dec_of_nat 0 = ''0''"
  by code_simp

lemma i64_text_shown:
  assumes "displays_f64 show_f64" "f64_is_finite f" "i64_text (show_f64 f) = Some k"
  obtains n where "show_f64 f = (if f64_is_negative f then ''-'' else []) @ dec_of_nat n"
    "n < 2 ^ 63 + (if f64_is_negative f then 1 else 0)"
    "k = (if f64_is_negative f then - word_of_nat n else word_of_nat n)"
proof -
  obtain n es where t: "show_f64 f = (if f64_is_negative f then ''-'' else []) @
      dec_of_nat n @ (if es = [] then [] else CHR ''.'' # es)"
    using assms(1,2) by (auto simp: displays_f64_def)
  have "es = []"
    using t assms(3) parse_unsigned_fraction [of es _ n]
    by (auto simp: i64_text_def not_minus_dec split: if_splits)
  then show thesis
    using t assms(3) not_minus_dec [of n "[]"]
    by (intro that [of n]) (auto simp: i64_text_def parse_unsigned_dec split: if_splits)
qed

lemma sint_small: "- (2 ^ 63) \<le> x \<Longrightarrow> x < 2 ^ 63 \<Longrightarrow> sint (word_of_int x :: i64) = x"
  by (simp only: sint_sbintrunc') (rule signed_take_bit_int_eq_self, simp_all)

lemma word_of_nat_nonneg:
  assumes "n < 2 ^ 63"
  shows "0 \<le> sint (word_of_nat n :: i64)" "unat (word_of_nat n :: i64) = n"
  using sint_small [of "int n"] assms
  by (simp_all add: unsigned_of_nat take_bit_nat_eq_self)

lemma minus_word_of_nat: "n \<le> 2 ^ 63 \<Longrightarrow> sint (- word_of_nat n :: i64) = - int n"
  using sint_small [of "- int n"] by simp

lemma shown_integer_as_f64:
  assumes "rust_f64 show_f64 parse_f64 number_as_f64" "f64_is_finite f" "i64_text (show_f64 f) = Some k"
  shows "as_f64 number_as_f64 (json_of_i64 k) = Some (if show_f64 f = ''-0'' then f64_abs f else f)"
proof -
  have d: "displays_f64 show_f64" using assms(1) by (simp add: rust_f64_def)
  obtain n where t: "show_f64 f = (if f64_is_negative f then ''-'' else []) @ dec_of_nat n"
    and n: "n < 2 ^ 63 + (if f64_is_negative f then 1 else 0)"
    and k: "k = (if f64_is_negative f then - word_of_nat n else word_of_nat n)"
    using i64_text_shown [OF d assms(2,3)] .
  have p: "parse_f64 (dec_of_nat n) = f64_abs f"
    using assms(1,2) t not_minus_dec [of n "[]"]
    by (auto simp: rust_f64_def unsigned_text_def split: if_splits)
  have z: "dec_of_nat n = ''0'' \<longleftrightarrow> n = 0"
    using parse_unsigned_dec [of "Suc n" n] parse_unsigned_dec [of "Suc n" 0] dec_0 by auto
  show ?thesis
  proof (cases "f64_is_negative f \<and> n \<noteq> 0")
    case True
    then have "sint k = - int n" using k n minus_word_of_nat [of n] by simp
    then show ?thesis
      using True assms(1) p z t f64_of_abs [of f] by (simp add: json_of_i64_def rust_f64_def)
  next
    case False
    then have "k = word_of_nat n" "n < 2 ^ 63" using k n by (auto split: if_splits)
    with word_of_nat_nonneg have "0 \<le> sint k" "unat k = n" by simp_all
    then show ?thesis
      using False assms(1) p z t f64_of_abs [of f]
      by (auto simp: json_of_i64_def rust_f64_def split: if_splits)
  qed
qed

lemma not_minus_zero:
  assumes "displays_f64 show_f64" "f64_is_finite f" "i64_text (show_f64 f) = None"
  shows "show_f64 f \<noteq> ''-0''"
proof
  assume s: "show_f64 f = ''-0''"
  have "parse_unsigned (2 ^ 63 + 1) ''0'' = Some 0"
    using parse_unsigned_dec [of "2 ^ 63 + 1" 0] dec_0 by simp
  with assms(3) s show False by (simp add: i64_text_def)
qed

section \<open>Properties\<close>

text \<open>C21: What a parameter stands for in an expression (\<open>SELECT ?\<close>) comes out of the row accessors
  again: if the engine's reading of its literal is the value that the server encodes in a row,
  the client finds NULL, the integer, the text or the bytes there, and for a finite real that the
  engine converts back from its text that real, except that the sign of \<open>-0\<close> is lost; a NaN and an
  infinity come back as NULL. A text with a NUL has no such row: its literal is not read. Storing
  in a column, which may convert, is not part of this.\<close>

theorem param_roundtrip:
  assumes "reads_literals read to_f64" "token_ends rest"
    and "rust_f64 show_f64 parse_f64 number_as_f64" "converts_back to_f64 show_f64 p"
    and "read (serialize_sql_value show_f64 p @ rest) = Some (v, rest')"
    and "map_of m column = Some (value_ref_to_json v)"
  shows "rest' = rest \<and>
    (case p of
      Null \<Rightarrow> row_is_null (Row m) column
    | Bool b \<Rightarrow> row_get_i64 (Row m) column = Some (if b then 1 else 0)
    | Int' n \<Rightarrow> row_get_i64 (Row m) column = Some n
    | Real f \<Rightarrow>
        if f64_is_finite f
        then row_get_f64 number_as_f64 (Row m) column = Some (if show_f64 f = ''-0'' then f64_abs f else f)
        else row_is_null (Row m) column
    | Text s \<Rightarrow> CHR 0x00 \<notin> set s \<and> (is_str s \<longrightarrow> row_get_str (Row m) column = Some s)
    | Blob bytes \<Rightarrow> row_blob (Row m) column = Some bytes)"
proof -
  have d: "displays_f64 show_f64" and n: "number_as_f64 (Float f) = Some f" for f
    using assms(3) by (simp_all add: rust_f64_def)
  note r = reads_serialized [OF assms(1,2) d assms(4)]
  show ?thesis
  proof (cases p)
    case (Real f)
    show ?thesis
    proof (cases "f64_is_finite f")
      case True
      then have v: "v = (case i64_text (show_f64 f) of Some k \<Rightarrow> Integer k | None \<Rightarrow> value_ref.Real f)"
        "rest' = rest"
        using r assms(5) Real f64_finite_cases [of f] by simp_all
      show ?thesis
        using v Real True assms(6) not_minus_zero [OF d True] shown_integer_as_f64 [OF assms(3) True]
        by (cases "i64_text (show_f64 f)") (simp_all add: row_get_f64_def number_from_f64_def n)
    next
      case False
      then have "f64_is_nan f \<or> f64_is_infinite f" using f64_cases [of f] by blast
      then show ?thesis
        using r assms(5,6) Real False by (auto simp: row_is_null_def number_from_f64_def split: if_splits)
    qed
  next
    case (Text s)
    then show ?thesis
      using r assms(5,6) by (auto simp: row_get_str_def from_utf8_lossy_str split: if_splits)
  qed (use r assms(5,6) decode_blob_quoted in
      \<open>auto simp: row_is_null_def row_get_i64_def row_blob_def as_i64_of_i64\<close>)
qed

text \<open>The conversions of the witness.\<close>

definition demo_number_as_f64 :: "number \<Rightarrow> f64 option" where
  "demo_number_as_f64 n =
     (case n of
        Float f \<Rightarrow> Some f
      | PosInt n \<Rightarrow> Some (demo_to_f64 (dec_of_nat (unat n)))
      | NegInt n \<Rightarrow> Some (f64_neg (demo_to_f64 (dec_of_nat (nat (- sint n))))))"

lemma demo_rust_f64: "rust_f64 demo_show_f64 demo_to_f64 demo_number_as_f64"
  by (simp add: rust_f64_def demo_displays demo_parses demo_number_as_f64_def)

theorem param_roundtrip_witness:
  "row_blob (Row [(''b'', value_ref_to_json (value_ref.Blob [0, 255]))]) ''b'' = Some [0, 255] \<and>
   row_get_f64 demo_number_as_f64 (Row [(''x'', value_ref_to_json (Integer 3))]) ''x'' =
     Some 0x4008000000000000"
proof -
  have e: "token_ends '')''" by code_simp
  note r = param_roundtrip [OF demo_reads e demo_rust_f64 demo_converts_back]
  note l = reads_serialized [OF demo_reads e demo_displays demo_converts_back]
  have f: "\<not> f64_is_nan 0x4008000000000000" "\<not> f64_is_infinite 0x4008000000000000"
    "f64_is_finite 0x4008000000000000" "demo_show_f64 0x4008000000000000 \<noteq> ''-0''"
    by code_simp+
  have b: "read_literal demo_to_f64 (serialize_sql_value demo_show_f64 (Blob [0, 255]) @ '')'') =
      Some (value_ref.Blob [0, 255], '')'')"
    unfolding l by simp
  have x: "read_literal demo_to_f64 (serialize_sql_value demo_show_f64 (Real 0x4008000000000000) @ '')'') =
      Some (Integer 3, '')'')"
    unfolding l using f demo_whole by simp
  show ?thesis
    using r [OF b, of "[(''b'', value_ref_to_json (value_ref.Blob [0, 255]))]" "''b''"]
      r [OF x, of "[(''x'', value_ref_to_json (Integer 3))]" "''x''"] f
    by (simp del: value_ref_to_json.simps)
qed

text \<open>The wrapper of a query response gives back what the server answered: the columns in their
  order, one row per object, and for a scalar the value of the first column in the first row; it
  reports no server error.\<close>

theorem query_result_read:
  "result_columns (new_result (query_result cols (map Object objs))) = cols \<and>
   result_rows (new_result (query_result cols (map Object objs))) = map Row objs \<and>
   result_len (new_result (query_result cols (map Object objs))) = length objs \<and>
   result_first (new_result (query_result cols (map Object objs))) =
     (case objs of [] \<Rightarrow> None | m # _ \<Rightarrow> Some (Row m)) \<and>
   result_scalar (new_result (query_result (k # cols) (map Object objs))) =
     (case objs of [] \<Rightarrow> None | m # _ \<Rightarrow> map_of m k) \<and>
   result_server_error show_json (new_result (query_result cols (map Object objs))) = None"
proof -
  have a: "get_array (query_result cs vs) ''columns'' = Some (map String cs)"
    "get_array (query_result cs vs) ''data'' = Some vs" for cs vs
    by (simp_all add: query_result_def get_array_json_object)
  have c: "result_columns (new_result (query_result cs vs)) = cs" for cs vs
    by (simp add: result_columns_def array_strings_def new_result_def a map_filter_strings)
  have d: "result_data (new_result (query_result cs vs)) = vs" for cs vs
    by (simp add: result_data_def new_result_def a)
  have r: "result_rows (new_result (query_result cs (map Object objs))) = map Row objs" for cs
    by (simp add: result_rows_def d map_filter_objects)
  have e: "result_server_error show_json (new_result (query_result cs vs)) = None" for cs vs
    by (simp add: result_server_error_def new_result_def query_result_def map_of_json_object
        map_of_obj_of_list)
  show ?thesis
    using c d r e
    by (cases objs) (simp_all add: result_len_def result_first_def result_scalar_def)
qed

text \<open>Every error response of the server is reported by the wrapper, an SQL error with its
  message, and a successful one never is.\<close>

theorem server_errors_reported:
  "result_server_error show_json (new_result (sql_error (code, message) request)) = Some message \<and>
   result_server_error show_json (new_result (generic_error code request)) =
     Some (show_json (generic_error code request)) \<and>
   result_server_error show_json (new_result (invalid_format message text)) =
     Some (show_json (invalid_format message text)) \<and>
   result_server_error show_json (new_result (result_json ok)) = None"
  by (simp add: result_server_error_def new_result_def sql_error_def generic_error_def
      invalid_format_def result_json_def map_of_json_object map_of_obj_of_list)

end
