(* ===== verification/Client.thy ===== *)
theory Client
  imports Client_Result Connection Demo
begin

text \<open>
  The connection of the reference client (\<open>src/examples/rust/client.rs\<close>): framing, \<open>call\<close>, the
  login and the commands, over the byte streams of theory Connection. \<open>serde_json\<close>, the regex
  engine and \<open>TcpStream::connect\<close> are the fields of \<open>client_externals\<close>. The properties put the
  client and the server's connection loop together: the client reads what the server wrote for
  what the client sent.
\<close>

section \<open>State\<close>

datatype client_error =
    Stream io_error
  | InvalidData string
  | PermissionDenied string
  | NotConnected string

text \<open>
  \<open>serde_json::to_vec\<close> and \<open>from_slice\<close>, the regex matches, the text of a finite \<open>f64\<close>, and
  \<open>TcpStream::connect\<close> for addresses of type \<open>'a\<close>.
\<close>

record 'a client_externals =
  cx_to_vec :: "json \<Rightarrow> string + u8 list"
  cx_from_slice :: "u8 list \<Rightarrow> string + json"
  cx_captures :: "string \<Rightarrow> string \<Rightarrow> captures list"
  cx_show_f64 :: "f64 \<Rightarrow> string"
  cx_connect :: "'a \<Rightarrow> string + stream"

record client =
  cl_stream :: stream
  cl_database :: string

definition DEFAULT_HOST :: string where "DEFAULT_HOST = ''127.0.0.1''"
definition DEFAULT_PORT :: u16 where "DEFAULT_PORT = 3333"

text \<open>The \<open>?\<close> operator of a method on \<open>&mut self\<close>.\<close>

fun io_bind :: "('e + 'a) \<times> 's \<Rightarrow> ('a \<Rightarrow> 's \<Rightarrow> ('e + 'b) \<times> 's) \<Rightarrow> ('e + 'b) \<times> 's" where
  "io_bind (Inl e, s) f = (Inl e, s)"
| "io_bind (Inr x, s) f = f x s"

definition on_stream :: "(stream \<Rightarrow> (io_error + 'x) \<times> stream) \<Rightarrow> client \<Rightarrow> (client_error + 'x) \<times> client" where
  "on_stream f cl =
     (case f (cl_stream cl) of (r, s) \<Rightarrow> (map_err Stream r, cl\<lparr>cl_stream := s\<rparr>))"

section \<open>Requests and responses\<close>

definition send :: "'a client_externals \<Rightarrow> json \<Rightarrow> client \<Rightarrow> (client_error + unit) \<times> client" where
  "send C request cl =
     (case cx_to_vec C request of
        Inl e \<Rightarrow> (Inl (InvalidData e), cl)
      | Inr body \<Rightarrow>
          io_bind (on_stream (write_all (to_le_bytes (word_of_nat (length body)))) cl) (\<lambda>_ cl.
            on_stream (write_all body) cl))"

definition recv :: "'a client_externals \<Rightarrow> client \<Rightarrow> (client_error + json) \<times> client" where
  "recv C cl =
     io_bind (on_stream (read_exact 4) cl) (\<lambda>header cl.
     io_bind (on_stream (read_exact (unat (from_le_bytes header))) cl) (\<lambda>buf cl.
       (map_err InvalidData (cx_from_slice C buf), cl)))"

definition call :: "'a client_externals \<Rightarrow> json \<Rightarrow> client \<Rightarrow> (client_error + json) \<times> client" where
  "call C request cl = io_bind (send C request cl) (\<lambda>_ cl. recv C cl)"

section \<open>The commands\<close>

definition authenticate :: "'a client_externals \<Rightarrow> string \<Rightarrow> client \<Rightarrow> (client_error + unit) \<times> client" where
  "authenticate C password cl =
     io_bind (call C (json_object [(''auth'', String password)]) cl) (\<lambda>response cl.
       if get_str response ''result'' = Some ''ok'' then (Inr (), cl)
       else (Inl (PermissionDenied ''sqlite-server authentication failed''), cl))"

definition connect_with_auth ::
  "'a client_externals \<Rightarrow> string \<Rightarrow> 'a \<Rightarrow> string \<Rightarrow> client_error + client" where
  "connect_with_auth C database addr password =
     (case cx_connect C addr of
        Inl e \<Rightarrow> Inl (NotConnected e)
      | Inr stream \<Rightarrow>
          let client = \<lparr>cl_stream = stream, cl_database = database\<rparr> in
          if password \<noteq> [] then
            (case authenticate C password client of
               (Inl e, _) \<Rightarrow> Inl e
             | (Inr _, client) \<Rightarrow> Inr client)
          else Inr client)"

definition connect_to :: "'a client_externals \<Rightarrow> string \<Rightarrow> 'a \<Rightarrow> client_error + client" where
  "connect_to C database addr = connect_with_auth C database addr []"

definition connect :: "(string \<times> u16) client_externals \<Rightarrow> string \<Rightarrow> client_error + client" where
  "connect C database = connect_to C database (DEFAULT_HOST, DEFAULT_PORT)"

definition prepared :: "'a client_externals \<Rightarrow> string \<Rightarrow> param list \<Rightarrow> string" where
  "prepared C sql params =
     (if params = [] then sql else bind_params (cx_captures C) (cx_show_f64 C) sql params)"

definition query_request :: "string \<Rightarrow> string \<Rightarrow> json" where
  "query_request db query =
     json_object [(''cmd'', String ''QUERY''), (''db'', String db), (''query'', String query)]"

definition query ::
  "'a client_externals \<Rightarrow> string \<Rightarrow> param list \<Rightarrow> client \<Rightarrow> (client_error + query_response) \<times> client" where
  "query C sql params cl =
     io_bind (call C (query_request (cl_database cl) (prepared C sql params)) cl) (\<lambda>response cl.
       (Inr (new_result response), cl))"

definition list_request :: json where
  "list_request = json_object [(''cmd'', String ''LIST'')]"

definition list_dbs :: "'a client_externals \<Rightarrow> client \<Rightarrow> (client_error + string list) \<times> client" where
  "list_dbs C cl =
     io_bind (call C list_request cl) (\<lambda>response cl. (Inr (array_strings response ''list''), cl))"

definition delete_request :: "string \<Rightarrow> json" where
  "delete_request db = json_object [(''cmd'', String ''DELETE_DB''), (''db'', String db)]"

definition delete_db :: "'a client_externals \<Rightarrow> string \<Rightarrow> client \<Rightarrow> (client_error + bool) \<times> client" where
  "delete_db C database cl =
     io_bind (call C (delete_request database) cl) (\<lambda>response cl.
       (Inr (get_str response ''result'' = Some ''ok''), cl))"

section \<open>Framing\<close>

lemma send_frame:
  assumes "cx_to_vec C request = Inr body" "length (frame body) \<le> accepts (cl_stream cl)"
  shows "send C request cl =
    (Inr (), cl\<lparr>cl_stream := (cl_stream cl)
       \<lparr>outbox := outbox (cl_stream cl) @ frame body,
        accepts := accepts (cl_stream cl) - length (frame body)\<rparr>\<rparr>)"
  using assms
  by (cases cl) (simp add: send_def on_stream_def write_all_def frame_def Let_def)

lemma recv_frame:
  assumes "inbox (cl_stream cl) = frame body @ later" "length body < 2 ^ 32"
  shows "recv C cl =
    (map_err InvalidData (cx_from_slice C body), cl\<lparr>cl_stream := (cl_stream cl)\<lparr>inbox := later\<rparr>\<rparr>)"
  using assms
  by (cases cl) (simp add: recv_def on_stream_def read_exact_def frame_def from_to_le_bytes unat_of_nat)

lemma call_frame:
  assumes "cx_to_vec C request = Inr body" "length (frame body) \<le> accepts (cl_stream cl)"
    and "inbox (cl_stream cl) = frame out @ later" "length out < 2 ^ 32"
  shows "\<exists>cl1. call C request cl = (map_err InvalidData (cx_from_slice C out), cl1) \<and>
    inbox (cl_stream cl1) = later \<and> outbox (cl_stream cl1) = outbox (cl_stream cl) @ frame body \<and>
    cl_database cl1 = cl_database cl"
  using assms(3,4) by (simp add: call_def send_frame [OF assms(1,2)] recv_frame)

section \<open>The server's side\<close>

text \<open>
  What the server writes to a connection on which these bytes come in and the peer then closes,
  when the peer takes all of it.
\<close>

definition server_output ::
  "('q, 'c, 's, 'r, 'w) externals \<Rightarrow> 'c request_handler \<Rightarrow> 'q world \<Rightarrow> u8 list \<Rightarrow> u8 list \<Rightarrow> bool" where
  "server_output X h w bs out \<longleftrightarrow>
     (\<exists>n r h1 w1 s. connection_loop X h w \<lparr>inbox = bs, outbox = [], accepts = n\<rparr> = Returns (r, h1, w1, s) \<and>
        outbox s = out \<and> length out < n)"

lemma server_output_frame:
  assumes "server_output X h w (frame body) out" "length body \<le> unat (client_max_packet_size (config h))"
  obtains v h1 w1 where "handle_request X h w (from_utf8_lossy body) = Returns (v, h1, w1)"
    "out = frame (response_body X v)"
proof -
  obtain n r h2 w2 s where run: "connection_loop X h w \<lparr>inbox = frame body, outbox = [], accepts = n\<rparr> =
      Returns (r, h2, w2, s)" and s: "outbox s = out" "length out < n"
    using assms(1) by (auto simp: server_output_def)
  let ?s = "\<lparr>inbox = frame body, outbox = [], accepts = n\<rparr>"
  have step: "connection_loop X h w ?s =
      run_bind (handle_request X h w (from_utf8_lossy body)) (\<lambda>(response, h1, w1).
        case write_all (frame (response_body X response)) (?s\<lparr>inbox := []\<rparr>) of
          (Inl e, s3) \<Rightarrow> Returns (Inl e, h1, w1, s3)
        | (Inr _, s3) \<Rightarrow> connection_loop X h1 w1 s3)"
    by (rule connection_loop_frame) (simp_all add: assms(2))
  have "run_bind (handle_request X h w (from_utf8_lossy body)) (\<lambda>(response, h1, w1).
        case write_all (frame (response_body X response)) (?s\<lparr>inbox := []\<rparr>) of
          (Inl e, s3) \<Rightarrow> Returns (Inl e, h1, w1, s3)
        | (Inr _, s3) \<Rightarrow> connection_loop X h1 w1 s3) = Returns (r, h2, w2, s)"
    unfolding step [symmetric] by (rule run)
  then obtain v h1 w1 where v: "handle_request X h w (from_utf8_lossy body) = Returns (v, h1, w1)"
    and rest: "(case write_all (frame (response_body X v)) (?s\<lparr>inbox := []\<rparr>) of
        (Inl e, s3) \<Rightarrow> Returns (Inl e, h1, w1, s3)
      | (Inr _, s3) \<Rightarrow> connection_loop X h1 w1 s3) = Returns (r, h2, w2, s)"
    by (auto simp: run_bind_Returns_iff)
  have "out = frame (response_body X v)"
  proof (cases "length (frame (response_body X v)) \<le> n")
    case True
    let ?s1 = "\<lparr>inbox = [], outbox = frame (response_body X v), accepts = n - length (frame (response_body X v))\<rparr>"
    have "connection_loop X h1 w1 ?s1 = Returns (r, h2, w2, s)"
      using rest True by (simp add: write_all_fits)
    moreover have "stops_at (config h1) (inbox ?s1)" by (simp add: stops_at_def)
    ultimately show ?thesis using connection_loop_stops [of h1 ?s1 X w1] s(1) by auto
  next
    case False
    then have "outbox s = take n (frame (response_body X v))" "n \<le> length (frame (response_body X v))"
      using rest by (auto simp: write_all_def Let_def)
    then show ?thesis using s by simp
  qed
  then show thesis using v that by blast
qed

lemma server_output_one:
  assumes "handle_request X h w (from_utf8_lossy b) = Returns (v, h1, w1)" "handler_ok h"
    and "length b \<le> unat (client_max_packet_size (config h))"
  shows "server_output X h w (frame b) (frame (response_body X v))"
proof -
  let ?n = "Suc (length (frame (response_body X v)))"
  let ?s = "\<lparr>inbox = frame b, outbox = [], accepts = ?n\<rparr>"
  have "handle_all X h w (map from_utf8_lossy [b]) = Returns ([v], h1, w1)"
    using assms(1) by simp
  then have "\<exists>s1. connection_loop X h w ?s = Returns (Inr (), h1, w1, s1) \<and>
      outbox s1 = outbox ?s @ concat (map (\<lambda>v. frame (response_body X v)) [v])"
    by (intro connection_loop_frames [of ?s "[b]" "[]"]) (use assms in \<open>simp_all add: stops_at_def\<close>)
  then show ?thesis by (force simp: server_output_def)
qed

text \<open>
  The client asks, the server answers: the request goes out as one frame within the packet limit
  and is parsed as what was meant, the client's input begins with the server's output for it, and
  the client parses the response it holds as the value it stands for.
\<close>

definition served ::
  "'a client_externals \<Rightarrow> ('q, 'c, 's, 'r, 'w) externals \<Rightarrow> 'c request_handler \<Rightarrow> 'q world \<Rightarrow> client \<Rightarrow>
     json \<Rightarrow> u8 list \<Rightarrow> u8 list \<Rightarrow> bool" where
  "served C X h w cl request body later \<longleftrightarrow>
     cx_to_vec C request = Inr body \<and> json_from_str X (from_utf8_lossy body) = Inr request \<and>
     length body \<le> unat (client_max_packet_size (config h)) \<and>
     length (frame body) \<le> accepts (cl_stream cl) \<and>
     (\<exists>out. server_output X h w (frame body) out \<and> inbox (cl_stream cl) = out @ later \<and>
        length out < 2 ^ 32 + 4 \<and>
        (\<forall>v. out = frame (response_body X v) \<longrightarrow> cx_from_slice C (response_body X v) = Inr v))"

lemma served_call:
  assumes "served C X h w cl request body later"
  obtains v h1 w1 cl1 where "handle_request X h w (from_utf8_lossy body) = Returns (v, h1, w1)"
    "parse_request X (from_utf8_lossy body) = Inr request" "call C request cl = (Inr v, cl1)"
    "inbox (cl_stream cl1) = later" "outbox (cl_stream cl1) = outbox (cl_stream cl) @ frame body"
proof -
  obtain out where s: "cx_to_vec C request = Inr body" "json_from_str X (from_utf8_lossy body) = Inr request"
    "length body \<le> unat (client_max_packet_size (config h))" "length (frame body) \<le> accepts (cl_stream cl)"
    "server_output X h w (frame body) out" "inbox (cl_stream cl) = out @ later" "length out < 2 ^ 32 + 4"
    "\<And>v. out = frame (response_body X v) \<Longrightarrow> cx_from_slice C (response_body X v) = Inr v"
    using assms by (auto simp: served_def)
  obtain v h1 w1 where v: "handle_request X h w (from_utf8_lossy body) = Returns (v, h1, w1)"
    "out = frame (response_body X v)"
    using server_output_frame [OF s(5,3)] .
  have "length (response_body X v) < 2 ^ 32" using s(7) v(2) by simp
  moreover have "inbox (cl_stream cl) = frame (response_body X v) @ later" using s(6) v(2) by simp
  ultimately obtain cl1 where
    "call C request cl = (map_err InvalidData (cx_from_slice C (response_body X v)), cl1)"
    "inbox (cl_stream cl1) = later" "outbox (cl_stream cl1) = outbox (cl_stream cl) @ frame body"
    using call_frame [OF s(1,4)] by blast
  moreover have "cx_from_slice C (response_body X v) = Inr v" by (rule s(8) [OF v(2)])
  ultimately have "call C request cl = (Inr v, cl1)" "inbox (cl_stream cl1) = later"
    "outbox (cl_stream cl1) = outbox (cl_stream cl) @ frame body"
    by simp_all
  moreover have "parse_request X (from_utf8_lossy body) = Inr request" using s(2) by (simp add: parse_request_def)
  ultimately show thesis using v(1) that by blast
qed

lemma request_keys:
  "get_str (query_request db q) ''auth'' = None" "get_str (query_request db q) ''cmd'' = Some ''QUERY''"
  "get_str (query_request db q) ''db'' = Some db" "get_str (query_request db q) ''query'' = Some q"
  "get_str list_request ''auth'' = None" "get_str list_request ''cmd'' = Some ''LIST''"
  "get_str (delete_request db) ''auth'' = None" "get_str (delete_request db) ''cmd'' = Some ''DELETE_DB''"
  "get_str (delete_request db) ''db'' = Some db"
  by (simp_all add: get_str_def query_request_def list_request_def delete_request_def)

lemma response_results:
  "get_str (result_json ok) ''result'' = Some ''ok'' \<longleftrightarrow> ok"
  "get_str (generic_error code request) ''result'' = None"
  by (simp_all add: get_str_def result_json_def generic_error_def)

lemma dispatched_request:
  assumes "parse_request X req = Inr v" "get_str v ''auth'' = None" "auth (config h) = [] \<or> authenticated h"
  shows "handle_request X h w req = dispatch X h w req v"
  using assms by (auto simp: handle_request_def)

lemma dispatch_commands:
  "dispatch X h w req (query_request db q) = handle_query X h w (query_request db q)"
  "dispatch X h w req list_request = handle_list h w"
  "dispatch X h w req (delete_request db) = handle_delete_db X h w (delete_request db)"
proof -
  have "\<not> eq_ignore_ascii_case ''LIST'' ''QUERY''" "\<not> eq_ignore_ascii_case ''DELETE_DB'' ''QUERY''"
    "\<not> eq_ignore_ascii_case ''DELETE_DB'' ''LIST''"
    by code_simp+
  then show "dispatch X h w req (query_request db q) = handle_query X h w (query_request db q)"
    "dispatch X h w req list_request = handle_list h w"
    "dispatch X h w req (delete_request db) = handle_delete_db X h w (delete_request db)"
    by (simp_all add: dispatch_def request_keys)
qed

section \<open>Properties\<close>

text \<open>C14: A query through the client is the server's query: over a logged-in connection the result
  wraps exactly the response of the server's QUERY handler for the bound statement and the
  client's database, the request leaves as one frame, and the next response is what is left to
  read.\<close>

theorem query_served:
  assumes "served C X h w cl (query_request (cl_database cl) (prepared C sql params)) body later"
    and "auth (config h) = [] \<or> authenticated h"
  shows "\<exists>v h1 w1 cl1.
    handle_query X h w (query_request (cl_database cl) (prepared C sql params)) = Returns (v, h1, w1) \<and>
    query C sql params cl = (Inr (new_result v), cl1) \<and> inbox (cl_stream cl1) = later \<and>
    outbox (cl_stream cl1) = outbox (cl_stream cl) @ frame body"
proof -
  let ?req = "query_request (cl_database cl) (prepared C sql params)"
  obtain v h1 w1 cl1 where v: "handle_request X h w (from_utf8_lossy body) = Returns (v, h1, w1)"
    "parse_request X (from_utf8_lossy body) = Inr ?req" "call C ?req cl = (Inr v, cl1)"
    "inbox (cl_stream cl1) = later" "outbox (cl_stream cl1) = outbox (cl_stream cl) @ frame body"
    using served_call [OF assms(1)] .
  have "handle_query X h w ?req = Returns (v, h1, w1)"
    using v(1) dispatched_request [OF v(2) request_keys(1) assms(2)] by (simp add: dispatch_commands)
  then show ?thesis using v by (auto simp: query_def)
qed

definition demo_client :: "json \<Rightarrow> string \<Rightarrow> u8 list \<Rightarrow> json \<Rightarrow> (string \<times> u16) client_externals" where
  "demo_client request name response v =
     \<lparr>cx_to_vec = (\<lambda>r. if r = request then Inr (bytes_of_str name) else Inl []),
      cx_from_slice = (\<lambda>b. if b = response then Inr v else Inl []),
      cx_captures = (\<lambda>p s. bind_captures s), cx_show_f64 = (\<lambda>f. []), cx_connect = (\<lambda>a. Inl [])\<rparr>"

definition demo_peer :: "string \<Rightarrow> u8 list \<Rightarrow> client" where
  "demo_peer db response =
     \<lparr>cl_stream = \<lparr>inbox = frame response, outbox = [], accepts = 100\<rparr>, cl_database = db\<rparr>"

lemma demo_served:
  assumes "handle_request X h w name = Returns (v, h1, w1)" "handler_ok h" "is_str name"
    and "json_from_str X name = Inr request" "length name \<le> unat (client_max_packet_size (config h))"
    and "length name \<le> 96" "length (response_body X v) < 2 ^ 32"
    and "\<And>v'. response_body X v' = response_body X v \<Longrightarrow> v' = v"
  shows "served (demo_client request name (response_body X v) v) X h w (demo_peer db (response_body X v))
    request (bytes_of_str name) []"
proof -
  have n: "from_utf8_lossy (bytes_of_str name) = name" by (rule from_utf8_lossy_str [OF assms(3)])
  have "server_output X h w (frame (bytes_of_str name)) (frame (response_body X v))"
    using server_output_one [of X h w "bytes_of_str name" v h1 w1] assms(1,2,5) n by simp
  moreover have "frame (response_body X v) = frame (response_body X v') \<longrightarrow> v' = v" for v'
    using assms(7,8) wire.enc_append_inject [of "response_body X v" "response_body X v'" "[]" "[]"]
    by (auto simp: frame_def dest: append_eq_append_conv [THEN iffD1, rotated])
  ultimately show ?thesis
    using assms(4-7) n by (auto simp: served_def demo_client_def demo_peer_def intro: assms(8) [symmetric])
qed

theorem query_served_witness:
  "\<exists>cl1. query
     (demo_client (demo_request ''QUERY'' ''../etc'' ''SELECT'') ''up'' (bytes_of_str ''r'')
        (generic_error NO_DATABASE_SPECIFIED (demo_request ''QUERY'' ''../etc'' ''SELECT'')))
     ''SELECT'' [] (demo_peer ''../etc'' (bytes_of_str ''r'')) =
   (Inr (new_result (generic_error NO_DATABASE_SPECIFIED (demo_request ''QUERY'' ''../etc'' ''SELECT''))), cl1)"
proof -
  let ?req = "demo_request ''QUERY'' ''../etc'' ''SELECT''"
  let ?v = "generic_error NO_DATABASE_SPECIFIED ?req"
  let ?X = "demo_externals\<lparr>json_to_string := (\<lambda>v. Some (if v = ?v then ''r'' else ''x''))\<rparr>"
  let ?h = "new_handler (demo_server []) :: string request_handler"
  have p: "json_from_str demo_externals ''up'' = Inr ?req" by code_simp
  have u: "\<not> is_safe_database_name demo_files ''/data'' ''../etc''" by code_simp
  have q: "eq_ignore_ascii_case ''QUERY'' ''QUERY''" by simp
  have r: "handle_request ?X ?h demo_world ''up'' = Returns (?v, ?h, demo_world)"
    by (simp add: handle_request_def parse_request_def p dispatch_def demo_request_get q handle_query_def u)
  have b: "response_body ?X v = bytes_of_str (if v = ?v then ''r'' else ''x'')" for v
    by (simp add: response_body_def)
  have "served (demo_client ?req ''up'' (response_body ?X ?v) ?v) ?X ?h demo_world
      (demo_peer ''../etc'' (response_body ?X ?v)) ?req (bytes_of_str ''up'') []"
  proof (rule demo_served [OF r handler_ok_new])
    show "is_str ''up''" by code_simp
    show "json_from_str ?X ''up'' = Inr ?req" using p by simp
    show "v' = ?v" if "response_body ?X v' = response_body ?X ?v" for v'
    proof (rule ccontr)
      assume "v' \<noteq> ?v"
      moreover have "bytes_of_str ''x'' \<noteq> bytes_of_str ''r''" by code_simp
      ultimately show False using that by (simp add: b)
    qed
  qed (simp_all add: b demo_server_def)
  moreover have "query_request ''../etc'' ''SELECT'' = ?req"
    by (simp add: query_request_def demo_request_def)
  ultimately have s: "served (demo_client ?req ''up'' (bytes_of_str ''r'') ?v) ?X ?h demo_world
      (demo_peer ''../etc'' (bytes_of_str ''r''))
      (query_request (cl_database (demo_peer ''../etc'' (bytes_of_str ''r'')))
        (prepared (demo_client ?req ''up'' (bytes_of_str ''r'') ?v) ''SELECT'' [])) (bytes_of_str ''up'') []"
    by (simp add: b prepared_def demo_peer_def)
  obtain v h1 w1 cl1 where "handle_query ?X ?h demo_world ?req = Returns (v, h1, w1)"
    "query (demo_client ?req ''up'' (bytes_of_str ''r'') ?v) ''SELECT'' [] (demo_peer ''../etc'' (bytes_of_str ''r'')) =
      (Inr (new_result v), cl1)"
    using query_served [OF s] \<open>query_request ''../etc'' ''SELECT'' = ?req\<close>
    by (auto simp: prepared_def demo_peer_def)
  moreover have "handle_query ?X ?h demo_world ?req = Returns (?v, ?h, demo_world)"
    by (simp add: demo_request_get handle_query_def u)
  ultimately show ?thesis by auto
qed

text \<open>C31: The client is let in exactly with the server's password: \<open>authenticate\<close> succeeds if and
  only if the password is the configured one, and a server without a password refuses every
  login.\<close>

theorem authenticate_served:
  assumes "served C X h w cl (json_object [(''auth'', String password)]) body later" "password \<noteq> []"
    and "\<not> authenticated h"
  shows "\<exists>cl1. authenticate C password cl =
    (if password = auth (config h) then Inr ()
     else Inl (PermissionDenied ''sqlite-server authentication failed''), cl1)"
proof -
  let ?req = "json_object [(''auth'', String password)]"
  obtain v h1 w1 cl1 where v: "handle_request X h w (from_utf8_lossy body) = Returns (v, h1, w1)"
    "parse_request X (from_utf8_lossy body) = Inr ?req" "call C ?req cl = (Inr v, cl1)"
    using served_call [OF assms(1)] by metis
  have keys: "get_str ?req ''auth'' = Some password" "get_str ?req ''cmd'' = None"
    by (simp_all add: get_str_def)
  have "get_str v ''result'' = Some ''ok'' \<longleftrightarrow> password = auth (config h)"
    using v(1) assms(2,3) keys
    by (auto simp: handle_request_def v(2) dispatch_def response_results split: if_splits)
  then show ?thesis using v(3) by (simp add: authenticate_def)
qed

theorem authenticate_served_witness:
  "\<exists>cl1. authenticate
     (demo_client (json_object [(''auth'', String ''pv'')]) ''wrong'' (bytes_of_str ''ok'') (result_json True))
     ''pv'' (demo_peer [] (bytes_of_str ''ok'')) = (Inr (), cl1)"
proof -
  let ?req = "json_object [(''auth'', String ''pv'')]"
  let ?h = "new_handler (demo_server ''pv'') :: string request_handler"
  have p: "json_from_str demo_externals ''wrong'' = Inr ?req" by code_simp
  have r: "handle_request demo_externals ?h demo_world ''wrong'' =
      Returns (result_json True, ?h\<lparr>authenticated := True\<rparr>, demo_world)"
    by (simp add: handle_request_def parse_request_def p get_str_def)
  have b: "response_body demo_externals v = bytes_of_str (if v = result_json True then ''ok'' else ''other'')" for v
    by (simp add: response_body_def demo_externals_def)
  have s: "served (demo_client ?req ''wrong'' (response_body demo_externals (result_json True)) (result_json True))
      demo_externals ?h demo_world (demo_peer [] (response_body demo_externals (result_json True))) ?req
      (bytes_of_str ''wrong'') []"
  proof (rule demo_served [OF r handler_ok_new])
    show "is_str ''wrong''" by code_simp
    show "json_from_str demo_externals ''wrong'' = Inr ?req" by (rule p)
    show "v' = result_json True"
      if "response_body demo_externals v' = response_body demo_externals (result_json True)" for v'
    proof (rule ccontr)
      assume "v' \<noteq> result_json True"
      then have "bytes_of_str ''other'' = bytes_of_str ''ok''" using that by (simp add: b)
      then have "length ''other'' = length ''ok''" by (metis length_bytes_of_str)
      then show False by simp
    qed
  qed (simp_all add: b demo_server_def)
  show ?thesis using authenticate_served [OF s] by (simp add: b)
qed

text \<open>The client's LIST and DELETE_DB are the server's: the names are those of the database
  files in the server's folder, and a deletion reports true exactly if the server removed the
  file.\<close>

theorem list_delete_served:
  assumes "auth (config h) = [] \<or> authenticated h"
  shows "(served C X h w cl list_request body later \<longrightarrow>
      fst (list_dbs C cl) = Inr (list_databases (files w) (databases_folder (config h)))) \<and>
    (served C X h w cl (delete_request db) body later \<longrightarrow>
      fst (delete_db C db cl) =
        Inr (is_safe_database_name (files w) (databases_folder (config h)) db \<and>
             remove_file (files w) (path_join (databases_folder (config h)) db) \<noteq> None))"
proof (intro conjI impI)
  assume s: "served C X h w cl list_request body later"
  obtain v h1 w1 cl1 where v: "handle_request X h w (from_utf8_lossy body) = Returns (v, h1, w1)"
    "parse_request X (from_utf8_lossy body) = Inr list_request" "call C list_request cl = (Inr v, cl1)"
    using served_call [OF s] by metis
  have "handle_list h w = Returns (v, h1, w1)"
    using v(1) dispatched_request [OF v(2) request_keys(5) assms] by (simp add: dispatch_commands)
  then show "fst (list_dbs C cl) = Inr (list_databases (files w) (databases_folder (config h)))"
    using v(3)
    by (auto simp: list_dbs_def handle_list_def array_strings_def get_array_json_object map_filter_strings)
next
  assume s: "served C X h w cl (delete_request db) body later"
  obtain v h1 w1 cl1 where v: "handle_request X h w (from_utf8_lossy body) = Returns (v, h1, w1)"
    "parse_request X (from_utf8_lossy body) = Inr (delete_request db)"
    "call C (delete_request db) cl = (Inr v, cl1)"
    using served_call [OF s] by metis
  have "handle_delete_db X h w (delete_request db) = Returns (v, h1, w1)"
    using v(1) dispatched_request [OF v(2) request_keys(7) assms] by (simp add: dispatch_commands)
  then have "get_str v ''result'' = Some ''ok'' \<longleftrightarrow>
      is_safe_database_name (files w) (databases_folder (config h)) db \<and>
      remove_file (files w) (path_join (databases_folder (config h)) db) \<noteq> None"
    by (auto simp: handle_delete_db_def request_keys Let_def response_results
        split: if_splits option.splits)
  then show "fst (delete_db C db cl) =
      Inr (is_safe_database_name (files w) (databases_folder (config h)) db \<and>
           remove_file (files w) (path_join (databases_folder (config h)) db) \<noteq> None)"
    using v(3) by (simp add: delete_db_def)
qed

end
