(* ===== verification/Client_Demo.thy ===== *)
theory Client_Demo
  imports Client
begin

text \<open>
  The demo at the end of the reference client (\<open>src/examples/rust/client.rs\<close>, \<open>main\<close>): it connects,
  fills a table through bound parameters, reads it back and prints what came. A printed line is
  the values it shows; their \<open>Debug\<close> text, the conversion of JSON numbers to \<open>f64\<close> and the text of a
  JSON value are parameters.
\<close>

section \<open>The demo\<close>

datatype demo_line =
    Columns "string list"
  | RowLine "i64 option" "string option" "f64 option" "u8 list option"
  | Count i64
  | Databases "string list"

text \<open>How it ends: \<open>Ok(())\<close>, the two \<open>exit(1)\<close> with their messages, or \<open>Err\<close> out of \<open>main\<close>.\<close>

datatype demo_end = Finished | CannotConnect client_error | ServerError string | Failed client_error

definition on_client ::
  "(client \<Rightarrow> (client_error + 'x) \<times> client) \<Rightarrow> client \<times> demo_line list \<Rightarrow>
     (client_error + 'x) \<times> client \<times> demo_line list" where
  "on_client f s = (case f (fst s) of (r, cl) \<Rightarrow> (r, cl, snd s))"

definition println :: "demo_line list \<Rightarrow> client \<times> demo_line list \<Rightarrow> client \<times> demo_line list" where
  "println ls s = (fst s, snd s @ ls)"

definition row_line :: "(number \<Rightarrow> f64 option) \<Rightarrow> row \<Rightarrow> demo_line" where
  "row_line number_as_f64 r =
     RowLine (row_get_i64 r ''id'') (row_get_str r ''name'') (row_get_f64 number_as_f64 r ''score'')
       (row_blob r ''data'')"

definition create_users :: string where
  "create_users = ''CREATE TABLE IF NOT EXISTS users(id INTEGER, name TEXT, score REAL, data BLOB)''"

definition delete_users :: string where
  "delete_users = ''DELETE FROM users''"

definition insert_user :: string where
  "insert_user = ''INSERT INTO users VALUES (?, ?, ?, ?)''"

definition select_users :: string where
  "select_users = ''SELECT id, name, score, data FROM users ORDER BY id''"

definition count_users :: string where
  "count_users = ''SELECT COUNT(*) AS n FROM users''"

text \<open>The numbers 9.5 and 3.0 as doubles.\<close>

definition alice :: "param list" where
  "alice = [param_of_i32 1, param_of_str ''Alice'', param_of_f64 0x4023000000000000, param_of_vec [0, 255]]"

definition bob :: "param list" where
  "bob = [param_of_i32 2, param_of_str (''Bob O'' @ [single_quote] @ ''Brien''),
     param_of_f64 0x4008000000000000, param.Null]"

definition demo_session ::
  "'a client_externals \<Rightarrow> (number \<Rightarrow> f64 option) \<Rightarrow> (json \<Rightarrow> string) \<Rightarrow> client \<times> demo_line list \<Rightarrow>
     (client_error + demo_end) \<times> client \<times> demo_line list" where
  "demo_session C number_as_f64 show_json s =
     io_bind (on_client (query C create_users []) s) (\<lambda>_ s.
     io_bind (on_client (query C delete_users []) s) (\<lambda>_ s.
     io_bind (on_client (query C insert_user alice) s) (\<lambda>_ s.
     io_bind (on_client (query C insert_user bob) s) (\<lambda>_ s.
     io_bind (on_client (query C select_users []) s) (\<lambda>result s.
       case result_server_error show_json result of
         Some err \<Rightarrow> (Inr (ServerError err), s)
       | None \<Rightarrow>
           let s = println (Columns (result_columns result)
                     # map (row_line number_as_f64) (result_rows result)) s in
           io_bind (on_client (query C count_users []) s) (\<lambda>counted s.
             let s = println [Count (case result_scalar_i64 counted of Some n \<Rightarrow> n | None \<Rightarrow> 0)] s in
             io_bind (on_client (list_dbs C) s) (\<lambda>dbs s.
               (Inr Finished, println [Databases dbs] s))))))))"

definition demo_main ::
  "(string \<times> u16) client_externals \<Rightarrow> (number \<Rightarrow> f64 option) \<Rightarrow> (json \<Rightarrow> string) \<Rightarrow>
     demo_end \<times> demo_line list" where
  "demo_main C number_as_f64 show_json =
     (case connect C ''example.db'' of
        Inl e \<Rightarrow> (CannotConnect e, [])
      | Inr db \<Rightarrow>
          (case demo_session C number_as_f64 show_json (db, []) of
             (Inl e, _, out) \<Rightarrow> (Failed e, out)
           | (Inr r, _, out) \<Rightarrow> (r, out)))"

text \<open>\<open>exit(1)\<close> and an \<open>Err\<close> out of \<open>main\<close> give code 1.\<close>

definition exit_code :: "demo_end \<Rightarrow> nat" where
  "exit_code r = (if r = Finished then 0 else 1)"

section \<open>The conversation\<close>

text \<open>The seven requests, with the literals of the parameters in place.\<close>

definition inserted_alice :: string where
  "inserted_alice = ''INSERT INTO users VALUES (1, 'Alice', 9.5, X'00ff')''"

definition inserted_bob :: string where
  "inserted_bob = ''INSERT INTO users VALUES (2, 'Bob O'' @ [single_quote, single_quote] @ ''Brien', 3, NULL)''"

definition demo_conversation :: "json list" where
  "demo_conversation =
     map (query_request ''example.db'')
       [create_users, delete_users, inserted_alice, inserted_bob, select_users, count_users] @
     [list_request]"

section \<open>Lemmas\<close>

text \<open>
  A client that is about to make these calls, with their answers in its stream; in the end it
  will have sent \<open>sent\<close>.
\<close>

definition converses ::
  "'a client_externals \<Rightarrow> json list \<Rightarrow> u8 list list \<Rightarrow> u8 list list \<Rightarrow> json list \<Rightarrow> u8 list \<Rightarrow> client \<Rightarrow> bool" where
  "converses C reqs bodies outs vs sent cl \<longleftrightarrow>
     map (cx_to_vec C) reqs = map Inr bodies \<and> map (cx_from_slice C) outs = map Inr vs \<and>
     length bodies = length outs \<and> (\<forall>out \<in> set outs. length out < 2 ^ 32) \<and>
     length (concat (map frame bodies)) \<le> accepts (cl_stream cl) \<and>
     inbox (cl_stream cl) = concat (map frame outs) \<and>
     outbox (cl_stream cl) @ concat (map frame bodies) = sent \<and> cl_database cl = ''example.db''"

lemma converses_call:
  assumes "converses C (r # reqs) bodies outs (v # vs) sent cl"
  obtains bodies' outs' cl1 where "call C r cl = (Inr v, cl1)" "converses C reqs bodies' outs' vs sent cl1"
proof -
  obtain b bodies' out outs' where eq: "bodies = b # bodies'" "outs = out # outs'"
    using assms by (cases bodies; cases outs) (auto simp: converses_def)
  have c: "cx_to_vec C r = Inr b" "cx_from_slice C out = Inr v" "length out < 2 ^ 32"
    "length (frame b) \<le> accepts (cl_stream cl)" "inbox (cl_stream cl) = frame out @ concat (map frame outs')"
    using assms by (auto simp: converses_def eq)
  let ?cl1 = "cl\<lparr>cl_stream := (cl_stream cl)\<lparr>inbox := concat (map frame outs'),
      outbox := outbox (cl_stream cl) @ frame b,
      accepts := accepts (cl_stream cl) - length (frame b)\<rparr>\<rparr>"
  have "call C r cl = (Inr v, ?cl1)"
    using c(5) by (simp add: call_def send_frame [OF c(1,4)] recv_frame [OF _ c(3)] c(2))
  moreover have "converses C reqs bodies' outs' vs sent ?cl1"
    using assms by (auto simp: converses_def eq)
  ultimately show thesis by (rule that)
qed

lemma converses_query:
  assumes "converses C (query_request ''example.db'' sql' # reqs) bodies outs (v # vs) sent cl"
    and "prepared C sql params = sql'"
  obtains bodies' outs' cl1 where
    "on_client (query C sql params) (cl, ls) = (Inr (new_result v), cl1, ls)"
    "converses C reqs bodies' outs' vs sent cl1"
proof -
  have db: "cl_database cl = ''example.db''" using assms(1) by (simp add: converses_def)
  obtain bodies' outs' cl1 where "call C (query_request ''example.db'' sql') cl = (Inr v, cl1)"
    and rest: "converses C reqs bodies' outs' vs sent cl1"
    using converses_call [OF assms(1)] .
  then have "on_client (query C sql params) (cl, ls) = (Inr (new_result v), cl1, ls)"
    by (simp add: on_client_def query_def db assms(2))
  then show thesis using rest by (rule that)
qed

text \<open>The bound statements.\<close>

lemma placeholders:
  "template [Plain ''INSERT INTO users VALUES ('', Next, Plain '', '', Next, Plain '', '', Next,
     Plain '', '', Next, Plain '')''] = insert_user"
  by (simp add: template_def insert_user_def)

lemma prepared_users:
  assumes "\<forall>s. cx_captures C bind_pattern s = bind_captures s"
    and "cx_show_f64 C 0x4023000000000000 = ''9.5''" "cx_show_f64 C 0x4008000000000000 = ''3''"
  shows "prepared C insert_user alice = inserted_alice" "prepared C insert_user bob = inserted_bob"
proof -
  let ?ts = "[Plain ''INSERT INTO users VALUES ('', Next, Plain '', '', Next, Plain '', '', Next,
     Plain '', '', Next, Plain '')'']"
  have ok: "tokens_ok ?ts" by code_simp
  have bound: "bind_params (cx_captures C) (cx_show_f64 C) insert_user ps =
      bind_tokens (cx_show_f64 C) ps 0 ?ts" for ps
    unfolding placeholders [symmetric] using rewrite_template [OF ok]
    by (simp add: bind_params_def bind_captures_def assms(1) bind_value_shift
        replace_all_matches [OF placeholder_match_ok])
  have lits: "dec_of_i64 1 = ''1''" "dec_of_i64 2 = ''2''" "client_to_hex [0, 255] = ''00ff''"
    "double_quotes ''Alice'' = ''Alice''" "\<not> f64_is_nan 0x4023000000000000"
    "\<not> f64_is_infinite 0x4023000000000000" "\<not> f64_is_nan 0x4008000000000000"
    "\<not> f64_is_infinite 0x4008000000000000" "(scast (1 :: i32) :: i64) = 1" "(scast (2 :: i32) :: i64) = 2"
    by code_simp+
  have quoted: "double_quotes (''Bob O'' @ [single_quote] @ ''Brien'') =
      ''Bob O'' @ [single_quote, single_quote] @ ''Brien''"
    by (simp add: double_quotes_def)
  show "prepared C insert_user alice = inserted_alice"
    by (simp add: prepared_def bound alice_def inserted_alice_def param_of_i32_def param_of_str_def
        param_of_f64_def param_of_vec_def lits assms)
  show "prepared C insert_user bob = inserted_bob"
    by (simp add: prepared_def bound bob_def inserted_bob_def param_of_i32_def param_of_str_def
        param_of_f64_def lits assms quoted [simplified])
qed

definition demo_lines :: "(number \<Rightarrow> f64 option) \<Rightarrow> json list \<Rightarrow> demo_line list" where
  "demo_lines number_as_f64 vs =
     Columns (result_columns (new_result (vs ! 4)))
       # map (row_line number_as_f64) (result_rows (new_result (vs ! 4))) @
     [Count (case result_scalar_i64 (new_result (vs ! 5)) of Some n \<Rightarrow> n | None \<Rightarrow> 0),
      Databases (array_strings (vs ! 6) ''list'')]"

lemma demo_session_converses:
  assumes "converses C demo_conversation bodies outs vs sent cl"
    and captures: "\<forall>s. cx_captures C bind_pattern s = bind_captures s"
    and show_f64: "cx_show_f64 C 0x4023000000000000 = ''9.5''" "cx_show_f64 C 0x4008000000000000 = ''3''"
    and no_error: "result_server_error show_json (new_result (vs ! 4)) = None"
  shows "\<exists>cl'. demo_session C number_as_f64 show_json (cl, []) =
      (Inr Finished, cl', demo_lines number_as_f64 vs) \<and> outbox (cl_stream cl') = sent"
proof -
  note b = prepared_users [OF captures show_f64]
  have p: "prepared C sql [] = sql" for sql by (simp add: prepared_def)
  have maps: "map (cx_to_vec C) demo_conversation = map Inr bodies" "map (cx_from_slice C) outs = map Inr vs"
    "length bodies = length outs"
    using assms(1) by (simp_all add: converses_def)
  have "length vs = length demo_conversation"
    using maps(3) map_eq_imp_length_eq [OF maps(1)] map_eq_imp_length_eq [OF maps(2)] by simp
  also have "\<dots> = Suc (Suc (Suc (Suc (Suc (Suc (Suc 0))))))" by (simp add: demo_conversation_def)
  finally obtain v1 v2 v3 v4 v5 v6 v7 where vs: "vs = [v1, v2, v3, v4, v5, v6, v7]"
    unfolding length_Suc_conv length_0_conv by blast
  note c = assms(1) [unfolded demo_conversation_def list.map append.simps vs]
  obtain b1 o1 cl1 where 1: "on_client (query C create_users []) (cl, []) = (Inr (new_result v1), cl1, [])"
    "converses C (query_request ''example.db'' delete_users # query_request ''example.db'' inserted_alice #
      query_request ''example.db'' inserted_bob # query_request ''example.db'' select_users #
      query_request ''example.db'' count_users # [list_request]) b1 o1 [v2, v3, v4, v5, v6, v7] sent cl1"
    using converses_query [OF c p] .
  obtain b2 o2 cl2 where 2: "on_client (query C delete_users []) (cl1, []) = (Inr (new_result v2), cl2, [])"
    and c2: "converses C (query_request ''example.db'' inserted_alice #
      query_request ''example.db'' inserted_bob # query_request ''example.db'' select_users #
      query_request ''example.db'' count_users # [list_request]) b2 o2 [v3, v4, v5, v6, v7] sent cl2"
    using converses_query [OF 1(2) p] .
  obtain b3 o3 cl3 where 3: "on_client (query C insert_user alice) (cl2, []) = (Inr (new_result v3), cl3, [])"
    and c3: "converses C (query_request ''example.db'' inserted_bob #
      query_request ''example.db'' select_users #
      query_request ''example.db'' count_users # [list_request]) b3 o3 [v4, v5, v6, v7] sent cl3"
    using converses_query [OF c2 b(1)] .
  obtain b4 o4 cl4 where 4: "on_client (query C insert_user bob) (cl3, []) = (Inr (new_result v4), cl4, [])"
    and c4: "converses C (query_request ''example.db'' select_users #
      query_request ''example.db'' count_users # [list_request]) b4 o4 [v5, v6, v7] sent cl4"
    using converses_query [OF c3 b(2)] .
  obtain b5 o5 cl5 where 5: "on_client (query C select_users []) (cl4, []) = (Inr (new_result v5), cl5, [])"
    and c5: "converses C (query_request ''example.db'' count_users # [list_request]) b5 o5 [v6, v7] sent cl5"
    using converses_query [OF c4 p] .
  let ?rows = "Columns (result_columns (new_result v5)) # map (row_line number_as_f64) (result_rows (new_result v5))"
  obtain b6 o6 cl6 where 6: "on_client (query C count_users []) (cl5, ?rows) = (Inr (new_result v6), cl6, ?rows)"
    and c6: "converses C [list_request] b6 o6 [v7] sent cl6"
    using converses_query [OF c5 p] .
  obtain b7 o7 cl7 where 7: "call C list_request cl6 = (Inr v7, cl7)" and c7: "converses C [] b7 o7 [] sent cl7"
    using converses_call [OF c6] .
  have l: "on_client (list_dbs C) (cl6, ls) = (Inr (array_strings v7 ''list''), cl7, ls)" for ls
    by (simp add: on_client_def list_dbs_def 7)
  have "outbox (cl_stream cl7) = sent" using c7 by (auto simp: converses_def)
  moreover have "result_server_error show_json (new_result v5) = None" using no_error by (simp add: vs)
  ultimately show ?thesis
    by (simp add: demo_session_def 1(1) 2 3 4 5 6 l println_def demo_lines_def vs)
qed

lemma handle_all_length: "handle_all X h w reqs = Returns (vs, h1, w1) \<Longrightarrow> length vs = length reqs"
  by (induction reqs arbitrary: h w vs) (auto simp: run_bind_Returns_iff)

lemma handle_all_refused:
  assumes "auth (config h) \<noteq> []" "\<not> authenticated h"
    and "\<forall>req \<in> set reqs. \<exists>r. json_from_str X req = Inr r \<and> get_str r ''auth'' = None"
  shows "handle_all X h w reqs = Returns (replicate (length reqs) (result_json False), h, w)"
  using assms(3)
proof (induction reqs)
  case (Cons req reqs)
  then obtain r where "parse_request X req = Inr r" "get_str r ''auth'' = None"
    by (auto simp: parse_request_def)
  with Cons show ?case
    using handle_request_denied [OF assms(1,2), of X req w] by (simp add: is_login_def)
qed simp

lemma demo_conversation_no_login:
  "r \<in> set demo_conversation \<Longrightarrow> get_str r ''auth'' = None"
  using request_keys by (auto simp: demo_conversation_def)

text \<open>
  The server of configuration \<open>c\<close> on the demo's requests: they fit its packet limit, it answers
  \<open>vs\<close>, and the client reads each of these answers as what it is.
\<close>

definition demo_peer_answers ::
  "(string \<times> u16) client_externals \<Rightarrow> ('q, 'c, 's, 'r, 'w) externals \<Rightarrow> config \<Rightarrow> 'q world \<Rightarrow>
     u8 list list \<Rightarrow> json list \<Rightarrow> 'q world \<Rightarrow> bool" where
  "demo_peer_answers C X c w bodies vs w' \<longleftrightarrow>
     map (cx_to_vec C) demo_conversation = map Inr bodies \<and>
     (\<forall>b \<in> set bodies. length b \<le> unat (client_max_packet_size c)) \<and>
     (\<exists>h1 w1. handle_all X (new_handler c) w (map from_utf8_lossy bodies) = Returns (vs, h1, w1) \<and>
        w' = drop_handler X h1 w1) \<and>
     (\<forall>v \<in> set vs. length (response_body X v) < 2 ^ 32 \<and> cx_from_slice C (response_body X v) = Inr v) \<and>
     (\<forall>s. cx_captures C bind_pattern s = bind_captures s) \<and>
     cx_show_f64 C 0x4023000000000000 = ''9.5'' \<and> cx_show_f64 C 0x4008000000000000 = ''3''"

lemma connect_stream:
  "cx_connect C (DEFAULT_HOST, DEFAULT_PORT) = Inr st \<Longrightarrow>
     connect C db = Inr \<lparr>cl_stream = st, cl_database = db\<rparr>"
  by (simp add: connect_def connect_to_def connect_with_auth_def)

lemma demo_session_answered:
  assumes "demo_peer_answers C X c w bodies vs w'" "length (concat (map frame bodies)) \<le> n"
    and "result_server_error show_json (new_result (vs ! 4)) = None"
  shows "\<exists>cl'. demo_session C number_as_f64 show_json
      (\<lparr>cl_stream = \<lparr>inbox = concat (map (\<lambda>v. frame (response_body X v)) vs), outbox = [], accepts = n\<rparr>,
        cl_database = ''example.db''\<rparr>, []) =
      (Inr Finished, cl', demo_lines number_as_f64 vs) \<and>
    outbox (cl_stream cl') = concat (map frame bodies)"
proof -
  note p = assms(1) [unfolded demo_peer_answers_def]
  have "length vs = length bodies" using p handle_all_length [of X "new_handler c" w] by auto
  then have "converses C demo_conversation bodies (map (response_body X) vs) vs (concat (map frame bodies))
      \<lparr>cl_stream = \<lparr>inbox = concat (map (\<lambda>v. frame (response_body X v)) vs), outbox = [], accepts = n\<rparr>,
        cl_database = ''example.db''\<rparr>"
    using p assms(2) by (simp add: converses_def comp_def)
  then show ?thesis using demo_session_converses [OF _ _ _ _ assms(3)] p by blast
qed

lemma handle_answered:
  assumes "demo_peer_answers C X c w bodies vs w'"
  shows "\<exists>s1. handle X c w \<lparr>inbox = concat (map frame bodies), outbox = [],
        accepts = length (concat (map (\<lambda>v. frame (response_body X v)) vs))\<rparr> = Returns (Inr (), w', s1) \<and>
    outbox s1 = concat (map (\<lambda>v. frame (response_body X v)) vs)"
proof -
  let ?s = "\<lparr>inbox = concat (map frame bodies), outbox = [],
        accepts = length (concat (map (\<lambda>v. frame (response_body X v)) vs))\<rparr>"
  note p = assms [unfolded demo_peer_answers_def]
  obtain h1 w1 where all: "handle_all X (new_handler c) w (map from_utf8_lossy bodies) = Returns (vs, h1, w1)"
    "w' = drop_handler X h1 w1"
    using p by blast
  have "\<exists>s1. connection_loop X (new_handler c) w ?s = Returns (Inr (), h1, w1, s1) \<and>
      outbox s1 = outbox ?s @ concat (map (\<lambda>v. frame (response_body X v)) vs)"
    by (rule connection_loop_frames [OF _ _ _ all(1) handler_ok_new, of _ "[]"])
      (use p in \<open>simp_all add: stops_at_def new_handler_def\<close>)
  then show ?thesis by (auto simp: handle_def all(2))
qed

section \<open>A server for the witnesses\<close>

text \<open>
  An engine without state that answers the demo's statements: a cursor is the list of the rows
  left, a row the list of its values.
\<close>

definition users_rows :: "string \<Rightarrow> value_ref list list" where
  "users_rows q =
     (if q = select_users
      then [[Integer 1, value_ref.Text (bytes_of_str ''Alice''), value_ref.Real 0x4023000000000000,
              value_ref.Blob [0, 255]],
            [Integer 2, value_ref.Text (bytes_of_str ''Bob''), value_ref.Real 0x4008000000000000,
              value_ref.Null]]
      else if q = count_users then [[Integer 2]] else [])"

definition users_columns :: "string \<Rightarrow> string list" where
  "users_columns q =
     (if q = select_users then [''id'', ''name'', ''score'', ''data'']
      else if q = count_users then [''n''] else [])"

definition users_sqlite :: "(unit, string, string, value_ref list list, value_ref list) rusqlite" where
  "users_sqlite =
     \<lparr>sq_open = (\<lambda>p w. (Inr p, w)), sq_execute_batch = (\<lambda>c s w. (Inr (), w)),
      sq_prepare = (\<lambda>c q w. (Inr q, w)), sq_column_names = users_columns,
      sq_query = (\<lambda>q w. (Inr (users_rows q), w)),
      sq_next = (\<lambda>rows w. case rows of [] \<Rightarrow> (Inr None, [], w) | r # rs \<Rightarrow> (Inr (Some r), rs, w)),
      sq_get_ref = (\<lambda>r i. Inr (r ! i)), sq_finalize = (\<lambda>q w. w), sq_close = (\<lambda>c w. w)\<rparr>"

definition users_objects :: "string \<Rightarrow> json list" where
  "users_objects q =
     map (\<lambda>r. case row_object users_sqlite r 0 (users_columns q) [] of Inr m \<Rightarrow> Object m | Inl _ \<Rightarrow> json.Null)
       (users_rows q)"

definition users_answers :: "json list" where
  "users_answers =
     map (\<lambda>q. query_result (users_columns q) (users_objects q))
       [create_users, delete_users, inserted_alice, inserted_bob, select_users, count_users] @
     [json_object [(''list'', Array [String ''example.db''])]]"

text \<open>For evaluation: the answers written out.\<close>

lemma users_answers_code [code]:
  "users_answers =
     replicate 4 (Object [(''columns'', Array []), (''data'', Array [])]) @
     [Object
        [(''columns'', Array [String ''id'', String ''name'', String ''score'', String ''data'']),
         (''data'', Array
           [Object [(''data'', String (''X'' @ [single_quote] @ ''00ff'' @ [single_quote])),
              (''id'', Number (PosInt 1)), (''name'', String ''Alice''),
              (''score'', Number (Float 0x4023000000000000))],
            Object [(''data'', json.Null), (''id'', Number (PosInt 2)), (''name'', String ''Bob''),
              (''score'', Number (Float 0x4008000000000000))]])],
      Object [(''columns'', Array [String ''n'']), (''data'', Array [Object [(''n'', Number (PosInt 2))]])],
      Object [(''list'', Array [String ''example.db''])]]"
  by code_simp

definition users_files :: fs where
  "users_files =
     \<lparr>entries = [([''data''], Dir), ([''data'', ''example.db''], File []),
        ([''data'', ''x-wal''], File [])],
      cwd = [], rights = (\<lambda>_ _. True)\<rparr>"

definition users_world :: "unit world" where
  "users_world = \<lparr>files = users_files, engine = ()\<rparr>"

definition users_names :: "string list" where
  "users_names = [''r0'', ''r1'', ''r2'', ''r3'', ''r4'', ''r5'', ''r6'']"

text \<open>The texts of the values in play: one letter for each response.\<close>

definition users_texts :: "(string \<times> json) list" where
  "users_texts =
     zip [''e'', ''s'', ''c'', ''l''] (drop 3 users_answers) @ [(''f'', result_json False)]"

definition users_externals :: "(unit, string, string, value_ref list list, value_ref list) externals" where
  "users_externals =
     \<lparr>sqlite = users_sqlite,
      json_from_str = (\<lambda>s. ok_or '''' (map_of (zip users_names demo_conversation) s)),
      json_to_string = map_of (map (\<lambda>(a, b). (b, a)) users_texts),
      regex_captures = (\<lambda>p s. key_captures s)\<rparr>"

definition users_client :: "json list \<Rightarrow> (string \<times> u16) client_externals" where
  "users_client vs =
     \<lparr>cx_to_vec = (\<lambda>r. ok_or '''' (map_option bytes_of_str (map_of (zip demo_conversation users_names) r))),
      cx_from_slice = (\<lambda>b. ok_or '''' (map_of (map (\<lambda>(s, v). (bytes_of_str s, v)) users_texts) b)),
      cx_captures = (\<lambda>p s. bind_captures s),
      cx_show_f64 = (\<lambda>f. if f = 0x4023000000000000 then ''9.5'' else ''3''),
      cx_connect = (\<lambda>a. Inr
        \<lparr>inbox = concat (map (\<lambda>v. frame (response_body users_externals v)) vs), outbox = [], accepts = 42\<rparr>)\<rparr>"

lemma users_client_texts:
  "(\<forall>s. cx_captures (users_client vs) bind_pattern s = bind_captures s) \<and>
   cx_show_f64 (users_client vs) 0x4023000000000000 = ''9.5'' \<and>
   cx_show_f64 (users_client vs) 0x4008000000000000 = ''3''"
  by (simp add: users_client_def)

lemma users_connect:
  "cx_connect (users_client vs) a =
     Inr \<lparr>inbox = concat (map (\<lambda>v. frame (response_body users_externals v)) vs), outbox = [], accepts = 42\<rparr>"
  by (simp add: users_client_def)

lemma users_handle_all:
  "\<exists>h1 w1. handle_all users_externals (new_handler (demo_server [])) users_world users_names =
     Returns (users_answers, h1, w1)"
proof -
  have "case handle_all users_externals (new_handler (demo_server [])) users_world users_names of
      Returns (vs, _, _) \<Rightarrow> vs = users_answers | _ \<Rightarrow> False"
    by code_simp
  then show ?thesis by (auto split: run.splits)
qed

section \<open>Properties\<close>

text \<open>C15: The demo against the server: connected by two streams, the client sends exactly the seven
  requests with their parameters in place, the server's connection answers each of them and ends,
  and, if the answer to the SELECT reports no error, the demo prints the columns, the rows, the
  count and the databases the server answered, with exit code 0.\<close>

theorem demo_program_served:
  assumes "demo_peer_answers C X c w bodies vs w'"
    and "cx_connect C (DEFAULT_HOST, DEFAULT_PORT) =
      Inr \<lparr>inbox = concat (map (\<lambda>v. frame (response_body X v)) vs), outbox = [], accepts = n\<rparr>"
    and "length (concat (map frame bodies)) \<le> n"
    and "result_server_error show_json (new_result (vs ! 4)) = None"
  shows "demo_main C number_as_f64 show_json = (Finished, demo_lines number_as_f64 vs) \<and>
    (\<exists>cl cl' s1. connect C ''example.db'' = Inr cl \<and>
       demo_session C number_as_f64 show_json (cl, []) = (Inr Finished, cl', demo_lines number_as_f64 vs) \<and>
       handle X c w \<lparr>inbox = outbox (cl_stream cl'), outbox = [],
           accepts = length (inbox (cl_stream cl))\<rparr> = Returns (Inr (), w', s1) \<and>
       outbox s1 = inbox (cl_stream cl))"
proof -
  obtain cl' where "demo_session C number_as_f64 show_json
      (\<lparr>cl_stream = \<lparr>inbox = concat (map (\<lambda>v. frame (response_body X v)) vs), outbox = [], accepts = n\<rparr>,
        cl_database = ''example.db''\<rparr>, []) =
      (Inr Finished, cl', demo_lines number_as_f64 vs)" "outbox (cl_stream cl') = concat (map frame bodies)"
    using demo_session_answered [OF assms(1,3,4)] by blast
  with handle_answered [OF assms(1)] connect_stream [OF assms(2)] show ?thesis
    by (auto simp: demo_main_def)
qed

theorem demo_program_served_witness:
  "\<exists>number_as_f64. demo_main (users_client users_answers) number_as_f64 (\<lambda>v. []) =
     (Finished,
      [Columns [''id'', ''name'', ''score'', ''data''],
       RowLine (Some 1) (Some ''Alice'') (Some 0x4023000000000000) (Some [0, 255]),
       RowLine (Some 2) (Some ''Bob'') (Some 0x4008000000000000) None,
       Count 2, Databases [''example.db'']])"
proof -
  let ?f = "\<lambda>n. case n of Float f \<Rightarrow> Some f | _ \<Rightarrow> None"
  let ?bodies = "map bytes_of_str users_names"
  let ?C = "users_client users_answers"
  have names: "map from_utf8_lossy ?bodies = users_names" by code_simp
  obtain h1 w1 where h1: "handle_all users_externals (new_handler (demo_server [])) users_world users_names =
      Returns (users_answers, h1, w1)"
    using users_handle_all by blast
  have "demo_peer_answers ?C users_externals (demo_server []) users_world ?bodies users_answers
      (drop_handler users_externals h1 w1)"
  proof -
    have vec: "map (cx_to_vec ?C) demo_conversation = map Inr ?bodies" by code_simp
    have small: "\<forall>b \<in> set ?bodies. length b \<le> unat (client_max_packet_size (demo_server []))" by code_simp
    have read: "\<forall>v \<in> set users_answers. length (response_body users_externals v) < 5 \<and>
        cx_from_slice ?C (response_body users_externals v) = Inr v" by code_simp
    have "\<exists>h2 w2. handle_all users_externals (new_handler (demo_server [])) users_world
        (map from_utf8_lossy ?bodies) = Returns (users_answers, h2, w2) \<and>
        drop_handler users_externals h1 w1 = drop_handler users_externals h2 w2"
      using h1 names by metis
    moreover have "\<forall>v \<in> set users_answers. length (response_body users_externals v) < 2 ^ 32 \<and>
        cx_from_slice ?C (response_body users_externals v) = Inr v"
      using read by fastforce
    ultimately show ?thesis
      using vec small users_client_texts [of users_answers] unfolding demo_peer_answers_def by blast
  qed
  moreover have "length (concat (map frame ?bodies)) \<le> 42" by code_simp
  moreover have "result_server_error (\<lambda>v. []) (new_result (users_answers ! 4)) = None" by code_simp
  ultimately have "demo_main ?C ?f (\<lambda>v. []) = (Finished, demo_lines ?f users_answers)"
    using demo_program_served [of ?C users_externals "demo_server []" users_world ?bodies users_answers
        "drop_handler users_externals h1 w1" 42 "\<lambda>v. []" ?f]
    by (simp add: users_client_def)
  moreover have "demo_lines ?f users_answers =
      [Columns [''id'', ''name'', ''score'', ''data''],
       RowLine (Some 1) (Some ''Alice'') (Some 0x4023000000000000) (Some [0, 255]),
       RowLine (Some 2) (Some ''Bob'') (Some 0x4008000000000000) None,
       Count 2, Databases [''example.db'']]"
    by code_simp
  ultimately show ?thesis by metis
qed

text \<open>C16: A server that requires a password refuses every request of the demo, and the demo does not
  notice: a refusal is no \<open>server_error\<close>, so it prints an empty result, a count of 0 and no
  databases, and exits with code 0.\<close>

theorem demo_program_refused:
  assumes "demo_peer_answers C X c w bodies vs w'" "auth c \<noteq> []"
    and "map (\<lambda>b. json_from_str X (from_utf8_lossy b)) bodies = map Inr demo_conversation"
    and "cx_connect C (DEFAULT_HOST, DEFAULT_PORT) =
      Inr \<lparr>inbox = concat (map (\<lambda>v. frame (response_body X v)) vs), outbox = [], accepts = n\<rparr>"
    and "length (concat (map frame bodies)) \<le> n"
  shows "vs = replicate 7 (result_json False) \<and> w' = w \<and>
    demo_main C number_as_f64 show_json = (Finished, [Columns [], Count 0, Databases []])"
proof -
  let ?reqs = "map from_utf8_lossy bodies"
  have parsed: "\<exists>r. json_from_str X req = Inr r \<and> get_str r ''auth'' = None" if "req \<in> set ?reqs" for req
  proof -
    have "json_from_str X req \<in> set (map (\<lambda>b. json_from_str X (from_utf8_lossy b)) bodies)"
      using that by auto
    then show ?thesis unfolding assms(3) using demo_conversation_no_login by auto
  qed
  have "length bodies = 7"
    using map_eq_imp_length_eq [OF assms(3)] by (simp add: demo_conversation_def)
  then have vs: "vs = replicate 7 (result_json False)" "w' = w"
    using assms(1,2) handle_all_refused [of "new_handler c" ?reqs X w] parsed
    by (auto simp: demo_peer_answers_def new_handler_def drop_handler_def)
  have r: "result_server_error show_json (new_result (vs ! 4)) = None"
    "demo_lines number_as_f64 vs = [Columns [], Count 0, Databases []]"
    by (simp_all add: vs result_server_error_def new_result_def result_json_def map_of_json_object
        demo_lines_def result_columns_def array_strings_def get_array_def result_rows_def result_data_def
        result_scalar_i64_def result_scalar_def List.map_filter_simps obj_of_list_def)
  obtain cl' where "demo_session C number_as_f64 show_json
      (\<lparr>cl_stream = \<lparr>inbox = concat (map (\<lambda>v. frame (response_body X v)) vs), outbox = [], accepts = n\<rparr>,
        cl_database = ''example.db''\<rparr>, []) = (Inr Finished, cl', demo_lines number_as_f64 vs)"
    using demo_session_answered [OF assms(1,5) r(1)] by blast
  with connect_stream [OF assms(4)] r(2) vs show ?thesis by (simp add: demo_main_def)
qed

theorem demo_program_refused_witness:
  "\<exists>f J. demo_main (users_client (replicate 7 (result_json False))) f J =
     (Finished, [Columns [], Count 0, Databases []])"
proof -
  let ?bodies = "map bytes_of_str users_names"
  let ?vs = "replicate 7 (result_json False)"
  let ?C = "users_client ?vs"
  have names: "map from_utf8_lossy ?bodies = users_names" by code_simp
  have parsed: "map (json_from_str users_externals) users_names = map Inr demo_conversation" by code_simp
  have seven: "length users_names = 7" by (simp add: users_names_def)
  have peer: "demo_peer_answers ?C users_externals (demo_server ''pw'') users_world ?bodies ?vs users_world"
  proof -
    have vec: "map (cx_to_vec ?C) demo_conversation = map Inr ?bodies" by code_simp
    have small: "\<forall>b \<in> set ?bodies. length b \<le> unat (client_max_packet_size (demo_server ''pw''))" by code_simp
    have read: "length (response_body users_externals (result_json False)) < 5 \<and>
        cx_from_slice ?C (response_body users_externals (result_json False)) = Inr (result_json False)"
      by code_simp
    have "\<exists>r. json_from_str users_externals req = Inr r \<and> get_str r ''auth'' = None"
      if "req \<in> set users_names" for req
    proof -
      have "json_from_str users_externals req \<in> set (map Inr demo_conversation)"
        using that unfolding parsed [symmetric] by simp
      then show ?thesis using demo_conversation_no_login by auto
    qed
    then have "handle_all users_externals (new_handler (demo_server ''pw'')) users_world users_names =
        Returns (?vs, new_handler (demo_server ''pw''), users_world)"
      using handle_all_refused [of "new_handler (demo_server ''pw'')" users_names users_externals users_world] seven
      by simp
    then have "\<exists>h1 w1. handle_all users_externals (new_handler (demo_server ''pw'')) users_world
        (map from_utf8_lossy ?bodies) = Returns (?vs, h1, w1) \<and> users_world = drop_handler users_externals h1 w1"
      using names by (auto simp: drop_handler_def)
    moreover have "\<forall>v \<in> set ?vs. length (response_body users_externals v) < 2 ^ 32 \<and>
        cx_from_slice ?C (response_body users_externals v) = Inr v"
      using read by fastforce
    ultimately show ?thesis
      using vec small users_client_texts [of ?vs] unfolding demo_peer_answers_def by blast
  qed
  have fits: "length (concat (map frame ?bodies)) \<le> 42" by code_simp
  have reads: "map (\<lambda>b. json_from_str users_externals (from_utf8_lossy b)) ?bodies = map Inr demo_conversation"
  proof -
    have "map (\<lambda>b. json_from_str users_externals (from_utf8_lossy b)) ?bodies =
        map (json_from_str users_externals) (map from_utf8_lossy ?bodies)"
      by simp
    then show ?thesis unfolding names parsed .
  qed
  have "?vs = replicate 7 (result_json False) \<and> users_world = users_world \<and>
      demo_main ?C (\<lambda>n. None) (\<lambda>v. []) = (Finished, [Columns [], Count 0, Databases []])"
    by (rule demo_program_refused [OF peer _ reads users_connect fits]) simp
  then show ?thesis by blast
qed

end
