(* ===== verification/Filesystem_Write.thy ===== *)
theory Filesystem_Write
  imports Filesystem
begin

text \<open>
  Creating and overwriting files in the tree of theory Filesystem, as the unit tests do: what was
  written is read back, and nothing that existed is lost.
\<close>

text \<open>\<open>std::fs::create_dir_all\<close> on an absolute path without links.\<close>

fun add_dirs :: "fs \<Rightarrow> location \<Rightarrow> string list \<Rightarrow> fs option" where
  "add_dirs t cur [] = Some t"
| "add_dirs t cur (s # rest) =
     (case node_at t (cur @ [s]) of
        None \<Rightarrow> add_dirs (t\<lparr>entries := entries t @ [(cur @ [s], Dir)]\<rparr>) (cur @ [s]) rest
      | Some Dir \<Rightarrow> add_dirs t (cur @ [s]) rest
      | Some _ \<Rightarrow> None)"

definition create_dir_all :: "fs \<Rightarrow> string \<Rightarrow> fs option" where
  "create_dir_all t p = add_dirs t [] (filter (\<lambda>s. s \<noteq> '''' \<and> s \<noteq> ''.'') (split_on CHR ''/'' p))"

text \<open>A file at a location, in place of what was there.\<close>

definition put_file :: "fs \<Rightarrow> location \<Rightarrow> u8 list \<Rightarrow> fs" where
  "put_file t loc bs = t\<lparr>entries := AList.update loc (File bs) (entries t)\<rparr>"

lemma put_file_sels [simp]: "rights (put_file t loc bs) = rights t" "cwd (put_file t loc bs) = cwd t"
  by (simp_all add: put_file_def)

definition file_place :: "fs \<Rightarrow> location \<Rightarrow> bool" where
  "file_place t loc \<longleftrightarrow> loc \<noteq> [] \<and> (\<forall>nd. node_at t loc = Some nd \<longrightarrow> is_file_node nd)"

lemma node_at_put_file:
  "loc \<noteq> [] \<Longrightarrow> node_at (put_file t loc bs) l = (if l = loc then Some (File bs) else node_at t l)"
  by (auto simp: node_at_def put_file_def update_conv')

text \<open>\<open>std::fs::write\<close>\<close>

definition fs_write :: "fs \<Rightarrow> string \<Rightarrow> u8 list \<Rightarrow> fs option" where
  "fs_write t p bs =
     (case open_location t p of
        None \<Rightarrow> None
      | Some loc \<Rightarrow>
          (case node_at t loc of
             None \<Rightarrow> Some (put_file t loc bs)
           | Some nd \<Rightarrow> if is_file_node nd then Some (put_file t loc bs) else None))"

lemma file_place_not_Dir: "file_place t loc \<Longrightarrow> node_at t l = Some Dir \<Longrightarrow> l \<noteq> loc"
  by (auto simp: file_place_def is_file_node_def)

lemma walk_put_file:
  "file_place t loc \<Longrightarrow> walk t links cur segs = Some d \<Longrightarrow>
     walk (put_file t loc bs) links cur segs = Some d"
proof (induction t links cur segs rule: walk.induct)
  case (2 t links cur s rest)
  note unfold = walk.simps(2) [of t links cur s rest] walk.simps(2) [of "put_file t loc bs" links cur s rest]
  have loc: "loc \<noteq> []" using "2.prems"(1) by (simp add: file_place_def)
  from "2.prems"(2) have dir: "node_at t cur = Some Dir" "rights t Search cur"
    by (auto simp: unfold split: if_splits)
  have cur: "cur \<noteq> loc" using file_place_not_Dir "2.prems"(1) dir(1) by blast
  consider "s = '''' \<or> s = ''.''" | "s = ''..''" | "s \<notin> {'''', ''.'', ''..''}" by blast
  then show ?case
  proof cases
    case 1
    with "2.prems" "2.IH"(1) dir cur loc show ?thesis by (auto simp: unfold node_at_put_file)
  next
    case 2
    then show ?thesis
      using "2.prems" "2.IH"(2) dir cur loc unfolding unfold by (simp add: node_at_put_file)
  next
    case 3
    then obtain nd where nd: "node_at t (cur @ [s]) = Some nd"
      using "2.prems" dir by (auto simp: unfold split: option.splits)
    have isf: "is_file_node nd" if "cur @ [s] = loc" using that nd "2.prems"(1) by (auto simp: file_place_def)
    show ?thesis
      using 3 nd dir cur loc isf "2.prems" "2.IH"(3-6) [OF _ _ _ nd]
      by (cases nd) (auto simp: unfold node_at_put_file is_file_node_def split: if_splits)
  qed
qed simp

lemma create_walk_put_file:
  "file_place t loc \<Longrightarrow> create_walk t links cur segs = Some loc \<Longrightarrow>
     walk (put_file t loc bs) links cur segs = Some loc"
proof (induction t links cur segs rule: create_walk.induct)
  case (2 t links cur s rest)
  note unfold = create_walk.simps(2) [of t links cur s rest]
    walk.simps(2) [of "put_file t loc bs" links cur s rest]
  have loc: "loc \<noteq> []" using "2.prems"(1) by (simp add: file_place_def)
  from "2.prems"(2) have dir: "node_at t cur = Some Dir" "rights t Search cur"
    by (auto simp: unfold split: if_splits)
  have cur: "cur \<noteq> loc" using file_place_not_Dir "2.prems"(1) dir(1) by blast
  consider "s = '''' \<or> s = ''.''" | "s = ''..''" | "s \<notin> {'''', ''.'', ''..''}" by blast
  then show ?case
  proof cases
    case 1
    with "2.prems" "2.IH"(1) dir cur loc show ?thesis by (auto simp: unfold node_at_put_file)
  next
    case 2
    then show ?thesis
      using "2.prems" "2.IH"(2) dir cur loc unfolding unfold by (simp add: node_at_put_file)
  next
    case 3
    show ?thesis
    proof (cases "node_at t (cur @ [s])")
      case None
      with 3 dir cur loc "2.prems" show ?thesis by (auto simp: unfold node_at_put_file split: if_splits)
    next
      case (Some nd)
      have isf: "is_file_node nd" if "cur @ [s] = loc" using that Some "2.prems"(1) by (auto simp: file_place_def)
      show ?thesis
        using 3 Some dir cur loc isf "2.prems" "2.IH"(3-6) [OF _ _ _ Some]
        by (cases nd) (auto simp: unfold node_at_put_file is_file_node_def split: if_splits)
    qed
  qed
qed simp

text \<open>What was written is there, and nothing that existed is lost.\<close>

lemma fs_exists_put_file:
  assumes "file_place t loc" "fs_exists t p"
  shows "fs_exists (put_file t loc bs) p"
proof -
  obtain d where d: "resolve t p = Some d" "node_at t d \<noteq> None"
    using assms(2) by (cases "resolve t p") (auto simp: fs_exists_def fs_metadata_def)
  then have "resolve (put_file t loc bs) p = Some d"
    using walk_put_file [OF assms(1)] by (auto simp: resolve_def split: if_splits)
  moreover have "loc \<noteq> []" using assms(1) by (simp add: file_place_def)
  ultimately show ?thesis
    using d(2) by (auto simp: fs_exists_def fs_metadata_def node_at_put_file)
qed

lemma read_put_file:
  assumes "file_place t loc" "open_location t p = Some loc" "rights t ReadFile loc"
  shows "fs_exists (put_file t loc bs) p \<and> read_to_string (put_file t loc bs) p = from_utf8 bs"
proof -
  have "resolve (put_file t loc bs) p = Some loc"
    using assms(2) create_walk_put_file [OF assms(1)]
    by (auto simp: open_location_def resolve_def split: if_splits)
  moreover have "loc \<noteq> []" using assms(1) by (simp add: file_place_def)
  ultimately show ?thesis
    using assms(3) by (simp add: fs_exists_def fs_metadata_def read_to_string_def node_at_put_file)
qed

lemma fs_write_put_file:
  assumes "fs_write t p bs = Some t'"
  obtains loc where "open_location t p = Some loc" "t' = put_file t loc bs" "file_place t loc"
  using assms
  by (cases "open_location t p")
    (auto simp: fs_write_def file_place_def node_at_def is_file_node_def split: option.splits if_splits node.splits)

lemma fs_write_read:
  assumes "fs_write t p bs = Some t'" "\<And>loc. rights t ReadFile loc"
  shows "fs_exists t' p \<and> read_to_string t' p = from_utf8 bs \<and> (fs_exists t q \<longrightarrow> fs_exists t' q)"
proof -
  obtain loc where "open_location t p = Some loc" "t' = put_file t loc bs" "file_place t loc"
    using fs_write_put_file [OF assms(1)] .
  then show ?thesis using read_put_file [of t loc p bs] fs_exists_put_file [of t loc q bs] assms(2) by auto
qed

end
