(* ===== verification/Config_Tests.thy ===== *)
theory Config_Tests
  imports Config Filesystem_Write
begin

text \<open>
  The unit tests of \<open>src/src/config.rs\<close>, replayed: each test is a predicate on the environment it
  runs in, true if its assertions hold and its \<open>unwrap\<close>s do not fail, and passes in every
  environment whose temporary directory can be written and in which \<open>serde_json\<close> parses the written
  text as the value it denotes. Removing the directory at the end of a test is left out.
\<close>

section \<open>Test helpers\<close>

text \<open>The two helpers of the tests; the temporary directory, the clock and the counter are arguments.\<close>

definition temp_dir :: "string \<Rightarrow> string \<Rightarrow> string \<Rightarrow> fs \<Rightarrow> (string \<times> fs) option" where
  "temp_dir tmp nanos counter t =
     (let dir = path_join tmp (''ssrs-config-'' @ nanos @ ''-'' @ counter)
      in map_option (Pair dir) (create_dir_all t dir))"

definition write_config :: "string \<Rightarrow> string \<Rightarrow> fs \<Rightarrow> (string \<times> fs) option" where
  "write_config dir body t =
     (let path = path_join dir ''config.json''
      in map_option (Pair path) (fs_write t path (bytes_of_str body)))"

text \<open>\<open>from_file(write_config(dir, body))\<close>\<close>

definition from_written :: "environment \<Rightarrow> string \<Rightarrow> string \<Rightarrow> (string + config) option" where
  "from_written env dir body =
     map_option (\<lambda>(path, t). from_file (env\<lparr>env_files := t\<rparr>) path) (write_config dir body (env_files env))"

definition unwraps :: "('e + 'a) option \<Rightarrow> ('a \<Rightarrow> bool) \<Rightarrow> bool" where
  "unwraps r P = (case r of Some (Inr x) \<Rightarrow> P x | _ \<Rightarrow> False)"

definition fails_with :: "(string + 'a) option \<Rightarrow> string \<Rightarrow> bool" where
  "fails_with r msg = (case r of Some (Inl e) \<Rightarrow> sublist msg e | _ \<Rightarrow> False)"

text \<open>\<open>contains(s.parse().unwrap())\<close>, and the same for the whole configuration.\<close>

definition contains_str :: "cidr \<Rightarrow> string \<Rightarrow> bool \<Rightarrow> bool" where
  "contains_str net s b =
     (case parse_ip_addr s of Some ip \<Rightarrow> cidr_contains net ip = Returns b | None \<Rightarrow> False)"

definition allows_str :: "config \<Rightarrow> string \<Rightarrow> bool \<Rightarrow> bool" where
  "allows_str c s b =
     (case parse_ip_addr s of Some ip \<Rightarrow> is_ip_allowed c ip = Returns b | None \<Rightarrow> False)"

section \<open>Endpoints and folders\<close>

definition resolve_endpoint_prefers_ipv4_numeric :: "environment \<Rightarrow> bool" where
  "resolve_endpoint_prefers_ipv4_numeric env =
     (let addr = resolve_endpoint env ''127.0.0.1'' 3333
      in is_ipv4 (sock_ip addr) \<and> sock_port addr = 3333)"

definition resolve_endpoint_falls_back_when_unresolvable :: "environment \<Rightarrow> bool" where
  "resolve_endpoint_falls_back_when_unresolvable env =
     (resolve_endpoint env (''bad'' @ [CHR 0x00] @ ''host'') 1234 =
        SocketAddr (V4 (of_be_octets [127, 0, 0, 1])) 3333)"

definition resolve_database_path_makes_absolute_when_existing :: "environment \<Rightarrow> string \<Rightarrow> bool" where
  "resolve_database_path_makes_absolute_when_existing env dir =
     unwraps (Some (resolve_database_path env dir)) is_absolute"

definition resolve_database_path_errors_when_missing :: "environment \<Rightarrow> bool" where
  "resolve_database_path_errors_when_missing env =
     fails_with (Some (resolve_database_path env ''/no/such/folder/ssrs-xyz'')) ''does not exist''"

text \<open>These four hold wherever the resolver and the file system are as the tests say.\<close>

lemma endpoint_tests_pass:
  "resolve_endpoint_prefers_ipv4_numeric env"
  "env_lookup_host env (''bad'' @ [CHR 0x00] @ ''host'') 1234 = Inl e \<Longrightarrow>
     resolve_endpoint_falls_back_when_unresolvable env"
proof -
  have p: "parse_ipv4 ''127.0.0.1'' = Some 0x7F000001"
    "parse_ipv4 (''bad'' @ [CHR 0x00] @ ''host'') = None" "parse_ipv6 (''bad'' @ [CHR 0x00] @ ''host'') = None"
    by code_simp+
  show "resolve_endpoint_prefers_ipv4_numeric env"
    by (simp add: resolve_endpoint_prefers_ipv4_numeric_def resolve_endpoint_def to_socket_addrs_def p(1))
  show "resolve_endpoint_falls_back_when_unresolvable env"
    if "env_lookup_host env (''bad'' @ [CHR 0x00] @ ''host'') 1234 = Inl e"
    unfolding resolve_endpoint_falls_back_when_unresolvable_def resolve_endpoint_def to_socket_addrs_def
      p(2,3) that by (simp add: fallback_endpoint_def)
qed

lemma sublist_middle: "sublist b (a @ b @ c)"
  by (auto simp: sublist_def)

lemma folder_tests_pass:
  "env_ok env \<Longrightarrow> resolve_database_path env dir = Inr p \<Longrightarrow>
     resolve_database_path_makes_absolute_when_existing env dir"
  "\<not> fs_exists (env_files env) ''/no/such/folder/ssrs-xyz'' \<Longrightarrow>
     resolve_database_path_errors_when_missing env"
  using resolve_database_path_ok [of env dir p]
    sublist_middle [of "''does not exist''" "''Databases folder ''" "'' in: '' @ p" for p]
  by (auto simp: resolve_database_path_makes_absolute_when_existing_def unwraps_def
      resolve_database_path_errors_when_missing_def fails_with_def resolve_database_path_def is_absolute_def)

section \<open>Networks\<close>

definition cidr_parse_and_contains_ipv4 :: bool where
  "cidr_parse_and_contains_ipv4 =
     (unwraps (Some (cidr_parse ''10.0.0.0/8''))
        (\<lambda>net. contains_str net ''10.1.2.3'' True \<and> contains_str net ''11.0.0.1'' False) \<and>
      unwraps (Some (cidr_parse ''10.1.2.3/8'')) (\<lambda>net. cidr_to_string net = ''10.0.0.0/8''))"

definition cidr_bare_address_is_single_host :: bool where
  "cidr_bare_address_is_single_host =
     unwraps (Some (cidr_parse ''127.0.0.1''))
       (\<lambda>net. cidr_to_string net = ''127.0.0.1/32'' \<and> contains_str net ''127.0.0.1'' True \<and>
          contains_str net ''127.0.0.2'' False)"

definition cidr_ipv6_and_cross_family :: bool where
  "cidr_ipv6_and_cross_family =
     unwraps (Some (cidr_parse ''2001:db8::/32''))
       (\<lambda>net. contains_str net ''2001:db8::1'' True \<and> contains_str net ''2001:dead::1'' False \<and>
          contains_str net ''10.0.0.1'' False)"

definition cidr_rejects_invalid :: bool where
  "cidr_rejects_invalid =
     (isl (cidr_parse ''not.an.ip/8'') \<and> isl (cidr_parse ''10.0.0.0/33'') \<and>
      isl (cidr_parse ''::1/129''))"

lemma cidr_tests_pass:
  "cidr_parse_and_contains_ipv4" "cidr_bare_address_is_single_host" "cidr_ipv6_and_cross_family"
  "cidr_rejects_invalid"
  by code_simp+

section \<open>The config file\<close>

text \<open>\<open>serde_json::to_string\<close> of the directory name is the argument \<open>show_str\<close>.\<close>

definition all_keys_body :: "(string \<Rightarrow> string) \<Rightarrow> string \<Rightarrow> string" where
  "all_keys_body show_str dir =
     ''{\"client_max_packet_size\":1024,\"workers\":3,\"listen_ip\":\"127.0.0.1\",\"listen_port\":4567,'' @
     ''\"busy_timeout_ms\":1234,\"databases_folder\":'' @ show_str dir @ ''}''"

definition from_file_parses_all_keys :: "(string \<Rightarrow> string) \<Rightarrow> environment \<Rightarrow> string \<Rightarrow> bool" where
  "from_file_parses_all_keys show_str env dir =
     unwraps (from_written env dir (all_keys_body show_str dir))
       (\<lambda>config. client_max_packet_size config = 1024 \<and> workers config = 3 \<and>
          sock_port (listen_addr config) = 4567 \<and> is_ipv4 (sock_ip (listen_addr config)) \<and>
          is_absolute (databases_folder config) \<and> busy_timeout_ms config = 1234)"

definition empty_body :: "(string \<Rightarrow> string) \<Rightarrow> string \<Rightarrow> string" where
  "empty_body show_str dir =
     ''{\"client_max_packet_size\":1,\"workers\":1,\"listen_ip\":\"127.0.0.1\",\"listen_port\":3333,'' @
     ''\"databases_folder\":'' @ show_str dir @ ''}''"

definition is_ip_allowed_empty_allows_all :: "(string \<Rightarrow> string) \<Rightarrow> environment \<Rightarrow> string \<Rightarrow> bool" where
  "is_ip_allowed_empty_allows_all show_str env dir =
     unwraps (from_written env dir (empty_body show_str dir))
       (\<lambda>config. auth config = [] \<and> ip_whitelist config = [] \<and> allows_str config ''8.8.8.8'' True \<and>
          ip_whitelist_repr config = ''(any)'')"

definition auth_body :: "(string \<Rightarrow> string) \<Rightarrow> string \<Rightarrow> string" where
  "auth_body show_str dir =
     ''{\"client_max_packet_size\":1,\"workers\":1,\"listen_ip\":\"127.0.0.1\",\"listen_port\":3333,'' @
     ''\"auth\":\"s3cret\",\"ip_whitelist\":[\"127.0.0.1\",\"10.0.0.0/8\"],\"databases_folder\":'' @
     show_str dir @ ''}''"

definition from_file_parses_auth_and_whitelist :: "(string \<Rightarrow> string) \<Rightarrow> environment \<Rightarrow> string \<Rightarrow> bool" where
  "from_file_parses_auth_and_whitelist show_str env dir =
     unwraps (from_written env dir (auth_body show_str dir))
       (\<lambda>config. auth config = ''s3cret'' \<and> allows_str config ''127.0.0.1'' True \<and>
          allows_str config ''10.9.9.9'' True \<and> allows_str config ''192.168.0.1'' False)"

definition whitelist_body :: "(string \<Rightarrow> string) \<Rightarrow> string \<Rightarrow> string \<Rightarrow> string" where
  "whitelist_body show_str dir whitelist =
     ''{\"client_max_packet_size\":1,\"workers\":1,\"listen_ip\":\"127.0.0.1\",\"listen_port\":3333,'' @
     ''\"ip_whitelist\":'' @ whitelist @ '',\"databases_folder\":'' @ show_str dir @ ''}''"

definition from_file_rejects_bad_whitelist :: "(string \<Rightarrow> string) \<Rightarrow> environment \<Rightarrow> string \<Rightarrow> bool" where
  "from_file_rejects_bad_whitelist show_str env dir =
     (fails_with (from_written env dir (whitelist_body show_str dir ''\"127.0.0.1\"''))
        ''must be an array'' \<and>
      fails_with (from_written env dir (whitelist_body show_str dir ''[\"nope/8\"]''))
        ''Invalid ip_whitelist entry'')"

definition default_body :: "(string \<Rightarrow> string) \<Rightarrow> string \<Rightarrow> string" where
  "default_body show_str dir =
     ''{\"client_max_packet_size\":1024,\"workers\":1,\"listen_ip\":\"127.0.0.1\",\"listen_port\":3333,'' @
     ''\"databases_folder\":'' @ show_str dir @ ''}''"

definition from_file_busy_timeout_defaults_when_absent ::
  "(string \<Rightarrow> string) \<Rightarrow> environment \<Rightarrow> string \<Rightarrow> bool" where
  "from_file_busy_timeout_defaults_when_absent show_str env dir =
     unwraps (from_written env dir (default_body show_str dir))
       (\<lambda>config. busy_timeout_ms config = DEFAULT_BUSY_TIMEOUT_MS)"

definition from_file_missing_file :: "environment \<Rightarrow> bool" where
  "from_file_missing_file env =
     fails_with (Some (from_file env ''/no/such/path/ssrs-config.json'')) ''Config file does not exist''"

definition from_file_invalid_json :: "environment \<Rightarrow> string \<Rightarrow> bool" where
  "from_file_invalid_json env dir =
     fails_with (from_written env dir ''{ this is not json'') ''Config parse error''"

definition from_file_missing_key :: "environment \<Rightarrow> string \<Rightarrow> bool" where
  "from_file_missing_key env dir =
     fails_with (from_written env dir ''{\"workers\":1}'') ''Missing key''"

definition wrong_type_body :: "(string \<Rightarrow> string) \<Rightarrow> string \<Rightarrow> string" where
  "wrong_type_body show_str dir =
     ''{\"client_max_packet_size\":1024,\"workers\":\"three\",\"listen_ip\":\"127.0.0.1\",\"listen_port\":4567,'' @
     ''\"databases_folder\":'' @ show_str dir @ ''}''"

definition from_file_wrong_value_type :: "(string \<Rightarrow> string) \<Rightarrow> environment \<Rightarrow> string \<Rightarrow> bool" where
  "from_file_wrong_value_type show_str env dir =
     fails_with (from_written env dir (wrong_type_body show_str dir)) ''must be a non-negative number''"

section \<open>The tests pass\<close>

definition can_write :: "environment \<Rightarrow> string \<Rightarrow> bool" where
  "can_write env dir \<longleftrightarrow>
     is_absolute dir \<and> fs_exists (env_files env) dir \<and> (\<forall>loc. rights (env_files env) ReadFile loc) \<and>
     (\<forall>body. write_config dir body (env_files env) \<noteq> None)"

lemma from_written_read:
  assumes "can_write env dir" "is_str body"
  obtains t where "fs_exists t dir"
    "from_written env dir body =
       Some (case env_from_str env body of
           Inl e \<Rightarrow> Inl (''Config parse error: '' @ e)
         | Inr json \<Rightarrow> config_of_json (env\<lparr>env_files := t\<rparr>) json)"
proof -
  let ?path = "path_join dir ''config.json''"
  obtain t where t: "fs_write (env_files env) ?path (bytes_of_str body) = Some t"
    using assms(1) unfolding can_write_def write_config_def Let_def by blast
  have r: "\<And>loc. rights (env_files env) ReadFile loc" using assms(1) by (simp add: can_write_def)
  note f = fs_write_read [OF t r]
  have "from_utf8 (bytes_of_str body) = Some body"
    using assms(2) by (simp add: from_utf8_def is_str_def)
  with f have "from_file (env\<lparr>env_files := t\<rparr>) ?path =
      (case env_from_str env body of
         Inl e \<Rightarrow> Inl (''Config parse error: '' @ e)
       | Inr json \<Rightarrow> config_of_json (env\<lparr>env_files := t\<rparr>) json)"
    by (cases "env_from_str env body") (simp_all add: from_file_def)
  then have "from_written env dir body =
      Some (case env_from_str env body of
         Inl e \<Rightarrow> Inl (''Config parse error: '' @ e)
       | Inr json \<Rightarrow> config_of_json (env\<lparr>env_files := t\<rparr>) json)"
    by (simp add: from_written_def write_config_def t)
  moreover have "fs_exists t dir" using f assms(1) by (simp add: can_write_def)
  ultimately show thesis by (rule that [rotated])
qed

text \<open>The values the written texts denote.\<close>

definition tests_object :: "string \<Rightarrow> u64 \<Rightarrow> json \<Rightarrow> u64 \<Rightarrow> (string \<times> json) list \<Rightarrow> json" where
  "tests_object dir packet nworkers port members =
     json_object
       ([(''client_max_packet_size'', Number (PosInt packet)), (''workers'', nworkers),
         (''listen_ip'', String ''127.0.0.1''), (''listen_port'', Number (PosInt port))] @ members @
        [(''databases_folder'', String dir)])"

lemma tests_object_config:
  assumes "fs_exists (env_files env) dir" "is_absolute dir"
    and "set (map fst members) \<subseteq> {''busy_timeout_ms'', ''auth'', ''ip_whitelist''}"
  shows "config_of_json env (tests_object dir packet (Number (PosInt n)) port members) =
    res_bind (optional_busy_timeout (json_object members)) (\<lambda>busy.
    res_bind (optional_auth (json_object members)) (\<lambda>au.
    res_bind (parse_whitelist_json (json_object members)) (\<lambda>whitelist.
      Inr \<lparr>listen_addr = SocketAddr (V4 0x7F000001) (ucast port), workers = n, databases_folder = dir,
           client_max_packet_size = ucast packet, busy_timeout_ms = busy, auth = au,
           ip_whitelist = whitelist\<rparr>)))"
proof -
  let ?v = "tests_object dir packet (Number (PosInt n)) port members"
  have ip: "resolve_endpoint env ''127.0.0.1'' p = SocketAddr (V4 0x7F000001) p" for p
  proof -
    have "parse_ipv4 ''127.0.0.1'' = Some 0x7F000001" by code_simp
    then show ?thesis by (simp add: resolve_endpoint_def to_socket_addrs_def)
  qed
  have none: "map_of (rev members) k = None" if "k \<notin> {''busy_timeout_ms'', ''auth'', ''ip_whitelist''}" for k
    using assms(3) that by (auto simp: map_of_eq_None_iff)
  have "value_get ?v k = value_get (json_object members) k"
    if "k \<in> {''busy_timeout_ms'', ''auth'', ''ip_whitelist''}" for k
    using that by (auto simp: tests_object_def map_add_def split: option.split)
  then have opts: "optional_busy_timeout ?v = optional_busy_timeout (json_object members)"
    "optional_auth ?v = optional_auth (json_object members)"
    "parse_whitelist_json ?v = parse_whitelist_json (json_object members)"
    by (simp_all only: optional_busy_timeout_def optional_auth_def parse_whitelist_json_def insertI1 insertI2)
  have req: "require_str ?v ''listen_ip'' = Inr ''127.0.0.1''" "require_u64 ?v ''listen_port'' = Inr port"
    "require_u64 ?v ''workers'' = Inr n" "require_str ?v ''databases_folder'' = Inr dir"
    "require_u64 ?v ''client_max_packet_size'' = Inr packet"
    by (simp_all add: require_str_def require_u64_def tests_object_def none map_add_def ok_or_def)
  have dir: "resolve_database_path env dir = Inr dir"
    using assms(1,2) by (simp add: resolve_database_path_def)
  show ?thesis
    unfolding config_of_json_def req opts dir by (simp add: ip dir)
qed

text \<open>\<open>serde_json\<close> on the written texts, which are text.\<close>

definition parses :: "environment \<Rightarrow> string \<Rightarrow> json \<Rightarrow> bool" where
  "parses env body v \<longleftrightarrow> is_str body \<and> env_from_str env body = Inr v"

lemma from_written_object:
  assumes "can_write env dir" "parses env body (tests_object dir packet (Number (PosInt n)) port members)"
    and "set (map fst members) \<subseteq> {''busy_timeout_ms'', ''auth'', ''ip_whitelist''}"
  shows "from_written env dir body =
    Some (res_bind (optional_busy_timeout (json_object members)) (\<lambda>busy.
      res_bind (optional_auth (json_object members)) (\<lambda>au.
      res_bind (parse_whitelist_json (json_object members)) (\<lambda>whitelist.
        Inr \<lparr>listen_addr = SocketAddr (V4 0x7F000001) (ucast port), workers = n, databases_folder = dir,
             client_max_packet_size = ucast packet, busy_timeout_ms = busy, auth = au,
             ip_whitelist = whitelist\<rparr>))))"
proof -
  obtain t where t: "fs_exists t dir" "from_written env dir body =
      Some (config_of_json (env\<lparr>env_files := t\<rparr>) (tests_object dir packet (Number (PosInt n)) port members))"
    using from_written_read [OF assms(1), of body] assms(2) by (auto simp: parses_def)
  moreover have "is_absolute dir" using assms(1) by (simp add: can_write_def)
  ultimately show ?thesis
    using tests_object_config [of "env\<lparr>env_files := t\<rparr>" dir members] assms(3) by simp
qed

lemma from_written_json:
  assumes "can_write env dir" "parses env body v"
  obtains env' where "from_written env dir body = Some (config_of_json env' v)"
  using from_written_read [OF assms(1), of body] assms(2) by (auto simp: parses_def)

lemmas absent_keys = optional_busy_timeout_def optional_auth_def parse_whitelist_json_def

lemma from_file_parses_all_keys_passes:
  assumes "can_write env dir"
    and "parses env (all_keys_body show_str dir)
      (tests_object dir 1024 (Number (PosInt 3)) 4567 [(''busy_timeout_ms'', Number (PosInt 1234))])"
  shows "from_file_parses_all_keys show_str env dir"
  using from_written_object [OF assms] assms(1)
  by (simp add: from_file_parses_all_keys_def absent_keys unwraps_def ok_or_def can_write_def)

lemma is_ip_allowed_empty_allows_all_passes:
  assumes "can_write env dir"
    and "parses env (empty_body show_str dir) (tests_object dir 1 (Number (PosInt 1)) 3333 [])"
  shows "is_ip_allowed_empty_allows_all show_str env dir"
proof -
  have "parse_ip_addr ''8.8.8.8'' = Some (V4 0x08080808)" by code_simp
  then show ?thesis
    using from_written_object [OF assms]
    by (simp add: is_ip_allowed_empty_allows_all_def absent_keys unwraps_def allows_str_def is_ip_allowed_def
        ip_whitelist_repr_def)
qed

lemma from_file_parses_auth_and_whitelist_passes:
  assumes "can_write env dir"
    and "parses env (auth_body show_str dir)
      (tests_object dir 1 (Number (PosInt 1)) 3333
        [(''auth'', String ''s3cret''), (''ip_whitelist'', Array [String ''127.0.0.1'', String ''10.0.0.0/8''])])"
  shows "from_file_parses_auth_and_whitelist show_str env dir"
proof -
  let ?nets = "[\<lparr>network = V4 0x7F000001, prefix_len = 32\<rparr>, \<lparr>network = V4 0x0A000000, prefix_len = 8\<rparr>]"
  have nets: "cidr_parse ''127.0.0.1'' = Inr (?nets ! 0)" "cidr_parse ''10.0.0.0/8'' = Inr (?nets ! 1)"
    by code_simp+
  have "allows_str (c\<lparr>ip_whitelist := ?nets\<rparr>) ''127.0.0.1'' True \<and>
      allows_str (c\<lparr>ip_whitelist := ?nets\<rparr>) ''10.9.9.9'' True \<and>
      allows_str (c\<lparr>ip_whitelist := ?nets\<rparr>) ''192.168.0.1'' False" for c
  proof -
    have "contains_str (?nets ! 0) ''127.0.0.1'' True" "contains_str (?nets ! 0) ''10.9.9.9'' False"
      "contains_str (?nets ! 0) ''192.168.0.1'' False" "contains_str (?nets ! 1) ''10.9.9.9'' True"
      "contains_str (?nets ! 1) ''192.168.0.1'' False"
      by code_simp+
    then show ?thesis
      by (auto simp: contains_str_def allows_str_def is_ip_allowed_def split: option.splits)
  qed
  from this [of "\<lparr>listen_addr = _, workers = _, databases_folder = _, client_max_packet_size = _,
      busy_timeout_ms = _, auth = _, ip_whitelist = _\<rparr>"]
  show ?thesis
    using from_written_object [OF assms] nets
    by (simp add: from_file_parses_auth_and_whitelist_def absent_keys unwraps_def ok_or_def)
qed

lemma from_file_rejects_bad_whitelist_passes:
  assumes "can_write env dir"
    and "parses env (whitelist_body show_str dir ''\"127.0.0.1\"'')
      (tests_object dir 1 (Number (PosInt 1)) 3333 [(''ip_whitelist'', String ''127.0.0.1'')])"
    and "parses env (whitelist_body show_str dir ''[\"nope/8\"]'')
      (tests_object dir 1 (Number (PosInt 1)) 3333 [(''ip_whitelist'', Array [String ''nope/8''])])"
  shows "from_file_rejects_bad_whitelist show_str env dir"
proof -
  have "cidr_parse ''nope/8'' = Inl (invalid_entry ''nope/8'')" by code_simp
  moreover have "sublist ''Invalid ip_whitelist entry'' (invalid_entry ''nope/8'')"
    "sublist ''must be an array'' ''Config key ip_whitelist must be an array of CIDR strings''"
    by code_simp+
  ultimately show ?thesis
    using from_written_object [OF assms(1,2)] from_written_object [OF assms(1,3)]
    by (simp add: from_file_rejects_bad_whitelist_def absent_keys fails_with_def ok_or_def)
qed

lemma from_file_busy_timeout_defaults_when_absent_passes:
  assumes "can_write env dir"
    and "parses env (default_body show_str dir) (tests_object dir 1024 (Number (PosInt 1)) 3333 [])"
  shows "from_file_busy_timeout_defaults_when_absent show_str env dir"
  using from_written_object [OF assms]
  by (simp add: from_file_busy_timeout_defaults_when_absent_def absent_keys unwraps_def)

lemma from_file_missing_file_passes:
  "\<not> fs_exists (env_files env) ''/no/such/path/ssrs-config.json'' \<Longrightarrow> from_file_missing_file env"
  using sublist_middle [of "''Config file does not exist''" "[]" "'' in: /no/such/path/ssrs-config.json''"]
  by (simp add: from_file_missing_file_def from_file_def fails_with_def)

lemma from_file_invalid_json_passes:
  assumes "can_write env dir" "env_from_str env ''{ this is not json'' = Inl e"
  shows "from_file_invalid_json env dir"
proof -
  have "is_str ''{ this is not json''" by code_simp
  then have "from_written env dir ''{ this is not json'' = Some (Inl (''Config parse error: '' @ e))"
    using from_written_read [OF assms(1)] assms(2) by fastforce
  then show ?thesis
    using sublist_middle [of "''Config parse error''" "[]" "'': '' @ e"]
    by (simp add: from_file_invalid_json_def fails_with_def)
qed

lemma from_file_missing_key_passes:
  assumes "can_write env dir" "parses env ''{\"workers\":1}'' (json_object [(''workers'', Number (PosInt 1))])"
  shows "from_file_missing_key env dir"
proof -
  have m: "sublist ''Missing key'' ''Missing key: listen_ip in config''" by code_simp
  have c: "config_of_json env' (json_object [(''workers'', Number (PosInt 1))]) =
      Inl ''Missing key: listen_ip in config''" for env'
    by (simp add: config_of_json_def require_str_def ok_or_def)
  obtain env' where w: "from_written env dir ''{\"workers\":1}'' =
      Some (config_of_json env' (json_object [(''workers'', Number (PosInt 1))]))"
    using from_written_json [OF assms] .
  show ?thesis unfolding from_file_missing_key_def fails_with_def w c using m by simp
qed

lemma from_file_wrong_value_type_passes:
  assumes "can_write env dir"
    and "parses env (wrong_type_body show_str dir) (tests_object dir 1024 (String ''three'') 4567 [])"
  shows "from_file_wrong_value_type show_str env dir"
proof -
  have m: "sublist ''must be a non-negative number'' ''Key workers must be a non-negative number''"
    by code_simp
  have c: "config_of_json env' (tests_object dir 1024 (String ''three'') 4567 []) =
      Inl ''Key workers must be a non-negative number''" for env'
    by (simp add: config_of_json_def require_str_def require_u64_def ok_or_def tests_object_def absent_keys)
  obtain env' where w: "from_written env dir (wrong_type_body show_str dir) =
      Some (config_of_json env' (tests_object dir 1024 (String ''three'') 4567 []))"
    using from_written_json [OF assms] .
  show ?thesis unfolding from_file_wrong_value_type_def fails_with_def w c using m by simp
qed

text \<open>A fresh directory of \<open>/tmp\<close> is such a place.\<close>

definition tests_tmp :: fs where
  "tests_tmp = \<lparr>entries = [([''tmp''], Dir)], cwd = [], rights = (\<lambda>_ _. True)\<rparr>"

lemma temp_dir_can_write:
  "\<exists>dir t. temp_dir ''/tmp'' ''1'' ''0'' tests_tmp = Some (dir, t) \<and> can_write (env\<lparr>env_files := t\<rparr>) dir"
proof -
  let ?t = "\<lparr>entries = [([''tmp''], Dir), ([''tmp'', ''ssrs-config-1-0''], Dir)], cwd = [], rights = (\<lambda>_ _. True)\<rparr>"
  have split: "filter (\<lambda>s. s \<noteq> '''' \<and> s \<noteq> ''.'') (split_on CHR ''/'' ''/tmp/ssrs-config-1-0'') =
      [''tmp'', ''ssrs-config-1-0'']" by code_simp
  have "create_dir_all tests_tmp ''/tmp/ssrs-config-1-0'' = Some ?t"
    unfolding create_dir_all_def split by (simp add: tests_tmp_def node_at_def)
  then have "temp_dir ''/tmp'' ''1'' ''0'' tests_tmp = Some (''/tmp/ssrs-config-1-0'', ?t)"
    by (simp add: temp_dir_def path_join_def is_absolute_def)
  moreover have "fs_exists ?t ''/tmp/ssrs-config-1-0''"
    "open_location ?t ''/tmp/ssrs-config-1-0/config.json'' = Some [''tmp'', ''ssrs-config-1-0'', ''config.json'']"
    by code_simp+
  then have "can_write (env\<lparr>env_files := ?t\<rparr>) ''/tmp/ssrs-config-1-0''"
    by (simp add: can_write_def is_absolute_def write_config_def path_join_def fs_write_def node_at_def)
  ultimately show ?thesis by blast
qed

end
