(* ===== verification/Handler_Tests.thy ===== *)
theory Handler_Tests
  imports Handler_Session Filesystem_Write
begin

text \<open>
  The unit tests of \<open>src/src/handler.rs\<close>, replayed: each test is a predicate on the crates, the world
  and the temporary directory, true if its assertions hold and its \<open>unwrap\<close>s do not fail, and passes
  on a parser that knows the texts of the tests and an engine that knows their statements, keeps a
  log of what each connection executed, and creates the files SQLite creates. Removing the directory
  at the end of a test is left out.
\<close>

section \<open>Test helpers\<close>

definition tests_config :: "string \<Rightarrow> string \<Rightarrow> config" where
  "tests_config dir password =
     \<lparr>listen_addr = SocketAddr (V4 0x7F000001) 0, workers = 1, databases_folder = dir,
      client_max_packet_size = 16 * 1024 * 1024, busy_timeout_ms = 5000, auth = password,
      ip_whitelist = []\<rparr>"

definition handler_in :: "string \<Rightarrow> 'c request_handler" where
  "handler_in dir = new_handler (tests_config dir [])"

text \<open>\<open>v[key]\<close> and \<open>v[i]\<close>\<close>

definition index_key :: "json \<Rightarrow> string \<Rightarrow> json" where
  "index_key v k = (case value_get v k of Some x \<Rightarrow> x | None \<Rightarrow> json.Null)"

definition index_nat :: "json \<Rightarrow> nat \<Rightarrow> json" where
  "index_nat v i =
     (case as_array v of Some xs \<Rightarrow> if i < length xs then xs ! i else json.Null | None \<Rightarrow> json.Null)"

text \<open>The assertions on the responses to a sequence of requests.\<close>

definition responses_satisfy :: "(json list \<times> 'c request_handler \<times> 'q world) run \<Rightarrow> (json list \<Rightarrow> bool) \<Rightarrow> bool" where
  "responses_satisfy r P = (case r of Returns (vs, _, _) \<Rightarrow> P vs | _ \<Rightarrow> False)"

text \<open>\<open>s.find(t)\<close>\<close>

definition find_str :: "string \<Rightarrow> string \<Rightarrow> nat option" where
  "find_str s t = find (\<lambda>i. prefix t (drop i s)) [0 ..< Suc (length s)]"

section \<open>Functions\<close>

definition hex_encoding_is_lowercase :: bool where
  "hex_encoding_is_lowercase = (to_hex [0x00, 0xFF, 0x10, 0xAB] = ''00ff10ab'' \<and> to_hex [] = [])"

definition sidecar_files_are_detected :: bool where
  "sidecar_files_are_detected =
     (is_sqlite_sidecar_file ''mydb-wal'' \<and> is_sqlite_sidecar_file ''mydb-shm'' \<and>
      is_sqlite_sidecar_file ''mydb-journal'' \<and> \<not> is_sqlite_sidecar_file ''mydb'' \<and>
      \<not> is_sqlite_sidecar_file ''mydb.db'')"

definition parse_request_handles_valid_repair_and_invalid ::
  "('q, 'c, 's, 'r, 'w) externals \<Rightarrow> bool" where
  "parse_request_handles_valid_repair_and_invalid X =
     ((case parse_request X ''{\"cmd\":\"LIST\"}'' of Inr v \<Rightarrow> index_key v ''cmd'' = String ''LIST'' | Inl _ \<Rightarrow> False) \<and>
      (case parse_request X ''{cmd:\"LIST\"}'' of Inr v \<Rightarrow> index_key v ''cmd'' = String ''LIST'' | Inl _ \<Rightarrow> False) \<and>
      isl (parse_request X ''not json at all {{{''))"

definition blob_pointer_value_mapping :: bool where
  "blob_pointer_value_mapping =
     (value_ref_to_json value_ref.Null = json.Null \<and>
      value_ref_to_json (Integer 42) = Number (PosInt 42) \<and>
      value_ref_to_json (Real 0x4004000000000000) = Number (Float 0x4004000000000000) \<and>
      value_ref_to_json (Text (bytes_of_str ''hi'')) = String ''hi'' \<and>
      value_ref_to_json (Blob [0x00, 0xFF]) = String (''X'' @ [single_quote] @ ''00ff'' @ [single_quote]) \<and>
      value_ref_to_json (Real 0x7FF0000000000000) = json.Null)"

text \<open>The number 2.5 is the double \<open>0x4004000000000000\<close>, infinity \<open>0x7FF0000000000000\<close>.\<close>

definition database_name_safety :: "fs \<Rightarrow> string \<Rightarrow> bool" where
  "database_name_safety t dir =
     (is_safe_database_name t dir ''mydb.db'' \<and> is_safe_database_name t dir ''sales'' \<and>
      \<not> is_safe_database_name t dir '''' \<and> \<not> is_safe_database_name t dir ''.'' \<and>
      \<not> is_safe_database_name t dir ''..'' \<and> \<not> is_safe_database_name t dir ''../escape'' \<and>
      \<not> is_safe_database_name t dir ''sub/dir'' \<and> \<not> is_safe_database_name t dir ''/etc/passwd'')"

section \<open>Requests\<close>

definition query_value_encoding_and_column_order ::
  "('q, 'c, 's, 'r, 'w) externals \<Rightarrow> 'q world \<Rightarrow> string \<Rightarrow> bool" where
  "query_value_encoding_and_column_order X w dir =
     responses_satisfy
       (handle_all X (handler_in dir) w
          [''{\"cmd\":\"QUERY\",\"db\":\"t.db\",\"query\":\"CREATE TABLE x(a INTEGER, b TEXT, c REAL, d BLOB)\"}'',
           ''{\"cmd\":\"QUERY\",\"db\":\"t.db\",\"query\":\"INSERT INTO x VALUES (1, 'hi', 2.5, X'00ff')\"}'',
           ''{\"cmd\":\"QUERY\",\"db\":\"t.db\",\"query\":\"INSERT INTO x VALUES (2, NULL, NULL, NULL)\"}'',
           ''{\"cmd\":\"QUERY\",\"db\":\"t.db\",\"query\":\"SELECT d, c, b, a FROM x ORDER BY a\"}''])
       (\<lambda>vs.
          let created = vs ! 0; res = vs ! 3; row0 = index_nat (index_key res ''data'') 0 in
          created = json_object [(''columns'', Array []), (''data'', Array [])] \<and>
          index_key res ''columns'' = Array [String ''d'', String ''c'', String ''b'', String ''a''] \<and>
          index_key row0 ''a'' = Number (PosInt 1) \<and> index_key row0 ''b'' = String ''hi'' \<and>
          index_key row0 ''c'' = Number (Float 0x4004000000000000) \<and>
          index_key row0 ''d'' = String (''X'' @ [single_quote] @ ''00ff'' @ [single_quote]) \<and>
          index_key (index_nat (index_key res ''data'') 1) ''b'' = json.Null \<and>
          (case json_to_string X row0 of
             None \<Rightarrow> False
           | Some serialized \<Rightarrow>
               (case (find_str serialized ''\"a\"'', find_str serialized ''\"b\"'',
                      find_str serialized ''\"c\"'', find_str serialized ''\"d\"'') of
                  (Some pos_a, Some pos_b, Some pos_c, Some pos_d) \<Rightarrow>
                    pos_a < pos_b \<and> pos_b < pos_c \<and> pos_c < pos_d
                | _ \<Rightarrow> False)))"

definition list_and_delete_db ::
  "('q, 'c, 's, 'r, 'w) externals \<Rightarrow> 'q world \<Rightarrow> string \<Rightarrow> bool" where
  "list_and_delete_db X w dir =
     responses_satisfy
       (handle_all X (handler_in dir) w
          [''{\"cmd\":\"QUERY\",\"db\":\"a.db\",\"query\":\"CREATE TABLE z(i INTEGER)\"}'',
           ''{\"cmd\":\"LIST\"}'', ''{\"cmd\":\"DELETE_DB\",\"db\":\"a.db\"}'',
           ''{\"cmd\":\"DELETE_DB\",\"db\":\"a.db\"}''])
       (\<lambda>vs.
          (case as_array (index_key (vs ! 1) ''list'') of
             None \<Rightarrow> False
           | Some names \<Rightarrow>
               list_all (\<lambda>v. as_str v \<noteq> None) names \<and> String ''a.db'' \<in> set names \<and>
               \<not> list_ex (\<lambda>v. suffix ''-wal'' (the (as_str v))) names) \<and>
          vs ! 2 = result_json True \<and> vs ! 3 = result_json False)"

definition command_is_case_insensitive ::
  "('q, 'c, 's, 'r, 'w) externals \<Rightarrow> 'q world \<Rightarrow> string \<Rightarrow> bool" where
  "command_is_case_insensitive X w dir =
     responses_satisfy
       (handle_all X (handler_in dir) w [''{\"cmd\":\"list\"}'', ''{\"cmd\":\"LiSt\"}''])
       (\<lambda>vs. value_get (vs ! 0) ''list'' \<noteq> None \<and> value_get (vs ! 1) ''list'' \<noteq> None)"

definition generic_and_sql_error_codes ::
  "('q, 'c, 's, 'r, 'w) externals \<Rightarrow> 'q world \<Rightarrow> string \<Rightarrow> bool" where
  "generic_and_sql_error_codes X w dir =
     responses_satisfy
       (handle_all X (handler_in dir) w
          [''garbage {{{'', ''{\"db\":\"a.db\"}'', ''{\"cmd\":\"FROB\"}'', ''{\"cmd\":\"QUERY\",\"query\":\"SELECT 1\"}'',
           ''{\"cmd\":\"QUERY\",\"db\":\"../x\",\"query\":\"SELECT 1\"}'', ''{\"cmd\":\"QUERY\",\"db\":\"a.db\"}'',
           ''{\"cmd\":\"QUERY\",\"db\":\"a.db\",\"query\":\"   \"}'',
           ''{\"cmd\":\"QUERY\",\"db\":\"a.db\",\"query\":\"SELECT * FROM ghosts\"}''])
       (\<lambda>vs.
          index_key (vs ! 0) ''generic_error'' = Number (PosInt 0) \<and> value_get (vs ! 0) ''message'' \<noteq> None \<and>
          index_key (vs ! 1) ''generic_error'' = Number (PosInt 1) \<and>
          index_key (vs ! 2) ''generic_error'' = Number (PosInt 2) \<and>
          index_key (vs ! 3) ''generic_error'' = Number (PosInt 3) \<and>
          index_key (vs ! 4) ''generic_error'' = Number (PosInt 3) \<and>
          index_key (vs ! 5) ''generic_error'' = Number (PosInt 4) \<and>
          index_key (vs ! 6) ''error_code'' = Number (PosInt 21) \<and>
          index_key (vs ! 6) ''error_message'' = String ''empty query'' \<and>
          index_key (vs ! 7) ''error_code'' = Number (PosInt 1) \<and>
          (case as_str (index_key (vs ! 7) ''error_message'') of
             Some msg \<Rightarrow> sublist ''no such table'' msg | None \<Rightarrow> False))"

definition connections_use_wal_and_busy_timeout ::
  "('q, 'c, 's, 'r, 'w) externals \<Rightarrow> 'q world \<Rightarrow> string \<Rightarrow> bool" where
  "connections_use_wal_and_busy_timeout X w dir =
     responses_satisfy
       (handle_all X (handler_in dir) w
          [''{\"cmd\":\"QUERY\",\"db\":\"p.db\",\"query\":\"CREATE TABLE t(i INTEGER)\"}'',
           ''{\"cmd\":\"QUERY\",\"db\":\"p.db\",\"query\":\"PRAGMA journal_mode\"}'',
           ''{\"cmd\":\"QUERY\",\"db\":\"p.db\",\"query\":\"PRAGMA busy_timeout\"}''])
       (\<lambda>vs.
          index_key (index_nat (index_key (vs ! 1) ''data'') 0) ''journal_mode'' = String ''wal'' \<and>
          index_key (index_nat (index_key (vs ! 2) ''data'') 0) ''timeout'' = Number (PosInt 5000))"

definition auth_gate_requires_handshake ::
  "('q, 'c, 's, 'r, 'w) externals \<Rightarrow> 'q world \<Rightarrow> string \<Rightarrow> bool" where
  "auth_gate_requires_handshake X w dir =
     responses_satisfy
       (handle_all X (new_handler (tests_config dir ''s3cret'')) w
          [''{\"cmd\":\"LIST\"}'', ''{\"auth\":\"nope\"}'', ''{\"cmd\":\"LIST\"}'', ''{\"auth\":\"s3cret\"}'',
           ''{\"cmd\":\"LIST\"}''])
       (\<lambda>vs. vs ! 0 = result_json False \<and> vs ! 1 = result_json False \<and> vs ! 2 = result_json False \<and>
          vs ! 3 = result_json True \<and> value_get (vs ! 4) ''list'' \<noteq> None)"

definition connection_cache_persists_across_requests ::
  "('q, 'c, 's, 'r, 'w) externals \<Rightarrow> 'q world \<Rightarrow> string \<Rightarrow> bool" where
  "connection_cache_persists_across_requests X w dir =
     responses_satisfy
       (handle_all X (handler_in dir) w
          [''{\"cmd\":\"QUERY\",\"db\":\"c.db\",\"query\":\"CREATE TEMP TABLE tmp(i INTEGER)\"}'',
           ''{\"cmd\":\"QUERY\",\"db\":\"c.db\",\"query\":\"INSERT INTO tmp VALUES (7)\"}'',
           ''{\"cmd\":\"QUERY\",\"db\":\"c.db\",\"query\":\"SELECT i FROM tmp\"}''])
       (\<lambda>vs. index_key (index_nat (index_key (vs ! 2) ''data'') 0) ''i'' = Number (PosInt 7))"

section \<open>The parser and the engine of the tests\<close>

definition query_json :: "string \<Rightarrow> string \<Rightarrow> json" where
  "query_json db q = json_object [(''cmd'', String ''QUERY''), (''db'', String db), (''query'', String q)]"

definition query_text :: "string \<Rightarrow> string \<Rightarrow> string" where
  "query_text db q = ''{\"cmd\":\"QUERY\",\"db\":\"'' @ db @ ''\",\"query\":\"'' @ q @ ''\"}''"

definition insert_values :: string where
  "insert_values = ''INSERT INTO x VALUES (1, 'hi', 2.5, X'00ff')''"

definition tests_statements :: "(string \<times> string) list" where
  "tests_statements =
     [(''t.db'', ''CREATE TABLE x(a INTEGER, b TEXT, c REAL, d BLOB)''), (''t.db'', insert_values),
      (''t.db'', ''INSERT INTO x VALUES (2, NULL, NULL, NULL)''),
      (''t.db'', ''SELECT d, c, b, a FROM x ORDER BY a''), (''a.db'', ''CREATE TABLE z(i INTEGER)''),
      (''../x'', ''SELECT 1''), (''a.db'', ''   ''), (''a.db'', ''SELECT * FROM ghosts''),
      (''p.db'', ''CREATE TABLE t(i INTEGER)''), (''p.db'', ''PRAGMA journal_mode''),
      (''p.db'', ''PRAGMA busy_timeout''), (''c.db'', ''CREATE TEMP TABLE tmp(i INTEGER)''),
      (''c.db'', ''INSERT INTO tmp VALUES (7)''), (''c.db'', ''SELECT i FROM tmp'')]"

definition tests_texts :: "(string \<times> json) list" where
  "tests_texts =
     map (\<lambda>(db, q). (query_text db q, query_json db q)) tests_statements @
     [(''{\"cmd\":\"LIST\"}'', json_object [(''cmd'', String ''LIST'')]),
      (''{\"cmd\":\"list\"}'', json_object [(''cmd'', String ''list'')]),
      (''{\"cmd\":\"LiSt\"}'', json_object [(''cmd'', String ''LiSt'')]),
      (''{\"cmd\":\"FROB\"}'', json_object [(''cmd'', String ''FROB'')]),
      (''{\"db\":\"a.db\"}'', json_object [(''db'', String ''a.db'')]),
      (''{\"cmd\":\"QUERY\",\"query\":\"SELECT 1\"}'',
        json_object [(''cmd'', String ''QUERY''), (''query'', String ''SELECT 1'')]),
      (''{\"cmd\":\"QUERY\",\"db\":\"a.db\"}'', json_object [(''cmd'', String ''QUERY''), (''db'', String ''a.db'')]),
      (''{\"cmd\":\"DELETE_DB\",\"db\":\"a.db\"}'',
        json_object [(''cmd'', String ''DELETE_DB''), (''db'', String ''a.db'')]),
      (''{\"auth\":\"nope\"}'', json_object [(''auth'', String ''nope'')]),
      (''{\"auth\":\"s3cret\"}'', json_object [(''auth'', String ''s3cret'')])]"

text \<open>A connection is its number with its path; the engine keeps the log of each.\<close>

definition make_file :: "string \<Rightarrow> 'q world \<Rightarrow> 'q world" where
  "make_file p w =
     (if fs_exists (files w) p then w
      else case fs_write (files w) p [] of Some t \<Rightarrow> w\<lparr>files := t\<rparr> | None \<Rightarrow> w)"

definition log_statement :: "nat \<times> string \<Rightarrow> string \<Rightarrow> string list list world \<Rightarrow> string list list world" where
  "log_statement conn q w = w\<lparr>engine := (engine w)[fst conn := engine w ! fst conn @ [q]]\<rparr>"

definition no_such_table :: "string \<Rightarrow> rusqlite_error" where
  "no_such_table t =
     SqliteFailure \<lparr>extended_code = 1, ffi_display = ''SQL logic error''\<rparr> (Some (''no such table: '' @ t))"

text \<open>What a statement gives on a connection with the given log.\<close>

definition tests_answer :: "string list \<Rightarrow> string \<Rightarrow> rusqlite_error + string list \<times> value_ref list list" where
  "tests_answer log q =
     (if q = ''SELECT d, c, b, a FROM x ORDER BY a'' then
        Inr ([''d'', ''c'', ''b'', ''a''],
          [[Blob [0x00, 0xFF], Real 0x4004000000000000, Text (bytes_of_str ''hi''), Integer 1],
           [value_ref.Null, value_ref.Null, value_ref.Null, Integer 2]])
      else if q = ''PRAGMA journal_mode'' then
        Inr ([''journal_mode''],
          [[Text (bytes_of_str (if list_ex (sublist ''journal_mode=WAL'') log then ''wal'' else ''delete''))]])
      else if q = ''PRAGMA busy_timeout'' then
        Inr ([''timeout''], [[Integer (if list_ex (sublist ''busy_timeout=5000'') log then 5000 else 0)]])
      else if q = ''SELECT i FROM tmp'' then
        (if ''CREATE TEMP TABLE tmp(i INTEGER)'' \<in> set log \<and> ''INSERT INTO tmp VALUES (7)'' \<in> set log
         then Inr ([''i''], [[Integer 7]]) else Inl (no_such_table ''tmp''))
      else if q = ''SELECT * FROM ghosts'' then Inl (no_such_table ''ghosts'')
      else Inr ([], []))"

definition tests_sqlite ::
  "(string list list, nat \<times> string, (string list \<times> value_ref list list) \<times> (nat \<times> string) \<times> string,
     value_ref list list, value_ref list) rusqlite" where
  "tests_sqlite =
     \<lparr>sq_open = (\<lambda>p w. (Inr (length (engine w), p), make_file p (w\<lparr>engine := engine w @ [[]]\<rparr>))),
      sq_execute_batch = (\<lambda>conn q w.
        (Inr (), log_statement conn q
          (if sublist ''journal_mode=WAL'' q then make_file (snd conn @ ''-wal'') w else w))),
      sq_prepare = (\<lambda>conn q w.
        (case tests_answer (engine w ! fst conn) q of Inl e \<Rightarrow> Inl e | Inr a \<Rightarrow> Inr (a, conn, q), w)),
      sq_column_names = (\<lambda>((cols, _), _, _). cols),
      sq_query = (\<lambda>((_, rows), conn, q) w. (Inr rows, log_statement conn q w)),
      sq_next = (\<lambda>rows w. case rows of [] \<Rightarrow> (Inr None, [], w) | r # rs \<Rightarrow> (Inr (Some r), rs, w)),
      sq_get_ref = (\<lambda>r i. Inr (r ! i)), sq_finalize = (\<lambda>stmt w. w), sq_close = (\<lambda>conn w. w)\<rparr>"

definition tests_externals where
  "tests_externals =
     \<lparr>sqlite = tests_sqlite,
      json_from_str = (\<lambda>s. ok_or ''expected value'' (map_of tests_texts s)),
      json_to_string = (\<lambda>v. Some (''{\"a\":1,\"b\":\"hi\",\"c\":2.5,\"d\":\"X'00ff'\"}'')),
      regex_captures = (\<lambda>p s. key_captures s)\<rparr>"

definition tests_world :: "string list list world" where
  "tests_world =
     \<lparr>files = \<lparr>entries = [([''tmp''], Dir)], cwd = [], rights = (\<lambda>_ _. True)\<rparr>, engine = []\<rparr>"

section \<open>The tests pass\<close>

lemma function_tests_pass:
  "hex_encoding_is_lowercase" "sidecar_files_are_detected" "blob_pointer_value_mapping"
  "parse_request_handles_valid_repair_and_invalid tests_externals"
  "database_name_safety (files tests_world) ''/tmp''"
  by code_simp+

lemma query_value_encoding_and_column_order_passes:
  "query_value_encoding_and_column_order tests_externals tests_world ''/tmp''"
  by code_simp

lemma list_and_delete_db_passes:
  "list_and_delete_db tests_externals tests_world ''/tmp''"
  by code_simp

lemma command_is_case_insensitive_passes:
  "command_is_case_insensitive tests_externals tests_world ''/tmp''"
  by code_simp

lemma generic_and_sql_error_codes_passes:
  "generic_and_sql_error_codes tests_externals tests_world ''/tmp''"
  by code_simp

lemma connections_use_wal_and_busy_timeout_passes:
  "connections_use_wal_and_busy_timeout tests_externals tests_world ''/tmp''"
  by code_simp

lemma auth_gate_requires_handshake_passes:
  "auth_gate_requires_handshake tests_externals tests_world ''/tmp''"
  by code_simp

lemma connection_cache_persists_across_requests_passes:
  "connection_cache_persists_across_requests tests_externals tests_world ''/tmp''"
  by code_simp

end
