(* ===== verification/Protocol_Harness.thy ===== *)
theory Protocol_Harness
  imports Handler_Tests Program Net_V6
begin

text \<open>
  The harness of the protocol tests (\<open>src/tests/protocol.rs\<close>): it starts the whole program of
  theory Program on a temporary folder, learns the port from the line it prints, and speaks
  frames with it over connections of its own. Its calls wait for their answers, so what the server
  does in between is determined: a run of theory Server, in which the test reads what the handlers
  answered.
\<close>

section \<open>The startup line\<close>

text \<open>\<open>s.split(t).nth(1)\<close>, and \<open>s.split_whitespace().next()\<close> as far as it gets.\<close>

definition split_second :: "string \<Rightarrow> string \<Rightarrow> string option" where
  "split_second s t =
     map_option (\<lambda>i. let rest = drop (i + length t) s in
         case find_str rest t of None \<Rightarrow> rest | Some j \<Rightarrow> take j rest)
       (find_str s t)"

fun take_word :: "string \<Rightarrow> string" where
  "take_word [] = []"
| "take_word (c # s) = (if list_ex (\<lambda>w. prefix w (c # s)) white_space then [] else c # take_word s)"

text \<open>The port of the first line that names an address; \<open>None\<close> where the harness panics.\<close>

definition read_listen_port :: "string \<Rightarrow> u16 option" where
  "read_listen_port out =
     (case List.find (\<lambda>line. split_second line ''listening on '' \<noteq> None) (split_on (CHR 0x0A) out) of
        None \<Rightarrow> None
      | Some line \<Rightarrow>
          let addr = take_word (trim_start (the (split_second line ''listening on '')))
          in map_option word_of_nat (parse_unsigned (2 ^ 16) (last (split_on CHR '':'' addr))))"

section \<open>The port is read back\<close>

text \<open>The characters of an address are between the period and the letter f, those around it are not.\<close>

definition addr_char :: "char \<Rightarrow> bool" where
  "addr_char c \<longleftrightarrow> 46 \<le> (of_char c :: nat) \<and> (of_char c :: nat) \<le> 102"

lemma addr_char_digit: "c \<in> set (dec_of_nat n) \<Longrightarrow> addr_char c"
  using dec_of_nat_digits [of c n] by (simp add: addr_char_def)

lemma addr_char_hex: "c \<in> set (hex_of_nat n) \<Longrightarrow> addr_char c"
  by (auto dest!: hex_of_nat_chars simp: addr_char_def of_char_hex_digit)

lemma set_join_with:
  "c \<in> set (join_with sep ss) \<Longrightarrow> c \<in> set sep \<or> (\<exists>s \<in> set ss. c \<in> set s)"
  by (induction sep ss rule: join_with.induct) auto

lemma addr_char_literals:
  "addr_char CHR ''.''" "addr_char CHR '':''" "addr_char CHR ''[''" "addr_char CHR '']''" "addr_char CHR ''f''"
  by (simp_all add: addr_char_def)

lemma addr_char_ipv4: "c \<in> set (show_ipv4 a) \<Longrightarrow> addr_char c"
  unfolding show_ipv4_def by (auto dest!: set_join_with intro: addr_char_digit addr_char_literals)

lemma addr_char_segments: "c \<in> set (show_segments gs) \<Longrightarrow> addr_char c"
  unfolding show_segments_def by (auto dest!: set_join_with intro: addr_char_hex addr_char_literals)

lemma addr_char_ipv6: "c \<in> set (show_ipv6 a) \<Longrightarrow> addr_char c"
  using addr_char_ipv4 addr_char_segments addr_char_literals
  by (auto simp: show_ipv6_def Let_def split: if_splits prod.splits)

lemma addr_char_socket: "c \<in> set (show_socket_addr a) \<Longrightarrow> addr_char c"
  by (induction a rule: show_socket_addr.induct)
    (auto dest: addr_char_ipv4 addr_char_ipv6 addr_char_digit simp: addr_char_literals)

lemma white_space_heads: "w \<in> set white_space \<Longrightarrow> \<exists>c cs. w = c # cs \<and> \<not> addr_char c"
proof -
  have "list_all (\<lambda>w. case w of [] \<Rightarrow> False | c # cs \<Rightarrow> \<not> addr_char c) white_space" by code_simp
  moreover assume "w \<in> set white_space"
  ultimately show ?thesis by (cases w) (auto simp: list_all_iff)
qed

lemma no_white_space: "addr_char c \<Longrightarrow> w \<in> set white_space \<Longrightarrow> \<not> prefix w (c # s)"
  using white_space_heads by fastforce

lemma take_word_address:
  "\<forall>c \<in> set s. addr_char c \<Longrightarrow> take_word (s @ CHR '' '' # r) = s"
proof (induction s)
  case Nil
  have "[CHR '' ''] \<in> set white_space" by (simp add: white_space_code)
  then show ?case by (auto simp: list_ex_iff intro: bexI [of _ "[CHR '' '']"])
next
  case (Cons c s)
  then show ?case using no_white_space [of c _ "s @ CHR '' '' # r"] by (auto simp: list_ex_iff)
qed

lemma trim_start_address: "addr_char c \<Longrightarrow> trim_start (c # s) = c # s"
proof -
  assume "addr_char c"
  then have "List.find (\<lambda>p. p \<noteq> [] \<and> prefix p (c # s)) white_space = None"
    using no_white_space by (auto simp: find_None_iff)
  then show ?thesis by (subst trim_start_def, subst strip_pieces.simps) simp
qed

lemma find_str_first:
  assumes "prefix t (drop n s)" "t \<noteq> []" "\<And>i. i < n \<Longrightarrow> \<not> prefix t (drop i s)"
  shows "find_str s t = Some n"
proof -
  have "n < length s" using assms(1,2) by (cases "n < length s") auto
  then show ?thesis
    unfolding find_str_def find_Some_iff using assms(1,3)
    by (intro exI [of _ n]) (simp del: upt_Suc)
qed

lemma find_str_sound: "find_str s t = Some i \<Longrightarrow> prefix t (drop i s)"
  by (auto simp: find_str_def find_Some_iff simp del: upt_Suc)

lemma banner_prefix: "find_str (''sqlite-server listening on '' @ s) ''listening on '' = Some 14"
proof (rule find_str_first)
  fix i :: nat
  assume "i < 14"
  then have "i \<in> {..<14}" by simp
  then show "\<not> prefix ''listening on '' (drop i (''sqlite-server listening on '' @ s))"
    by (auto simp: lessThan_nat_numeral)
qed simp_all

lemma cut_after_address:
  assumes "\<forall>c \<in> set a. addr_char c" "find_str (a @ CHR '' '' # r) ''listening on '' = Some j"
  shows "\<exists>r'. take j (a @ CHR '' '' # r) = a @ CHR '' '' # r'"
proof -
  have "prefix ''listening on '' (drop j (a @ CHR '' '' # r))" by (rule find_str_sound [OF assms(2)])
  then have l: "drop j (a @ CHR '' '' # r) \<noteq> []" "hd (drop j (a @ CHR '' '' # r)) = CHR ''l''"
    by (auto simp: prefix_def)
  then have "j < length (a @ CHR '' '' # r)" by (metis drop_eq_Nil not_le)
  with l(2) have j: "(a @ CHR '' '' # r) ! j = CHR ''l''" by (metis hd_drop_conv_nth)
  have "\<not> addr_char CHR ''l''" by (simp add: addr_char_def)
  then have "\<not> j < length a" using assms(1) j by (metis nth_append nth_mem)
  moreover have "j \<noteq> length a" using j by auto
  ultimately have "length a < j" by simp
  then show ?thesis by (cases "j - length a") auto
qed

lemma last_split_on: "c \<notin> set t \<Longrightarrow> last (split_on c (s @ c # t)) = t"
  by (simp add: split_on_app_sep split_on_no_sep)

lemma show_socket_addr_port: "\<exists>s. show_socket_addr a = s @ CHR '':'' # dec_of_nat (unat (sock_port a))"
proof (cases a rule: show_socket_addr.cases)
  case (2 b port)
  then show ?thesis by (intro exI [of _ "''['' @ show_ipv6 b @ '']''"]) simp
qed simp

text \<open>Whatever the address, the test learns its port.\<close>

lemma read_listen_port_banner: "read_listen_port (banner c a) = Some (sock_port a)"
proof -
  define head where "head = ''sqlite-server listening on ''"
  let ?addr = "show_socket_addr a"
  have addr: "\<forall>c \<in> set ?addr. addr_char c" by (simp add: addr_char_socket)
  obtain tail where banner: "banner c a = (head @ ?addr @ '' '') @ tail"
    by (simp add: banner_def head_def)
  have "\<not> addr_char CHR 0x0A" by (simp add: addr_char_def)
  then have "CHR 0x0A \<notin> set (head @ ?addr @ '' '')" using addr by (auto simp: head_def)
  from split_on_prepend [OF this, of tail] obtain r ls where
    lines: "split_on (CHR 0x0A) (banner c a) = (head @ ?addr @ CHR '' '' # r) # ls"
    by (simp add: banner)
  have head: "find_str (head @ x) ''listening on '' = Some 14"
    "drop (14 + length ''listening on '') (head @ x) = x" for x
    using banner_prefix [of x] by (simp_all add: head_def)
  have "\<exists>r'. split_second (head @ ?addr @ CHR '' '' # r) ''listening on '' = Some (?addr @ CHR '' '' # r')"
    using cut_after_address [OF addr, of r]
    unfolding split_second_def head option.map Let_def
    by (cases "find_str (?addr @ CHR '' '' # r) ''listening on ''") simp_all
  then obtain r' where second:
    "split_second (head @ ?addr @ CHR '' '' # r) ''listening on '' = Some (?addr @ CHR '' '' # r')" ..
  have "trim_start (?addr @ CHR '' '' # r') = ?addr @ CHR '' '' # r'"
  proof -
    have "?addr \<noteq> []" by (cases a rule: show_socket_addr.cases) simp_all
    then obtain ch s where "?addr = ch # s" by (cases ?addr) auto
    with addr trim_start_address show ?thesis by simp
  qed
  then have word: "take_word (trim_start (?addr @ CHR '' '' # r')) = ?addr"
    using take_word_address [OF addr] by simp
  have no_colon: "CHR '':'' \<notin> set (dec_of_nat n)" for n using dec_of_nat_digits [of "CHR '':''" n] by auto
  have "last (split_on CHR '':'' ?addr) = dec_of_nat (unat (sock_port a))"
    using show_socket_addr_port [of a] no_colon last_split_on by metis
  moreover have "unat (sock_port a) < 2 ^ 16"
    using unsigned_less [of "sock_port a", where ?'a = nat] by simp
  ultimately show ?thesis
    by (simp add: read_listen_port_def lines second word parse_unsigned_dec_of_nat)
qed

section \<open>The harness\<close>

text \<open>Where a test runs: the machine, the runtime, the crates, the temporary folder, the printer and
  the parser of \<open>serde_json\<close> on the test's side, and how much it reads from a connection.\<close>

record ('q, 'c, 's, 'r, 'w, 'l) site =
  site_env :: environment
  site_runtime :: "'l runtime"
  site_externals :: "('q, 'c, 's, 'r, 'w) externals"
  site_world :: "'q world"
  site_dir :: string
  site_to_vec :: "json \<Rightarrow> u8 list"
  site_from_slice :: "u8 list \<Rightarrow> json option"
  site_room :: nat

definition test_args :: "string \<Rightarrow> args" where
  "test_args dir = default_args\<lparr>arg_ip := ''127.0.0.1'', arg_port := 0, arg_databases_folder := dir\<rparr>"

definition localhost :: ip_addr where
  "localhost = V4 (of_be_octets [127, 0, 0, 1])"

text \<open>\<open>TestServer::start_with_args\<close>: the configuration of the server that came up.\<close>

definition start_with_args ::
  "('q, 'c, 's, 'r, 'w, 'l) site \<Rightarrow> (args \<Rightarrow> args) \<Rightarrow> config option" where
  "start_with_args T extra =
     (case main_process (site_env T) (site_runtime T) (extra (test_args (site_dir T))) of
        Returns (Listening c out) \<Rightarrow> map_option (\<lambda>_. c) (read_listen_port out)
      | _ \<Rightarrow> None)"

text \<open>\<open>connect\<close>, with all the test is going to write: the number of the connection, if the server lets
  it in.\<close>

definition connect_test ::
  "('q, 'c, 's, 'r, 'w, 'l) site \<Rightarrow> config \<Rightarrow> u8 list \<Rightarrow> nat option list \<times> ('c, 'q) server \<Rightarrow>
     (nat option list \<times> ('c, 'q) server) run" where
  "connect_test T c bytes hs =
     run_bind (is_ip_allowed c localhost) (\<lambda>ok. Returns
       (if ok then (fst hs @ [Some (next_id (snd hs))],
          spawn c localhost \<lparr>inbox = bytes, outbox = [], accepts = site_room T\<rparr> (snd hs))
        else (fst hs @ [None], snd hs)))"

fun connect_all ::
  "('q, 'c, 's, 'r, 'w, 'l) site \<Rightarrow> config \<Rightarrow> u8 list list \<Rightarrow> nat option list \<times> ('c, 'q) server \<Rightarrow>
     (nat option list \<times> ('c, 'q) server) run" where
  "connect_all T c [] hs = Returns hs"
| "connect_all T c (bytes # rest) hs = run_bind (connect_test T c bytes hs) (connect_all T c rest)"

text \<open>What the server does while the test waits for the answer to its next request on a connection, and
  the bytes the test then finds.\<close>

definition exchange ::
  "('q, 'c, 's, 'r, 'w) externals \<Rightarrow> config \<Rightarrow> nat \<Rightarrow> ('c, 'q) server \<Rightarrow> (u8 list \<times> ('c, 'q) server) run" where
  "exchange X c i s =
     (case conns s i of
        None \<Rightarrow> Returns ([], s)
      | Some cn \<Rightarrow>
          (case read_request c (socket cn) of
             (None, st) \<Rightarrow> Returns ([], close_conn X i cn s)
           | (Some req, st) \<Rightarrow>
               run_bind (handle_request X (handler cn) (world s) req) (\<lambda>(v, h1, w1).
                 case write_all (frame (response_body X v)) st of
                   (Inl e, st1) \<Rightarrow>
                     Returns (drop (length (outbox st)) (outbox st1),
                       close_conn X i (cn\<lparr>handler := h1\<rparr>) (s\<lparr>world := w1\<rparr>))
                 | (Inr u, st1) \<Rightarrow>
                     Returns (drop (length (outbox st)) (outbox st1),
                       s\<lparr>conns := (conns s)(i \<mapsto> \<lparr>peer = peer cn, handler = h1, socket = st1, phase = Reading\<rparr>),
                         world := w1\<rparr>))))"

text \<open>The calls of a test, each by the place of its connection in the order of the \<open>connect\<close>s.\<close>

fun session ::
  "('q, 'c, 's, 'r, 'w) externals \<Rightarrow> config \<Rightarrow> nat option list \<Rightarrow> nat list \<Rightarrow> ('c, 'q) server \<Rightarrow>
     (u8 list list \<times> ('c, 'q) server) run" where
  "session X c hs [] s = Returns ([], s)"
| "session X c hs (k # order) s =
     run_bind (case hs ! k of None \<Rightarrow> Returns ([], s) | Some i \<Rightarrow> exchange X c i s) (\<lambda>(bs, s1).
     run_bind (session X c hs order s1) (\<lambda>(rest, s2). Returns (bs # rest, s2)))"

definition run_test ::
  "('q, 'c, 's, 'r, 'w, 'l) site \<Rightarrow> (args \<Rightarrow> args) \<Rightarrow> u8 list list \<Rightarrow> nat list \<Rightarrow> u8 list list option" where
  "run_test T extra written order =
     (case start_with_args T extra of
        None \<Rightarrow> None
      | Some c \<Rightarrow>
          (case run_bind (connect_all T c written ([], start_server c (site_world T)))
                  (\<lambda>(hs, s). session (site_externals T) c hs order s) of
             Returns (bss, s) \<Rightarrow> Some bss
           | _ \<Rightarrow> None))"

text \<open>\<open>read_response\<close>, and reading a header that does not come.\<close>

definition read_response :: "('q, 'c, 's, 'r, 'w, 'l) site \<Rightarrow> u8 list \<Rightarrow> json option" where
  "read_response T bs =
     (case unframe bs of None \<Rightarrow> None | Some (buf, rest) \<Rightarrow> site_from_slice T buf)"

definition no_header :: "u8 list \<Rightarrow> bool" where
  "no_header bs = (length bs < 4)"

text \<open>Tests all of whose requests are answered.\<close>

definition answers_satisfy ::
  "('q, 'c, 's, 'r, 'w, 'l) site \<Rightarrow> (args \<Rightarrow> args) \<Rightarrow> u8 list list list \<Rightarrow> nat list \<Rightarrow>
     (json list \<Rightarrow> bool) \<Rightarrow> bool" where
  "answers_satisfy T extra bodies order P =
     (case run_test T extra (map (\<lambda>bs. concat (map frame bs)) bodies) order of
        None \<Rightarrow> False
      | Some bss \<Rightarrow> (case those (map (read_response T) bss) of None \<Rightarrow> False | Some vs \<Rightarrow> P vs))"

section \<open>What happens during a test is a run of the server\<close>

definition all_reading :: "('c, 'q) server \<Rightarrow> bool" where
  "all_reading s \<longleftrightarrow> 0 < permits s \<and> (\<forall>i cn. conns s i = Some cn \<longrightarrow> phase cn = Reading)"

lemma exchange_runs:
  assumes "exchange X c i s = Returns (bs, s')" "all_reading s"
  shows "(\<exists>tr. server_run X c s tr s' \<and> (\<forall>e \<in> set tr. event_conn e = Some i)) \<and> all_reading s'"
proof (cases "conns s i")
  case None
  with assms show ?thesis by (auto simp: exchange_def intro: exI [of _ "[]"] server_run.start)
next
  case (Some cn)
  obtain r st where rr: "read_request c (socket cn) = (r, st)" by (cases "read_request c (socket cn)")
  have "phase cn = Reading" using Some assms(2) by (simp add: all_reading_def)
  with Some have cn: "conns s i =
      Some \<lparr>peer = peer cn, handler = handler cn, socket = socket cn, phase = Reading\<rparr>" by simp
  show ?thesis
  proof (cases r)
    case None
    have "s' = task_done X i (handler cn) (world s) s"
      using assms(1) Some rr None by (simp add: exchange_def close_conn_def task_done_def)
    with task_ends [OF cn rr [unfolded None], of X] assms(2) show ?thesis
      by (intro conjI exI [of _ "[Closed i]"]) (auto simp: all_reading_def task_done_def)
  next
    case (Some req)
    obtain v h1 w1 where q: "handle_request X (handler cn) (world s) req = Returns (v, h1, w1)"
      using assms(1) \<open>conns s i = Some cn\<close> rr Some
      by (auto simp: exchange_def run_bind_Returns_iff)
    obtain res st1 where wr: "write_all (frame (response_body X v)) st = (res, st1)"
      by (cases "write_all (frame (response_body X v)) st")
    have "0 < permits s" using assms(2) by (simp add: all_reading_def)
    from task_round [OF cn rr [unfolded Some] this q wr] obtain e where
      e: "event_conn e = Some i" "server_run X c s [Received i req, Acquired i, Ran i req, e]
        (case res of Inl _ \<Rightarrow> task_done X i h1 w1 s | Inr _ \<Rightarrow>
           s\<lparr>conns := (conns s)(i \<mapsto> \<lparr>peer = peer cn, handler = h1, socket = st1, phase = Reading\<rparr>), world := w1\<rparr>)"
      by blast
    have s': "s' = (case res of Inl _ \<Rightarrow> task_done X i h1 w1 s | Inr _ \<Rightarrow>
        s\<lparr>conns := (conns s)(i \<mapsto> \<lparr>peer = peer cn, handler = h1, socket = st1, phase = Reading\<rparr>), world := w1\<rparr>)"
      using assms(1) \<open>conns s i = Some cn\<close> rr Some q wr
      by (auto simp: exchange_def close_conn_def task_done_def split: sum.splits)
    have "all_reading s'"
      using assms(2) by (auto simp: s' all_reading_def task_done_def split: sum.splits)
    with e s' show ?thesis by (intro conjI exI) auto
  qed
qed

lemma session_runs:
  "session X c hs order s = Returns (bss, s') \<Longrightarrow> all_reading s \<Longrightarrow> \<exists>tr. server_run X c s tr s'"
proof (induction order arbitrary: s bss)
  case Nil
  then show ?case by (auto intro: exI [of _ "[]"] server_run.start)
next
  case (Cons k order)
  from Cons.prems obtain bs s1 rest where
    "(case hs ! k of None \<Rightarrow> Returns ([], s) | Some i \<Rightarrow> exchange X c i s) = Returns (bs, s1)"
    and rest: "session X c hs order s1 = Returns (rest, s')"
    by (auto simp: run_bind_Returns_iff)
  then obtain tr where tr: "server_run X c s tr s1" "all_reading s1"
    using exchange_runs [of X c _ s bs s1] Cons.prems(2)
    by (cases "hs ! k") (auto intro: server_run.start)
  from Cons.IH [OF rest tr(2)] obtain tr' where "server_run X c s1 tr' s'" by blast
  from server_run_trans [OF this tr(1)] show ?case by blast
qed

lemma connect_all_runs:
  "connect_all T c written hs = Returns hs' \<Longrightarrow> accepting (snd hs) \<Longrightarrow> all_reading (snd hs) \<Longrightarrow>
     (\<exists>tr. server_run X c (snd hs) tr (snd hs')) \<and> all_reading (snd hs')"
proof (induction written arbitrary: hs)
  case Nil
  then show ?case by (auto intro: exI [of _ "[]"] server_run.start)
next
  case (Cons bytes written)
  let ?st = "\<lparr>inbox = bytes, outbox = [], accepts = site_room T\<rparr>"
  from Cons.prems(1) obtain hs1 where 1: "connect_test T c bytes hs = Returns hs1"
    and rest: "connect_all T c written hs1 = Returns hs'"
    by (auto simp: run_bind_Returns_iff)
  then obtain ok where ok: "is_ip_allowed c localhost = Returns ok"
    by (auto simp: connect_test_def run_bind_Returns_iff)
  have "\<exists>e. server_step X c (snd hs) e (snd hs1)"
  proof (cases ok)
    case True
    then show ?thesis
      using 1 ok server_step.accepted [OF Cons.prems(2), of c localhost ?st X]
      by (auto simp: connect_test_def)
  next
    case False
    then show ?thesis
      using 1 ok server_step.rejected [OF Cons.prems(2), of c localhost X]
      by (auto simp: connect_test_def)
  qed
  then obtain e where e: "server_step X c (snd hs) e (snd hs1)" by blast
  have "accepting (snd hs1)" "all_reading (snd hs1)"
    using 1 ok Cons.prems(2,3) by (auto simp: connect_test_def spawn_def all_reading_def split: if_splits)
  from Cons.IH [OF rest this] server_run_Cons [OF e] show ?case by blast
qed

lemma test_is_server_run:
  assumes "run_test T extra written order = Some bss"
  shows "\<exists>c out s tr. main_process (site_env T) (site_runtime T) (extra (test_args (site_dir T))) =
      Returns (Listening c out) \<and>
    process_run (site_runtime T) (site_externals T) (site_world T) (Listening c out) tr (Listening c out) s"
proof -
  let ?X = "site_externals T"
  from assms obtain c where c: "start_with_args T extra = Some c"
    by (auto simp: run_test_def split: option.splits)
  obtain out where out: "main_process (site_env T) (site_runtime T) (extra (test_args (site_dir T))) =
      Returns (Listening c out)"
    using c by (auto simp: start_with_args_def split: run.splits process.splits)
  let ?s0 = "start_server c (site_world T)"
  obtain hs s s' where all: "connect_all T c written ([], ?s0) = Returns (hs, s)"
    and ses: "session ?X c hs order s = Returns (bss, s')"
    using assms c
    by (auto simp: run_test_def split: run.splits) (auto simp: run_bind_Returns_iff)
  have r: "all_reading ?s0" "accepting ?s0"
    by (simp_all add: all_reading_def start_server_def query_limit_def)
  obtain tr where tr: "server_run ?X c ?s0 tr s" "all_reading s"
    using connect_all_runs [OF all, of ?X] r by auto
  obtain tr' where "server_run ?X c s tr' s'" using session_runs [OF ses tr(2)] by blast
  from process_run.listening [OF server_run_trans [OF this tr(1)], of _ out] out show ?thesis by blast
qed

section \<open>What the test reads is what the handlers answered\<close>

text \<open>The calls as the handlers see them: one handler for each connection, one world.\<close>

fun replies ::
  "('q, 'c, 's, 'r, 'w) externals \<Rightarrow> 'c request_handler list \<Rightarrow> 'q world \<Rightarrow> (nat \<times> string) list \<Rightarrow>
     json list run" where
  "replies X handlers w [] = Returns []"
| "replies X handlers w ((k, req) # script) =
     run_bind (handle_request X (handlers ! k) w req) (\<lambda>(v, h1, w1).
     run_bind (replies X (handlers[k := h1]) w1 script) (\<lambda>vs. Returns (v # vs)))"

definition bodies_of :: "nat \<Rightarrow> (nat \<times> string) list \<Rightarrow> u8 list list" where
  "bodies_of k script = map (bytes_of_str \<circ> snd) (filter (\<lambda>p. fst p = k) script)"

lemma bodies_of_simps [simp]:
  "bodies_of k [] = []"
  "bodies_of k ((j, req) # script) = (if j = k then bytes_of_str req # bodies_of k script else bodies_of k script)"
  by (simp_all add: bodies_of_def)

definition answer_bytes :: "('q, 'c, 's, 'r, 'w) externals \<Rightarrow> json list \<Rightarrow> u8 list" where
  "answer_bytes X vs = concat (map (\<lambda>v. frame (response_body X v)) vs)"

lemma answer_bytes_simps [simp]:
  "answer_bytes X [] = []"
  "answer_bytes X (v # vs) = frame (response_body X v) @ answer_bytes X vs"
  by (simp_all add: answer_bytes_def)

text \<open>The connections of a test, which is still going to write the given bodies on them.\<close>

definition peers_ready ::
  "nat \<Rightarrow> 'c request_handler list \<Rightarrow> (nat \<times> string) list \<Rightarrow> ('c, 'q) server \<Rightarrow> bool" where
  "peers_ready room handlers script s \<longleftrightarrow>
     (\<forall>k < length handlers. \<exists>out n. room \<le> n \<and>
        conns s k = Some \<lparr>peer = localhost, handler = handlers ! k,
          socket = \<lparr>inbox = concat (map frame (bodies_of k script)), outbox = out, accepts = n\<rparr>,
          phase = Reading\<rparr>)"

definition readable :: "config \<Rightarrow> string \<Rightarrow> bool" where
  "readable c req \<longleftrightarrow> is_str req \<and> length (bytes_of_str req) \<le> unat (client_max_packet_size c)"

lemma exchange_frame:
  assumes "conns s k = Some \<lparr>peer = ip, handler = h,
      socket = \<lparr>inbox = frame (bytes_of_str req) @ rest, outbox = out, accepts = n\<rparr>, phase = Reading\<rparr>"
    and "readable c req" "handle_request X h (world s) req = Returns (v, h1, w1)"
    and "length (frame (response_body X v)) \<le> n"
  shows "exchange X c k s = Returns (frame (response_body X v),
    s\<lparr>conns := (conns s)(k \<mapsto> \<lparr>peer = ip, handler = h1,
        socket = \<lparr>inbox = rest, outbox = out @ frame (response_body X v),
          accepts = n - length (frame (response_body X v))\<rparr>, phase = Reading\<rparr>), world := w1\<rparr>)"
proof -
  let ?st = "\<lparr>inbox = frame (bytes_of_str req) @ rest, outbox = out, accepts = n\<rparr>"
  have "read_request c ?st = (Some req, ?st\<lparr>inbox := rest\<rparr>)"
    by (rule read_request_frame) (use assms(2) in \<open>simp_all add: readable_def\<close>)
  with assms(1,3,4) show ?thesis by (simp add: exchange_def write_all_fits del: length_frame)
qed

lemma peers_ready_served:
  assumes "peers_ready room handlers ((k, req) # script) s" "k < length handlers" "room1 \<le> n" "room1 \<le> room"
  shows "peers_ready room1 (handlers[k := h1]) script
    (s\<lparr>conns := (conns s)(k \<mapsto> \<lparr>peer = localhost, handler = h1,
       socket = \<lparr>inbox = concat (map frame (bodies_of k script)), outbox = out, accepts = n\<rparr>, phase = Reading\<rparr>),
       world := w1\<rparr>)"
  unfolding peers_ready_def
proof (intro allI impI)
  fix j
  assume j: "j < length (handlers[k := h1])"
  show "\<exists>out' n'. room1 \<le> n' \<and> conns (s\<lparr>conns := (conns s)(k \<mapsto> \<lparr>peer = localhost, handler = h1,
         socket = \<lparr>inbox = concat (map frame (bodies_of k script)), outbox = out, accepts = n\<rparr>, phase = Reading\<rparr>),
         world := w1\<rparr>) j =
      Some \<lparr>peer = localhost, handler = handlers[k := h1] ! j,
        socket = \<lparr>inbox = concat (map frame (bodies_of j script)), outbox = out', accepts = n'\<rparr>, phase = Reading\<rparr>"
  proof (cases "j = k")
    case True
    then show ?thesis using assms(2,3) by auto
  next
    case False
    with assms(1,4) j show ?thesis by (fastforce simp: peers_ready_def)
  qed
qed

lemma session_replies:
  assumes "replies X handlers (world s) script = Returns vs"
    and "peers_ready (length (answer_bytes X vs)) handlers script s"
    and "\<forall>(k, req) \<in> set script. k < length handlers \<and> readable c req"
    and "\<And>k. k < length handlers \<Longrightarrow> hs ! k = Some k"
  shows "\<exists>s'. session X c hs (map fst script) s = Returns (map (\<lambda>v. frame (response_body X v)) vs, s')"
  using assms
proof (induction script arbitrary: handlers s vs)
  case Nil
  then show ?case by simp
next
  case (Cons p script)
  obtain k req where p: "p = (k, req)" by (cases p)
  from Cons.prems(1) obtain v h1 w1 vs1 where
    q: "handle_request X (handlers ! k) (world s) req = Returns (v, h1, w1)"
    and rest: "replies X (handlers[k := h1]) w1 script = Returns vs1" and vs: "vs = v # vs1"
    by (auto simp: p run_bind_Returns_iff)
  have k: "k < length handlers" "readable c req" using Cons.prems(3) by (simp_all add: p)
  let ?out = "frame (response_body X v)" and ?in = "concat (map frame (bodies_of k script))"
  obtain out n where n: "length (answer_bytes X vs) \<le> n" and cn: "conns s k =
      Some \<lparr>peer = localhost, handler = handlers ! k,
        socket = \<lparr>inbox = frame (bytes_of_str req) @ ?in, outbox = out, accepts = n\<rparr>, phase = Reading\<rparr>"
    using Cons.prems(2) k(1) by (auto simp: peers_ready_def p)
  let ?s1 = "s\<lparr>conns := (conns s)(k \<mapsto> \<lparr>peer = localhost, handler = h1,
      socket = \<lparr>inbox = ?in, outbox = out @ ?out, accepts = n - length ?out\<rparr>, phase = Reading\<rparr>), world := w1\<rparr>"
  have ex: "exchange X c k s = Returns (?out, ?s1)"
    by (rule exchange_frame [OF cn k(2) q]) (use n in \<open>simp add: vs\<close>)
  have "peers_ready (length (answer_bytes X vs1)) (handlers[k := h1]) script ?s1"
    by (rule peers_ready_served [OF Cons.prems(2) [unfolded p] k(1)]) (use n in \<open>simp_all add: vs\<close>)
  from Cons.IH [OF _ this] rest Cons.prems(3,4)
  obtain s' where "session X c hs (map fst script) ?s1 = Returns (map (\<lambda>v. frame (response_body X v)) vs1, s')"
    by auto
  then show ?case using Cons.prems(4) [OF k(1)] by (simp add: p vs ex)
qed

lemma connect_all_ready:
  assumes "is_ip_allowed c localhost = Returns True"
  shows "\<exists>s'. connect_all T c written (hs, s) =
      Returns (hs @ map Some [next_id s ..< next_id s + length written], s') \<and> world s' = world s \<and>
    (\<forall>i. conns s' i =
       (if next_id s \<le> i \<and> i < next_id s + length written
        then Some \<lparr>peer = localhost, handler = new_handler c,
          socket = \<lparr>inbox = written ! (i - next_id s), outbox = [], accepts = site_room T\<rparr>, phase = Reading\<rparr>
        else conns s i))"
proof (induction written arbitrary: hs s)
  case (Cons bytes written)
  have upt: "[n ..< Suc (n + m)] = n # [Suc n ..< Suc (n + m)]" for n m
    by (rule upt_conv_Cons) simp
  let ?s1 = "spawn c localhost \<lparr>inbox = bytes, outbox = [], accepts = site_room T\<rparr> s"
  have n: "next_id ?s1 = Suc (next_id s)" "world ?s1 = world s" by (simp_all add: spawn_def)
  from Cons.IH [of "hs @ [Some (next_id s)]" ?s1] obtain s' where
    s': "connect_all T c written (hs @ [Some (next_id s)], ?s1) =
        Returns (hs @ map Some [next_id s ..< Suc (next_id s + length written)], s')" "world s' = world s"
      "\<And>i. conns s' i =
        (if Suc (next_id s) \<le> i \<and> i < Suc (next_id s) + length written
         then Some \<lparr>peer = localhost, handler = new_handler c,
           socket = \<lparr>inbox = written ! (i - Suc (next_id s)), outbox = [], accepts = site_room T\<rparr>,
           phase = Reading\<rparr>
         else conns ?s1 i)"
    by (auto simp: n upt simp del: upt_Suc)
  show ?case
    by (rule exI [of _ s']) (use s' in \<open>auto simp: connect_test_def assms spawn_def nth_Cons' Suc_diff_Suc
      simp del: upt_Suc\<close>)
qed auto

text \<open>A test passes if the answers of the handlers satisfy it, the texts are read back, and the test
  reads all that is written.\<close>

definition read_back :: "('q, 'c, 's, 'r, 'w, 'l) site \<Rightarrow> json \<Rightarrow> bool" where
  "read_back T v \<longleftrightarrow> length (response_body (site_externals T) v) < 2 ^ 32 \<and>
     site_from_slice T (response_body (site_externals T) v) = Some v"

lemma read_response_frame:
  "read_back T v \<Longrightarrow> read_response T (frame (response_body (site_externals T) v)) = Some v"
  using unframe_frame_fits [of "response_body (site_externals T) v" "[]"]
  by (simp add: read_response_def read_back_def)

lemma answers_satisfyI:
  assumes "start_with_args T extra = Some c" "is_ip_allowed c localhost = Returns True"
    and "replies (site_externals T) (replicate (length bodies) (new_handler c)) (site_world T) script = Returns vs"
    and "bodies = map (\<lambda>k. bodies_of k script) [0 ..< length bodies]" "order = map fst script"
    and "\<forall>(k, req) \<in> set script. k < length bodies \<and> readable c req"
    and "\<forall>v \<in> set vs. read_back T v" "length (answer_bytes (site_externals T) vs) \<le> site_room T" "P vs"
  shows "answers_satisfy T extra bodies order P"
proof -
  let ?X = "site_externals T" and ?written = "map (\<lambda>bs. concat (map frame bs)) bodies"
  let ?hs = "map Some [0 ..< length bodies]"
  have start: "next_id (start_server c (site_world T)) = 0" "world (start_server c (site_world T)) = site_world T"
    by (simp_all add: start_server_def)
  obtain s :: "('b, 'a) server" where s: "connect_all T c ?written ([], start_server c (site_world T)) = Returns (?hs, s)"
    "world s = site_world T"
    "\<And>i. i < length bodies \<Longrightarrow> conns s i =
       Some \<lparr>peer = localhost, handler = new_handler c,
         socket = \<lparr>inbox = ?written ! i, outbox = [], accepts = site_room T\<rparr>, phase = Reading\<rparr>"
    using connect_all_ready [OF assms(2), of T ?written "[]" "start_server c (site_world T)"]
    unfolding start by auto
  have "bodies ! k = bodies_of k script" if "k < length bodies" for k
    using arg_cong [OF assms(4), of "\<lambda>xs. xs ! k"] that by simp
  then have "peers_ready (length (answer_bytes ?X vs)) (replicate (length bodies) (new_handler c)) script s"
    using s(3) assms(8) by (auto simp: peers_ready_def)
  from session_replies [OF _ this] assms(3,6) s(2)
  obtain s' where "session ?X c ?hs (map fst script) s = Returns (map (\<lambda>v. frame (response_body ?X v)) vs, s')"
    by fastforce
  with s(1) have "run_test T extra ?written order = Some (map (\<lambda>v. frame (response_body ?X v)) vs)"
    by (simp add: run_test_def assms(1,5))
  moreover have "those (map (read_response T \<circ> (\<lambda>v. frame (response_body ?X v))) vs) = Some vs"
    using assms(7) by (induction vs) (simp_all add: read_response_frame)
  ultimately show ?thesis using assms(9) by (simp add: answers_satisfy_def)
qed

end
