(* ===== verification/Protocol_Tests.thy ===== *)
theory Protocol_Tests
  imports Protocol_Harness
begin

text \<open>
  The protocol tests (\<open>src/tests/protocol.rs\<close>), replayed: a test is a predicate on the site it runs at,
  true if its assertions hold and its \<open>unwrap\<close>s do not fail, and passes on a machine whose engine
  knows the statements of the tests, keeps a log of what each file was told, and creates the files
  SQLite creates. Stopping the server and removing its folder are left out.
\<close>

section \<open>The tests\<close>

definition query_of :: "string \<Rightarrow> string \<Rightarrow> json" where
  "query_of db q = json_object [(''cmd'', String ''QUERY''), (''db'', String db), (''query'', String q)]"

definition list_of :: "string \<Rightarrow> json" where
  "list_of cmd = json_object [(''cmd'', String cmd)]"

definition insert_users :: string where
  "insert_users =
     ''INSERT INTO users VALUES (1, 'Alice', 9.5, X'00ff'), (2, NULL, 3.0, NULL)''"

definition full_protocol_flow :: "('q, 'c, 's, 'r, 'w, 'l) site \<Rightarrow> bool" where
  "full_protocol_flow T =
     answers_satisfy T id
       [map (site_to_vec T)
          [query_of ''test.db'' ''CREATE TABLE users(id INTEGER, name TEXT, score REAL, data BLOB)'',
           query_of ''test.db'' insert_users,
           query_of ''test.db'' ''SELECT id, name, score, data FROM users ORDER BY id'',
           list_of ''LIST'',
           json_object [(''cmd'', String ''DELETE_DB''), (''db'', String ''test.db'')],
           json_object [(''cmd'', String ''DELETE_DB''), (''db'', String ''test.db'')]]]
       [0, 0, 0, 0, 0, 0]
       (\<lambda>vs.
          vs ! 0 = json_object [(''columns'', Array []), (''data'', Array [])] \<and>
          index_key (vs ! 2) ''columns'' = Array [String ''id'', String ''name'', String ''score'', String ''data''] \<and>
          (case as_array (index_key (vs ! 2) ''data'') of
             None \<Rightarrow> False
           | Some rows \<Rightarrow>
               length rows = 2 \<and> index_key (rows ! 0) ''id'' = Number (PosInt 1) \<and>
               index_key (rows ! 0) ''name'' = String ''Alice'' \<and>
               index_key (rows ! 0) ''score'' = Number (Float 0x4023000000000000) \<and>
               index_key (rows ! 0) ''data'' = String (''X'' @ [single_quote] @ ''00ff'' @ [single_quote]) \<and>
               index_key (rows ! 1) ''name'' = json.Null) \<and>
          (case as_array (index_key (vs ! 3) ''list'') of
             None \<Rightarrow> False
           | Some names \<Rightarrow>
               list_all (\<lambda>v. as_str v \<noteq> None) names \<and> String ''test.db'' \<in> set names \<and>
               \<not> list_ex (\<lambda>v. suffix ''-wal'' (the (as_str v))) names) \<and>
          vs ! 4 = json_object [(''result'', String ''ok'')] \<and>
          vs ! 5 = json_object [(''result'', String ''error'')])"

definition error_responses :: "('q, 'c, 's, 'r, 'w, 'l) site \<Rightarrow> bool" where
  "error_responses T =
     answers_satisfy T id
       [bytes_of_str ''not json at all {{{'' # map (site_to_vec T)
          [json_object [(''db'', String ''x'')],
           list_of ''FROBNICATE'',
           json_object [(''cmd'', String ''QUERY''), (''query'', String ''SELECT 1'')],
           json_object [(''cmd'', String ''QUERY''), (''db'', String ''ok.db'')],
           query_of ''../escape.db'' ''SELECT 1'',
           query_of ''ok.db'' ''SELECT * FROM ghosts'',
           query_of ''ok.db'' ''   '']]
       [0, 0, 0, 0, 0, 0, 0, 0]
       (\<lambda>vs.
          index_key (vs ! 0) ''generic_error'' = Number (PosInt 0) \<and> value_get (vs ! 0) ''message'' \<noteq> None \<and>
          index_key (vs ! 1) ''generic_error'' = Number (PosInt 1) \<and>
          index_key (vs ! 2) ''generic_error'' = Number (PosInt 2) \<and>
          index_key (vs ! 3) ''generic_error'' = Number (PosInt 3) \<and>
          index_key (vs ! 4) ''generic_error'' = Number (PosInt 4) \<and>
          index_key (vs ! 5) ''generic_error'' = Number (PosInt 3) \<and>
          index_key (vs ! 6) ''error_code'' = Number (PosInt 1) \<and>
          (case as_str (index_key (vs ! 6) ''error_message'') of
             Some msg \<Rightarrow> sublist ''no such table'' msg | None \<Rightarrow> False) \<and>
          index_key (vs ! 7) ''error_code'' = Number (PosInt 21) \<and>
          index_key (vs ! 7) ''error_message'' = String ''empty query'')"

definition case_insensitive_and_key_repair :: "('q, 'c, 's, 'r, 'w, 'l) site \<Rightarrow> bool" where
  "case_insensitive_and_key_repair T =
     answers_satisfy T id [[site_to_vec T (list_of ''list''), bytes_of_str ''{cmd:\"LIST\"}'']] [0, 0]
       (\<lambda>vs. value_get (vs ! 0) ''list'' \<noteq> None \<and> value_get (vs ! 1) ''list'' \<noteq> None)"

definition oversized_packet_closes_connection :: "('q, 'c, 's, 'r, 'w, 'l) site \<Rightarrow> bool" where
  "oversized_packet_closes_connection T =
     (case run_test T id [to_le_bytes (20 * 1024 * 1024)] [0] of
        Some [bs] \<Rightarrow> no_header bs | _ \<Rightarrow> False)"

definition transaction_rollback_on_one_connection :: "('q, 'c, 's, 'r, 'w, 'l) site \<Rightarrow> bool" where
  "transaction_rollback_on_one_connection T =
     answers_satisfy T id
       [map (site_to_vec T)
          [query_of ''tx.db'' ''CREATE TABLE t(id INTEGER)'', query_of ''tx.db'' ''BEGIN'',
           query_of ''tx.db'' ''INSERT INTO t VALUES (1), (2)'', query_of ''tx.db'' ''ROLLBACK'',
           query_of ''tx.db'' ''SELECT COUNT(*) AS n FROM t'']]
       [0, 0, 0, 0, 0]
       (\<lambda>vs. index_key (index_nat (index_key (vs ! 4) ''data'') 0) ''n'' = Number (PosInt 0))"

definition auth_required_handshake :: "('q, 'c, 's, 'r, 'w, 'l) site \<Rightarrow> bool" where
  "auth_required_handshake T =
     answers_satisfy T (\<lambda>a. a\<lparr>arg_auth := ''s3cret''\<rparr>)
       [map (site_to_vec T)
          [list_of ''LIST'', json_object [(''auth'', String ''nope'')],
           json_object [(''auth'', String ''s3cret'')], list_of ''LIST''],
        [site_to_vec T (list_of ''LIST'')]]
       [0, 0, 0, 0, 1]
       (\<lambda>vs. vs ! 0 = json_object [(''result'', String ''error'')] \<and>
          vs ! 1 = json_object [(''result'', String ''error'')] \<and>
          vs ! 2 = json_object [(''result'', String ''ok'')] \<and>
          value_get (vs ! 3) ''list'' \<noteq> None \<and>
          vs ! 4 = json_object [(''result'', String ''error'')])"

definition ip_whitelist_allows_listed_peer :: "('q, 'c, 's, 'r, 'w, 'l) site \<Rightarrow> bool" where
  "ip_whitelist_allows_listed_peer T =
     answers_satisfy T (\<lambda>a. a\<lparr>arg_ip_whitelist := ''127.0.0.1/32''\<rparr>)
       [[site_to_vec T (list_of ''LIST'')]] [0] (\<lambda>vs. value_get (vs ! 0) ''list'' \<noteq> None)"

definition ip_whitelist_rejects_other_peers :: "('q, 'c, 's, 'r, 'w, 'l) site \<Rightarrow> bool" where
  "ip_whitelist_rejects_other_peers T =
     (case run_test T (\<lambda>a. a\<lparr>arg_ip_whitelist := ''10.0.0.0/8''\<rparr>)
        [frame (site_to_vec T (list_of ''LIST''))] [0] of
        Some [bs] \<Rightarrow> no_header bs | _ \<Rightarrow> False)"

definition two_connections_share_a_database_file :: "('q, 'c, 's, 'r, 'w, 'l) site \<Rightarrow> bool" where
  "two_connections_share_a_database_file T =
     answers_satisfy T id
       [map (site_to_vec T)
          [query_of ''shared.db'' ''CREATE TABLE s(v TEXT)'',
           query_of ''shared.db'' ''INSERT INTO s VALUES ('hello')''],
        [site_to_vec T (query_of ''shared.db'' ''SELECT v FROM s'')]]
       [0, 0, 1]
       (\<lambda>vs. index_key (index_nat (index_key (vs ! 2) ''data'') 0) ''v'' = String ''hello'')"

section \<open>A machine for the tests\<close>

text \<open>
  An engine that keeps the log of the statements of each file, whichever connection ran them, and
  answers by it; a printer, and a parser of the texts the printer makes of given values.
\<close>

definition file_log :: "(string \<times> string) list \<Rightarrow> string \<Rightarrow> string list" where
  "file_log log p = map snd (filter (\<lambda>e. fst e = p) log)"

definition rolled_back :: "string list \<Rightarrow> bool" where
  "rolled_back log =
     (\<exists>before \<in> set (prefixes log). suffix [''BEGIN'', ''INSERT INTO t VALUES (1), (2)'', ''ROLLBACK''] before)"

definition protocol_answer ::
  "string list \<Rightarrow> string \<Rightarrow> rusqlite_error + string list \<times> value_ref list list" where
  "protocol_answer log q =
     (if q = ''SELECT id, name, score, data FROM users ORDER BY id'' then
        (if insert_users \<in> set log
         then Inr ([''id'', ''name'', ''score'', ''data''],
           [[Integer 1, Text (bytes_of_str ''Alice''), Real 0x4023000000000000, Blob [0x00, 0xFF]],
            [Integer 2, value_ref.Null, Real 0x4008000000000000, value_ref.Null]])
         else Inl (no_such_table ''users''))
      else if q = ''SELECT * FROM ghosts'' then Inl (no_such_table ''ghosts'')
      else if q = ''SELECT COUNT(*) AS n FROM t'' then
        Inr ([''n''], [[Integer (if rolled_back log then 0 else 2)]])
      else if q = ''SELECT v FROM s'' then
        (if ''INSERT INTO s VALUES ('hello')'' \<in> set log
         then Inr ([''v''], [[Text (bytes_of_str ''hello'')]]) else Inl (no_such_table ''s''))
      else Inr ([], []))"

definition protocol_sqlite ::
  "((string \<times> string) list, string, (string list \<times> value_ref list list) \<times> string \<times> string,
     value_ref list list, value_ref list) rusqlite" where
  "protocol_sqlite =
     \<lparr>sq_open = (\<lambda>p w. (Inr p, make_file p w)),
      sq_execute_batch = (\<lambda>p q w. (Inr (), make_file (p @ ''-wal'') w)),
      sq_prepare = (\<lambda>p q w.
        (case protocol_answer (file_log (engine w) p) q of Inl e \<Rightarrow> Inl e | Inr a \<Rightarrow> Inr (a, p, q), w)),
      sq_column_names = (\<lambda>((cols, _), _, _). cols),
      sq_query = (\<lambda>((_, rows), p, q) w. (Inr rows, w\<lparr>engine := engine w @ [(p, q)]\<rparr>)),
      sq_next = (\<lambda>rows w. case rows of [] \<Rightarrow> (Inr None, [], w) | r # rs \<Rightarrow> (Inr (Some r), rs, w)),
      sq_get_ref = (\<lambda>r i. Inr (r ! i)), sq_finalize = (\<lambda>stmt w. w), sq_close = (\<lambda>conn w. w)\<rparr>"

definition quote_text :: "string \<Rightarrow> string" where
  "quote_text s = ''\"'' @ concat (map (\<lambda>c. if c = CHR 0x22 \<or> c = CHR 0x5C then [CHR 0x5C, c] else [c]) s) @ ''\"''"

text \<open>Of the numbers, those of the tests.\<close>

fun print_number :: "number \<Rightarrow> string" where
  "print_number (PosInt n) = dec_of_int (uint n)"
| "print_number (NegInt n) = ''-'' @ dec_of_int (- sint n)"
| "print_number (Float x) =
     (if x = 0x4023000000000000 then ''9.5'' else if x = 0x4008000000000000 then ''3.0'' else ''0.0'')"

fun print_json :: "json \<Rightarrow> string" where
  "print_json json.Null = ''null''"
| "print_json (Bool b) = (if b then ''true'' else ''false'')"
| "print_json (Number n) = print_number n"
| "print_json (String s) = quote_text s"
| "print_json (Array vs) = ''['' @ join_with '','' (map print_json vs) @ '']''"
| "print_json (Object ms) =
     ''{'' @ join_with '','' (map (\<lambda>(k, v). quote_text k @ '':'' @ print_json v) ms) @ ''}''"

definition parse_known :: "json list \<Rightarrow> string \<Rightarrow> string + json" where
  "parse_known known s =
     ok_or ''expected value'' (map_of (map (\<lambda>v. (print_json v, v)) known) s)"

definition protocol_files :: fs where
  "protocol_files =
     \<lparr>entries = [([''tmp''], Dir), ([''tmp'', ''t''], Dir)], cwd = [], rights = (\<lambda>_ _. True)\<rparr>"

definition protocol_env :: environment where
  "protocol_env =
     \<lparr>env_files = protocol_files, env_current_dir = Inr ''/'', env_lookup_host = (\<lambda>_ _. Inl ''''),
      env_parallelism = Some 8, env_io_error = (\<lambda>_. ''''), env_from_str = (\<lambda>s. Inl '''')\<rparr>"

text \<open>The runtime of theory Program, which listens on a free port when asked for port 0.\<close>

definition protocol_runtime :: "socket_addr runtime" where
  "protocol_runtime =
     demo_runtime\<lparr>rt_local_addr := (\<lambda>a. Inr (if sock_port a = 0 then SocketAddr (sock_ip a) 54321 else a))\<rparr>"

definition protocol_externals where
  "protocol_externals known =
     \<lparr>sqlite = protocol_sqlite, json_from_str = parse_known known, json_to_string = Some \<circ> print_json,
      regex_captures = (\<lambda>p s. key_captures s)\<rparr>"

definition protocol_site where
  "protocol_site known room =
     \<lparr>site_env = protocol_env, site_runtime = protocol_runtime, site_externals = protocol_externals known,
      site_world = \<lparr>files = protocol_files, engine = []\<rparr>, site_dir = ''/tmp/t'',
      site_to_vec = bytes_of_str \<circ> print_json,
      site_from_slice = (\<lambda>bs. case parse_known known (str_of_bytes bs) of Inl _ \<Rightarrow> None | Inr v \<Rightarrow> Some v),
      site_room = room\<rparr>"

section \<open>Passing a test\<close>

lemma protocol_to_vec: "site_to_vec (protocol_site known room) = bytes_of_str \<circ> print_json"
  by (simp add: protocol_site_def)

lemma is_str_ascii: "list_all (\<lambda>c. \<not> digit7 c) s \<Longrightarrow> is_str s"
proof (induction s)
  case (Cons c s)
  have "byte_of_char c < 0x80"
    using Cons.prems by (cases c) (auto simp: byte_of_char_def of_char_Char)
  with Cons show ?case
    by (simp add: is_str_def bytes_of_str_def valid_utf8.simps utf8_step.simps)
qed (simp add: is_str_def bytes_of_str_def)

lemma parse_known_print:
  "distinct (map print_json known) \<Longrightarrow> v \<in> set known \<Longrightarrow> parse_known known (print_json v) = Inr v"
  by (simp add: parse_known_def ok_or_def map_of_is_SomeI [of _ _ v] comp_def)

definition test_config :: "string \<Rightarrow> cidr list \<Rightarrow> config" where
  "test_config password whitelist =
     \<lparr>listen_addr = SocketAddr localhost 0, workers = 8, databases_folder = ''/tmp/t'',
      client_max_packet_size = 16 * 1024 * 1024, busy_timeout_ms = 5000, auth = password,
      ip_whitelist = whitelist\<rparr>"

lemma test_configs:
  "parse_config protocol_env (test_args ''/tmp/t'') = Inr (Some (test_config [] []))"
  "parse_config protocol_env ((test_args ''/tmp/t'')\<lparr>arg_auth := ''s3cret''\<rparr>) =
     Inr (Some (test_config ''s3cret'' []))"
  "parse_config protocol_env ((test_args ''/tmp/t'')\<lparr>arg_ip_whitelist := ''127.0.0.1/32''\<rparr>) =
     Inr (Some (test_config [] [\<lparr>network = localhost, prefix_len = 32\<rparr>]))"
  "parse_config protocol_env ((test_args ''/tmp/t'')\<lparr>arg_ip_whitelist := ''10.0.0.0/8''\<rparr>) =
     Inr (Some (test_config [] [\<lparr>network = V4 0x0A000000, prefix_len = 8\<rparr>]))"
  by code_simp+

lemma test_start:
  assumes "parse_config protocol_env (extra (test_args ''/tmp/t'')) = Inr (Some (test_config pw nets))"
  shows "start_with_args (protocol_site known room) extra = Some (test_config pw nets)"
proof -
  let ?c = "test_config pw nets"
  have c: "worker_count ?c = 8" "listen_addr ?c = SocketAddr localhost 0"
    by (simp_all add: worker_count_def test_config_def)
  have "main_process protocol_env protocol_runtime (extra (test_args ''/tmp/t'')) =
      Returns (Listening ?c (banner ?c (SocketAddr localhost 54321)))"
    by (simp add: main_process_def assms run_server_def protocol_runtime_def demo_runtime_def c process_of_def)
  then show ?thesis by (simp add: start_with_args_def protocol_site_def read_listen_port_banner)
qed

lemma test_allowed:
  "is_ip_allowed (test_config pw []) localhost = Returns True"
  "is_ip_allowed (test_config pw [\<lparr>network = localhost, prefix_len = 32\<rparr>]) localhost = Returns True"
  "is_ip_allowed (test_config pw [\<lparr>network = V4 0x0A000000, prefix_len = 8\<rparr>]) localhost = Returns False"
  by (simp add: test_config_def is_ip_allowed_def) code_simp+

text \<open>What is left to evaluate: the answers of the handlers to the texts of the test, that these are
  told apart and are not too long, and what the test asks of the answers.\<close>

definition short_text :: "string \<Rightarrow> bool" where
  "short_text s = (list_all (\<lambda>c. \<not> digit7 c) s \<and> length s < 500)"

definition test_runs ::
  "json list \<Rightarrow> config \<Rightarrow> nat \<Rightarrow> (nat \<times> string) list \<Rightarrow> (json list \<Rightarrow> bool) \<Rightarrow> bool" where
  "test_runs known c n script P =
     (distinct (map print_json known) \<and>
      list_all (\<lambda>(k, req). k < n \<and> short_text req) script \<and>
      (case replies (protocol_externals known) (replicate n (new_handler c))
              \<lparr>files = protocol_files, engine = []\<rparr> script of
         Returns vs \<Rightarrow> list_all (\<lambda>v. v \<in> set known \<and> length (print_json v) < 500) vs \<and> P vs
       | _ \<Rightarrow> False))"

lemma test_passes:
  assumes "test_runs known (test_config pw nets) (length bodies) script P"
    and "parse_config protocol_env (extra (test_args ''/tmp/t'')) = Inr (Some (test_config pw nets))"
    and "is_ip_allowed (test_config pw nets) localhost = Returns True"
    and "bodies = map (\<lambda>k. bodies_of k script) [0 ..< length bodies]" "order = map fst script"
  shows "\<exists>room. \<forall>n \<ge> room. answers_satisfy (protocol_site known n) extra bodies order P"
proof -
  let ?c = "test_config pw nets"
  obtain vs where vs: "replies (protocol_externals known) (replicate (length bodies) (new_handler ?c))
      \<lparr>files = protocol_files, engine = []\<rparr> script = Returns vs" "P vs"
    "\<forall>v \<in> set vs. v \<in> set known \<and> length (print_json v) < 500"
    using assms(1) by (auto simp: test_runs_def list_all_iff split: run.splits)
  have known: "distinct (map print_json known)" using assms(1) by (simp add: test_runs_def)
  have "client_max_packet_size ?c = 16777216" by (simp add: test_config_def)
  then have readable: "\<forall>(k, req) \<in> set script. k < length bodies \<and> readable ?c req"
    using assms(1)
    by (fastforce simp: test_runs_def short_text_def list_all_iff readable_def intro: is_str_ascii)
  have "answers_satisfy (protocol_site known n) extra bodies order P"
    if room: "length (answer_bytes (protocol_externals known) vs) \<le> n" for n
  proof -
    let ?T = "protocol_site known n"
    have sel: "site_externals ?T = protocol_externals known"
      "site_world ?T = \<lparr>files = protocol_files, engine = []\<rparr>" "site_room ?T = n"
      by (simp_all add: protocol_site_def)
    have "\<forall>v \<in> set vs. read_back ?T v"
      using vs(3) parse_known_print [OF known]
      by (fastforce simp: read_back_def response_body_def sel protocol_externals_def protocol_site_def)
    then show ?thesis
      using answers_satisfyI [of ?T extra, OF test_start [of extra, OF assms(2)] assms(3), of bodies script vs order P]
        assms(4,5) vs(1,2) readable room
      by (simp only: sel)
  qed
  then show ?thesis by blast
qed

section \<open>The tests pass\<close>

text \<open>One connection, which sends the given texts.\<close>

definition on_one :: "string list \<Rightarrow> (nat \<times> string) list" where
  "on_one = map (Pair 0)"

lemmas test_setup = protocol_to_vec test_configs test_allowed on_one_def bodies_of_def comp_def

definition full_requests :: "json list" where
  "full_requests =
     [query_of ''test.db'' ''CREATE TABLE users(id INTEGER, name TEXT, score REAL, data BLOB)'',
      query_of ''test.db'' insert_users,
      query_of ''test.db'' ''SELECT id, name, score, data FROM users ORDER BY id'',
      list_of ''LIST'', json_object [(''cmd'', String ''DELETE_DB''), (''db'', String ''test.db'')]]"

definition full_known :: "json list" where
  "full_known = full_requests @
     [query_result [] [],
      query_result [''id'', ''name'', ''score'', ''data'']
        [json_object [(''id'', Number (PosInt 1)), (''name'', String ''Alice''),
           (''score'', Number (Float 0x4023000000000000)),
           (''data'', String (''X'' @ [single_quote] @ ''00ff'' @ [single_quote]))],
         json_object [(''id'', Number (PosInt 2)), (''name'', json.Null),
           (''score'', Number (Float 0x4008000000000000)), (''data'', json.Null)]],
      json_object [(''list'', Array [String ''test.db''])], result_json True, result_json False]"

lemma full_protocol_flow_passes: "\<exists>room. \<forall>n \<ge> room. full_protocol_flow (protocol_site full_known n)"
  unfolding full_protocol_flow_def protocol_to_vec
  by (rule test_passes [where pw = "[]" and nets = "[]" and
        script = "on_one (map print_json (full_requests @ [last full_requests]))"],
      code_simp, simp_all add: test_setup full_requests_def)

definition tx_requests :: "json list" where
  "tx_requests =
     map (query_of ''tx.db'')
       [''CREATE TABLE t(id INTEGER)'', ''BEGIN'', ''INSERT INTO t VALUES (1), (2)'', ''ROLLBACK'',
        ''SELECT COUNT(*) AS n FROM t'']"

definition tx_known :: "json list" where
  "tx_known = tx_requests @
     [query_result [] [], query_result [''n''] [json_object [(''n'', Number (PosInt 0))]]]"

lemma transaction_rollback_on_one_connection_passes:
  "\<exists>room. \<forall>n \<ge> room. transaction_rollback_on_one_connection (protocol_site tx_known n)"
  unfolding transaction_rollback_on_one_connection_def protocol_to_vec
  by (rule test_passes [where pw = "[]" and nets = "[]" and script = "on_one (map print_json tx_requests)"],
      code_simp, simp_all add: test_setup tx_requests_def)

definition error_requests :: "json list" where
  "error_requests =
     [json_object [(''db'', String ''x'')], list_of ''FROBNICATE'',
      json_object [(''cmd'', String ''QUERY''), (''query'', String ''SELECT 1'')],
      json_object [(''cmd'', String ''QUERY''), (''db'', String ''ok.db'')],
      query_of ''../escape.db'' ''SELECT 1'', query_of ''ok.db'' ''SELECT * FROM ghosts'',
      query_of ''ok.db'' ''   '']"

definition error_known :: "json list" where
  "error_known = error_requests @
     invalid_format ''expected value'' ''not json at all {{{'' #
     map2 (\<lambda>code v. generic_error code (String (print_json v)))
       [NO_COMMAND_SPECIFIED, UNKNOWN_COMMAND] (take 2 error_requests) @
     map2 generic_error [NO_DATABASE_SPECIFIED, ERROR_READING_FROM_CLIENT, NO_DATABASE_SPECIFIED]
       (take 3 (drop 2 error_requests)) @
     map2 sql_error [(1, ''no such table: ghosts''), (21, ''empty query'')] (drop 5 error_requests)"

lemma error_responses_passes: "\<exists>room. \<forall>n \<ge> room. error_responses (protocol_site error_known n)"
  unfolding error_responses_def protocol_to_vec
  by (rule test_passes [where pw = "[]" and nets = "[]" and
        script = "on_one (''not json at all {{{'' # map print_json error_requests)"],
      code_simp, simp_all add: test_setup error_requests_def)

definition list_known :: "json list" where
  "list_known =
     [list_of ''LIST'', list_of ''list'', json_object [(''auth'', String ''nope'')],
      json_object [(''auth'', String ''s3cret'')], json_object [(''list'', Array [])], result_json True,
      result_json False]"

lemma case_insensitive_and_key_repair_passes:
  "\<exists>room. \<forall>n \<ge> room. case_insensitive_and_key_repair (protocol_site list_known n)"
  unfolding case_insensitive_and_key_repair_def protocol_to_vec
  by (rule test_passes [where pw = "[]" and nets = "[]" and
        script = "on_one [print_json (list_of ''list''), ''{cmd:\"LIST\"}'']"],
      code_simp, simp_all add: test_setup)

lemma auth_required_handshake_passes:
  "\<exists>room. \<forall>n \<ge> room. auth_required_handshake (protocol_site list_known n)"
  unfolding auth_required_handshake_def protocol_to_vec
  by (rule test_passes [where pw = "''s3cret''" and nets = "[]" and
        script = "on_one (map print_json [list_of ''LIST'', json_object [(''auth'', String ''nope'')],
          json_object [(''auth'', String ''s3cret'')], list_of ''LIST'']) @ [(1, print_json (list_of ''LIST''))]"],
      code_simp, simp_all add: test_setup)

lemma ip_whitelist_allows_listed_peer_passes:
  "\<exists>room. \<forall>n \<ge> room. ip_whitelist_allows_listed_peer (protocol_site list_known n)"
  unfolding ip_whitelist_allows_listed_peer_def protocol_to_vec
  by (rule test_passes [where pw = "[]" and nets = "[\<lparr>network = localhost, prefix_len = 32\<rparr>]" and
        script = "on_one [print_json (list_of ''LIST'')]"],
      code_simp, simp_all add: test_setup)

definition shared_requests :: "json list" where
  "shared_requests =
     map (query_of ''shared.db'')
       [''CREATE TABLE s(v TEXT)'', ''INSERT INTO s VALUES ('hello')'', ''SELECT v FROM s'']"

definition shared_known :: "json list" where
  "shared_known = shared_requests @
     [query_result [] [], query_result [''v''] [json_object [(''v'', String ''hello'')]]]"

lemma two_connections_share_a_database_file_passes:
  "\<exists>room. \<forall>n \<ge> room. two_connections_share_a_database_file (protocol_site shared_known n)"
  unfolding two_connections_share_a_database_file_def protocol_to_vec
  by (rule test_passes [where pw = "[]" and nets = "[]" and
        script = "zip [0, 0, 1] (map print_json shared_requests)"],
      code_simp, simp_all add: test_setup shared_requests_def)

text \<open>The other two tests get no answer: the server closes the connection, or never has it.\<close>

lemma oversized_packet_closes_connection_passes:
  "oversized_packet_closes_connection (protocol_site known n)"
proof -
  let ?T = "protocol_site known n" and ?c = "test_config [] []"
  let ?big = "to_le_bytes (20 * 1024 * 1024)"
  have start: "start_with_args ?T id = Some ?c" by (rule test_start) (simp add: test_configs)
  have n: "next_id (start_server ?c (site_world ?T)) = 0" by (simp add: start_server_def)
  obtain s :: "(string, (string \<times> string) list) server" where
    s: "connect_all ?T ?c [?big] ([], start_server ?c (site_world ?T)) = Returns ([Some 0], s)"
    "conns s 0 = Some \<lparr>peer = localhost, handler = new_handler ?c,
       socket = \<lparr>inbox = ?big, outbox = [], accepts = site_room ?T\<rparr>, phase = Reading\<rparr>"
    using connect_all_ready [OF test_allowed(1) [where pw = "[]"], where T = ?T and written = "[?big]" and hs = "[]" and
        s = "start_server ?c (site_world ?T)"]
    unfolding n by auto
  have "read_request ?c \<lparr>inbox = ?big, outbox = [], accepts = site_room ?T\<rparr> =
      (None, \<lparr>inbox = [], outbox = [], accepts = site_room ?T\<rparr>)"
    by (simp add: read_request_def read_exact_def from_to_le_bytes test_config_def)
  with start s show ?thesis
    by (simp add: oversized_packet_closes_connection_def run_test_def exchange_def no_header_def)
qed

lemma ip_whitelist_rejects_other_peers_passes:
  "ip_whitelist_rejects_other_peers (protocol_site known n)"
proof -
  have "start_with_args (protocol_site known n) (\<lambda>a. a\<lparr>arg_ip_whitelist := ''10.0.0.0/8''\<rparr>) =
      Some (test_config [] [\<lparr>network = V4 0x0A000000, prefix_len = 8\<rparr>])"
    by (rule test_start) (simp add: test_configs)
  then show ?thesis
    by (simp add: ip_whitelist_rejects_other_peers_def run_test_def connect_test_def test_allowed no_header_def)
qed

end
