(* ===== verification/Spec2Isabelle.thy ===== *)
theory Spec2Isabelle
  imports Net_V6 Handler_Commands Handler_Interleaved Server_Progress Server_Serial Server_Fine_Progress Build Client_Demo
    Config_Tests Protocol_Tests
begin

text \<open>
  A verification development for sqlite-server-rs: a TCP server that runs SQL on the SQLite
  databases of one folder for clients that speak length-prefixed JSON, and its reference client.

  \<^bold>\<open>The program.\<close> \<open>main\<close> (\<open>src/src/main.rs\<close>) loads a configuration (\<open>src/src/config.rs\<close>), builds
  the runtime and calls \<open>server::run\<close> (\<open>src/src/server.rs\<close>). Its loop accepts peers the
  whitelist lets in and spawns a task for each, until a signal ends it. A task
  (\<open>connection::handle\<close>, \<open>src/src/connection.rs\<close>) reads a frame, takes a permit of the limiter
  all tasks share, runs the request in its own \<open>RequestHandler\<close> (\<open>src/src/handler.rs\<close>), gives
  the permit back, and writes the response as a frame. A handler holds the login flag and the
  open databases of its connection; the files of the folder and the database engine are shared.
  The client (\<open>src/examples/rust/client.rs\<close>) binds parameters into SQL text, sends requests over
  the same framing and wraps the responses.

  \<^bold>\<open>The theories,\<close> in the order they build on each other:

  \<^item> \<open>Prelude\<close>, \<open>Text\<close>, \<open>Utf8\<close>: machine integers, outcomes (\<open>Returns\<close>, \<open>Panics\<close>, \<open>Diverges\<close>),
    results as sums, and the string routines of the standard library the code calls, with the
    dictionary interface \<open>dict\<close> that JSON objects and the connection cache both provide.
  \<^item> \<open>Json\<close>: the values of \<open>serde_json\<close> with their accessors; \<open>Filesystem\<close>: a POSIX file tree with
    links and rights, path resolution and \<open>std::path\<close>; \<open>Net\<close>: addresses with the parser and
    printer of \<open>std::net\<close>; \<open>Regex\<close>: \<open>replace_all\<close> over the matches of an engine, and how matches
    found by scanning rewrite a text.
  \<^item> \<open>Cidr\<close>, \<open>Config\<close>: \<open>src/src/config.rs\<close>. \<open>cidr_parse\<close>, \<open>cidr_contains\<close>, \<open>canonicalize\<close> and
    \<open>masked_eq\<close> are the functions of \<open>Cidr\<close>; \<open>parse_config\<close> and \<open>from_file\<close> are \<open>parse\<close> and
    \<open>from_file\<close>, over what \<open>clap\<close> filled in. \<open>Net_V6\<close>: printed addresses and networks are
    read back.
  \<^item> \<open>Sqlite\<close>, \<open>Handler\<close>: \<open>src/src/handler.rs\<close>. The engine is the record \<open>rusqlite\<close> of its calls;
    \<open>handle_request\<close>, \<open>handle_query\<close>, \<open>run_query\<close>, \<open>handle_list\<close>, \<open>handle_delete_db\<close>,
    \<open>get_connection\<close> and \<open>is_safe_database_name\<close> are the methods of \<open>RequestHandler\<close>, with the
    handler and the world passed through. \<open>Demo\<close> is a small engine for the witnesses.
  \<^item> \<open>Handler_Names\<close> (which database names are accepted and where they lead), \<open>Handler_Steps\<close>
    (what one operation keeps), \<open>Handler_Session\<close> (what a sequence of requests does),
    \<open>Handler_Commands\<close> (what each command computes): the lemmas and properties of the handler.
    \<open>Handler_Micro\<close> is the handler a second time, one access to the world per step (\<open>micro_step\<close>),
    with the proof that its steps compute \<open>handle_request\<close>; \<open>Handler_Interleaved\<close> shows what a query
    answers when anything may happen between them.
  \<^item> \<open>Connection\<close>: \<open>src/src/connection.rs\<close> over a byte stream, with the framing as the interface
    \<open>frame_codec\<close>, used by both sides.
  \<^item> \<open>Server\<close>: \<open>src/src/server.rs\<close> as a step relation over the accept loop and all tasks, in any
    interleaving; a task is where \<open>connection::handle\<close> can be waiting. What the server needs of a
    handler is the interface \<open>request_machine\<close>. \<open>Server_Safety\<close> has the invariants (permits,
    whitelist, logins, responses), \<open>Server_Progress\<close> what the server eventually does, and \<open>Program\<close> the
    process around it, from \<open>main\<close> to the exit code. \<open>Server_Fine\<close> is the server whose requests
    are not atomic: the accesses of different requests interleave, and other programs may change
    the world between any two; \<open>gated_steps\<close> is what it needs of a handler that runs step by step.
    \<open>Server_Fine_Safety\<close> has what it promises, \<open>Server_Sessions\<close> what one client sees of it
    (\<open>gated_sessions\<close> adds to \<open>gated_steps\<close> that only a login opens the gate), \<open>Server_Fine_Progress\<close>
    that it neither gets stuck nor runs for ever, and \<open>Server_Serial\<close> that with one worker it is an
    atomic one (\<open>atomic_run\<close>), if connections close and other programs act between requests.
    \<open>Build\<close> has the build script (\<open>src/build.rs\<close>), the version text and the signal that ends the accept loop.
  \<^item> \<open>Client_Values\<close>, \<open>Client_Binding\<close>, \<open>Client_Literals\<close>, \<open>Client_Result\<close>, \<open>Client\<close>:
    \<open>src/examples/rust/client.rs\<close>. Parameters and \<open>bind\<close>; binding against templates; SQL
    literals against any reader that follows SQLite's documentation; \<open>Row\<close> and \<open>QueryResult\<close>; and the client's
    connection put together with the server's. \<open>Client_Demo\<close>: the \<open>main\<close> of the example, run
    against the server.
  \<^item> \<open>Filesystem_Write\<close>, \<open>Config_Tests\<close>, \<open>Handler_Tests\<close>: the unit tests of the two modules, each a
    predicate of its name that the model is shown to pass. \<open>Protocol_Harness\<close>, \<open>Protocol_Tests\<close>: the
    protocol tests (\<open>src/tests/protocol.rs\<close>), from the start of the program to the bytes on the wire;
    what happens during a test is a run of theory Server.

  \<^bold>\<open>What the lemmas show.\<close> Access: nothing happens before the login, the login is a connection's own,
  and accepted names stay in the folder, except for the dangling links the code lets through,
  whatever directory they lead to. Function:
  each command computes what the protocol says, on every branch. Composition: a connection is the
  framing of its handler, a task of the server does what the sequential connection does, and a
  call of the client is the server's handler on what was bound. Failure: a failed query says why and
  leaves everything but one new connection as it was. Progress: only a cursor that
  never ends keeps a request, a connection or the exit of the process from happening. Numbers:
  lengths and configured sizes are cut to their width where the code casts them. Concurrency: the gate,
  the whitelist, the query limit, the shape of names, the order of responses and the logins survive
  any interleaving of single accesses and any interference, an answer with rows is one whole pass of
  one cursor, and there is progress, as long as each
  row a cursor returns leaves fewer; the guard against symbolic links does not survive it, and one
  worker makes the server serialisable while it is not disturbed during a request.

  \<^bold>\<open>Parameters.\<close> Crates and the operating system are not modelled but parameters: the fields of
  \<open>externals\<close> (\<open>rusqlite\<close>, \<open>serde_json\<close>, \<open>regex\<close>), \<open>environment\<close> (resolver, current
  directory, JSON parser, errors), \<open>runtime\<close> (\<open>tokio\<close>, sockets, signals, and when
  dropping the runtime returns) and \<open>client_externals\<close>. A property that needs something of them says so as a hypothesis: that cursors
  end, that the regex engine finds the matches of its pattern, that one side parses what the
  other printed, that \<open>Semaphore::new\<close> accepts what it documents, that dropping the runtime waits for
  the tasks that block (\<open>drop_waits\<close>). Also parameters are SQLite's reading of an expression
  (\<open>reads_literals\<close>), the decimal text of an \<open>f64\<close> (\<open>displays_f64\<close>) and the conversion of JSON
  numbers to it (\<open>rust_f64\<close>).

  \<^bold>\<open>Bounds.\<close> No fuel is used: the loops over input, texts and connections are recursive with a
  length as measure; the row loop, which may not end, is a partial function whose value is then
  \<open>None\<close>. Following links stops after \<open>max_symlinks\<close> = 40, the limit of Linux.

  \<^bold>\<open>Simplifications.\<close> In theory Server a request is one step on the shared world; theory
  Server_Fine lifts that, down to single calls of the engine and of the file system, each of which
  is atomic (a folder is listed in one access, and the connections of a task are closed together when
  it ends, in the order they were opened, where the code drops a \<open>HashMap\<close> in no particular order). A stream delivers the bytes its peer will ever send, then ends. Socket addresses have no
  scope. A value that a parameter puts into a column is what its literal stands for; that a column
  may convert what is stored is left to the engine. Memory is unbounded. What is printed while serving is not modelled, apart from the startup line and the exit
  messages.

  \<^bold>\<open>Not modelled.\<close> The argument parser (\<open>clap\<close>, a parameter) and the Python client (another
  language, the same protocol as the reference client).
\<close>

end
